(* ===== verification/Prelude.thy ===== *)
theory Prelude
  imports Main "HOL-Library.Word" "HOL-Library.Monad_Syntax"
begin

text \<open>
  Shared vocabulary of the development: fixed-width integers, byte strings, the error codes of
  \<^verbatim>\<open>include/bitchat/error.h\<close>, the C memory operations the sources use (\<open>memcpy\<close>, bounded reads)
  and \<open>size_t\<close> arithmetic, with the lemmas and simplification collections the components use.

  Conventions. A C function that can meet undefined behaviour (a read or write outside an
  object, a division by zero, a lock of a mutex that does not exist) returns an \<open>option\<close>;
  \<open>None\<close> is that fault and never a value of the C function. A pointer that the code compares
  with \<open>NULL\<close> is an \<open>option\<close> of what it points to. A fixed-size array is a list, a \<open>size_t\<close> is a
  \<open>nat\<close> with its wrap-around at 64 bits written out, every other integer is a \<open>word\<close>.
\<close>

unbundle bit_operations_syntax

type_synonym u8 = "8 word"
type_synonym u16 = "16 word"
type_synonym u32 = "32 word"
type_synonym u64 = "64 word"
type_synonym bytes = "u8 list"

named_theorems mem_simps \<open>evaluation of the C memory operations\<close>
named_theorems wf_intros \<open>preservation of well-formedness\<close>

section \<open>Error codes\<close>

datatype bc_err =
    BC_OK
  | BC_ERR
  | BC_ERR_NOMEM
  | BC_ERR_INVALID
  | BC_ERR_DUPLICATE
  | BC_ERR_TTL_EXPIRED
  | BC_ERR_CRYPTO
  | BC_ERR_STORAGE
  | BC_ERR_TRANSPORT
  | BC_ERR_NOT_IMPLEMENTED
  | BC_ERR_BUFFER_TOO_SMALL

fun err_code :: "bc_err \<Rightarrow> int" where
  "err_code BC_OK = 0"
| "err_code BC_ERR = -1"
| "err_code BC_ERR_NOMEM = -2"
| "err_code BC_ERR_INVALID = -3"
| "err_code BC_ERR_DUPLICATE = -4"
| "err_code BC_ERR_TTL_EXPIRED = -5"
| "err_code BC_ERR_CRYPTO = -6"
| "err_code BC_ERR_STORAGE = -7"
| "err_code BC_ERR_TRANSPORT = -8"
| "err_code BC_ERR_NOT_IMPLEMENTED = -9"
| "err_code BC_ERR_BUFFER_TOO_SMALL = -10"

lemma err_code_inject: "err_code a = err_code b \<Longrightarrow> a = b"
  by (cases a; cases b) simp_all

text \<open>The codes are ordered as the integers they stand for.\<close>

instantiation bc_err :: linorder
begin

definition less_eq_bc_err :: "bc_err \<Rightarrow> bc_err \<Rightarrow> bool" where
  "less_eq_bc_err a b \<longleftrightarrow> err_code a \<le> err_code b"

definition less_bc_err :: "bc_err \<Rightarrow> bc_err \<Rightarrow> bool" where
  "less_bc_err a b \<longleftrightarrow> err_code a < err_code b"

instance
  by standard (auto simp: less_eq_bc_err_def less_bc_err_def intro: err_code_inject)

end

lemma err_le_OK: "e \<le> BC_OK"
  by (cases e) (simp_all add: less_eq_bc_err_def)

section \<open>Memory\<close>

definition memcpy :: "'b list \<Rightarrow> nat \<Rightarrow> 'b list \<Rightarrow> nat \<Rightarrow> nat \<Rightarrow> 'b list option" where
  "memcpy dst doff src soff n =
     (if soff + n \<le> length src \<and> doff + n \<le> length dst
      then Some (take doff dst @ take n (drop soff src) @ drop (doff + n) dst)
      else None)"

definition mem_read :: "'b list \<Rightarrow> nat \<Rightarrow> nat \<Rightarrow> 'b list option" where
  "mem_read src soff n =
     (if soff + n \<le> length src then Some (take n (drop soff src)) else None)"

definition mem_get :: "'b list \<Rightarrow> nat \<Rightarrow> 'b option" where
  "mem_get src i = (if i < length src then Some (src ! i) else None)"

definition mem_set :: "'b list \<Rightarrow> nat \<Rightarrow> 'b \<Rightarrow> 'b list option" where
  "mem_set dst i x = (if i < length dst then Some (dst[i := x]) else None)"

text \<open>\<open>sodium_memcmp(a, b, n) == 0\<close>: the first \<open>n\<close> bytes agree.\<close>

definition memeq :: "nat \<Rightarrow> bytes \<Rightarrow> bytes \<Rightarrow> bool" where
  "memeq n a b \<longleftrightarrow> take n a = take n b"

definition size_add :: "nat \<Rightarrow> nat \<Rightarrow> nat" where
  "size_add a b = (a + b) mod 2 ^ 64"

lemma memeq_eq [simp]: "length a = n \<Longrightarrow> length b = n \<Longrightarrow> memeq n a b \<longleftrightarrow> a = b"
  by (simp add: memeq_def)

lemma memeq_refl [simp]: "memeq n a a"
  by (simp add: memeq_def)

lemma size_add_small [simp]: "a + b < 2 ^ 64 \<Longrightarrow> size_add a b = a + b"
  by (simp add: size_add_def)

lemma mem_read_Some [mem_simps]:
  "soff + n \<le> length src \<Longrightarrow> mem_read src soff n = Some (take n (drop soff src))"
  by (simp add: mem_read_def)

lemma mem_read_None_iff: "mem_read src soff n = None \<longleftrightarrow> length src < soff + n"
  by (auto simp: mem_read_def)

lemma mem_get_Some [mem_simps]: "i < length src \<Longrightarrow> mem_get src i = Some (src ! i)"
  by (simp add: mem_get_def)

lemma mem_set_Some [mem_simps]: "i < length dst \<Longrightarrow> mem_set dst i x = Some (dst[i := x])"
  by (simp add: mem_set_def)

text \<open>Writing a whole source at the start, and behind an already written prefix.\<close>

lemma memcpy_first [mem_simps]:
  "length src = n \<Longrightarrow> n \<le> length b \<Longrightarrow> memcpy b 0 src 0 n = Some (src @ drop n b)"
  by (simp add: memcpy_def)

lemma memcpy_next [mem_simps]:
  assumes "length pre = doff" and "length src = n" and "doff + n \<le> length b"
  shows "memcpy (pre @ drop doff b) doff src 0 n = Some ((pre @ src) @ drop (doff + n) b)"
  using assms by (simp add: memcpy_def add.commute)

lemma memcpy_length: "memcpy dst doff src soff n = Some dst' \<Longrightarrow> length dst' = length dst"
  by (auto simp: memcpy_def split: if_splits)

section \<open>Bytes of words\<close>

lemma bit_byte_at:
  "bit (push_bit k (ucast (ucast (drop_bit k v) :: u8)) :: 'a::len word) n \<longleftrightarrow>
   n < LENGTH('a) \<and> k \<le> n \<and> n < k + 8 \<and> bit (v :: 'a word) n"
  by (auto simp: bit_simps)

lemma bit_byte_0:
  "bit (ucast (ucast (v :: 'a::len word) :: u8) :: 'a word) n \<longleftrightarrow> n < 8 \<and> bit v n"
  by (auto simp: bit_simps dest: bit_imp_le_length)

section \<open>Lists\<close>

lemma take_drop_split:
  "k \<le> n \<Longrightarrow> take k (drop i xs) @ take (n - k) (drop (i + k) xs) = take n (drop i xs)"
  by (metis add.commute drop_drop le_add_diff_inverse take_add)

lemma take_1_drop: "i < length xs \<Longrightarrow> take (Suc 0) (drop i xs) = [xs ! i]"
  by (simp add: take_Suc hd_drop_conv_nth)

lemma zip_take_long: "length ys \<le> n \<Longrightarrow> zip (take n xs) ys = zip xs ys"
  by (rule nth_equalityI) auto

lemma length_filter_take_Suc:
  "i < length xs \<Longrightarrow>
   length (filter P (take (Suc i) xs)) = length (filter P (take i xs)) + (if P (xs ! i) then 1 else 0)"
  by (simp add: take_Suc_conv_app_nth)

lemma list_update_take_ge: "n \<le> i \<Longrightarrow> take n (xs[i := x]) = take n xs"
  by simp

section \<open>Faults and results\<close>

lemma bind_Some_iff: "Option.bind m f = Some y \<longleftrightarrow> (\<exists>x. m = Some x \<and> f x = Some y)"
  by (cases m) auto

lemma bind_None_iff: "Option.bind m f = None \<longleftrightarrow> (m = None \<or> (\<exists>x. m = Some x \<and> f x = None))"
  by (cases m) auto

lemma find_upt_Some:
  assumes "i < n" "P i" "\<And>j. j < n \<Longrightarrow> P j \<Longrightarrow> j = i"
  shows "find P [0..<n] = Some i"
proof -
  have "\<not> P ([0..<n] ! j)" if "j < i" for j using assms(1) assms(3) [of j] that by auto
  then show ?thesis using assms(1,2) by (auto simp: find_Some_iff intro!: exI [of _ i])
qed

lemma nth_key_eq:
  assumes "distinct (map f xs)" "i < length xs" "j < length xs" "f (xs ! i) = f (xs ! j)"
  shows "i = j"
  using assms by (metis length_map nth_eq_iff_index_eq nth_map)

lemma in_set_take_conv_nth: "x \<in> set (take n xs) \<longleftrightarrow> (\<exists>i<min n (length xs). x = xs ! i)"
  by (auto simp: in_set_conv_nth)

end
