(* ===== verification/Entities.thy ===== *)
theory Entities
  imports Prelude
begin

text \<open>
  The structs of the domain layer (\<^verbatim>\<open>include/bitchat/domain/*.h\<close>) with their size constants and
  well-formedness: messages, peers and identities. Field names carry the struct's short name.
\<close>

section \<open>Messages (\<^verbatim>\<open>message.h\<close>)\<close>

definition BC_PUBKEY_SIZE :: nat where "BC_PUBKEY_SIZE = 32"
definition BC_UUID_SIZE :: nat where "BC_UUID_SIZE = 16"
definition BC_DEFAULT_TTL :: u8 where "BC_DEFAULT_TTL = 10"

definition BC_MESSAGE_HEADER_SIZE :: nat where
  "BC_MESSAGE_HEADER_SIZE = BC_UUID_SIZE + 1 + BC_PUBKEY_SIZE * 2 + 8 + 4"

text \<open>\<open>msg_payload\<close> is the heap pointer, \<open>msg_payload_len\<close> the separate length field.\<close>

record bc_message =
  msg_uuid :: bytes
  msg_ttl :: u8
  msg_sender_pubkey :: bytes
  msg_receiver_pubkey :: bytes
  msg_timestamp :: u64
  msg_payload :: "bytes option"
  msg_payload_len :: nat

definition payload_bytes :: "bc_message \<Rightarrow> bytes" where
  "payload_bytes m = (case msg_payload m of None \<Rightarrow> [] | Some p \<Rightarrow> p)"

text \<open>
  What every message of the program satisfies: arrays have their declared sizes, and the payload
  pointer and its length agree (\<open>NULL\<close> exactly for an empty payload).
\<close>

definition message_wf :: "bc_message \<Rightarrow> bool" where
  "message_wf m \<longleftrightarrow>
     length (msg_uuid m) = BC_UUID_SIZE \<and>
     length (msg_sender_pubkey m) = BC_PUBKEY_SIZE \<and>
     length (msg_receiver_pubkey m) = BC_PUBKEY_SIZE \<and>
     (case msg_payload m of None \<Rightarrow> msg_payload_len m = 0
      | Some p \<Rightarrow> msg_payload_len m = length p \<and> 0 < length p)"

section \<open>Peers (\<^verbatim>\<open>peer.h\<close>)\<close>

definition BC_MAX_PEERS :: nat where "BC_MAX_PEERS = 64"

datatype bc_transport_type = BC_TRANSPORT_BLE | BC_TRANSPORT_WIFI_DIRECT

record bc_peer =
  peer_pubkey :: bytes
  peer_last_seen :: u64
  peer_transport :: bc_transport_type
  peer_rssi :: u8

text \<open>A zeroed \<open>bc_peer_t\<close>, as \<open>memset(&p, 0, sizeof p)\<close> and \<open>calloc\<close> leave it.\<close>

definition peer_zero :: bc_peer where
  "peer_zero = \<lparr>peer_pubkey = replicate BC_PUBKEY_SIZE 0, peer_last_seen = 0,
     peer_transport = BC_TRANSPORT_BLE, peer_rssi = 0\<rparr>"

definition peer_wf :: "bc_peer \<Rightarrow> bool" where
  "peer_wf p \<longleftrightarrow> length (peer_pubkey p) = BC_PUBKEY_SIZE"

section \<open>Identities (\<^verbatim>\<open>identity.h\<close>)\<close>

definition BC_SECRET_KEY_SIZE :: nat where "BC_SECRET_KEY_SIZE = 32"

record bc_identity =
  id_pubkey :: bytes
  id_secret_key :: bytes

definition identity_wf :: "bc_identity \<Rightarrow> bool" where
  "identity_wf i \<longleftrightarrow>
     length (id_pubkey i) = BC_PUBKEY_SIZE \<and> length (id_secret_key i) = BC_SECRET_KEY_SIZE"

lemmas size_defs =
  BC_PUBKEY_SIZE_def BC_UUID_SIZE_def BC_MESSAGE_HEADER_SIZE_def BC_SECRET_KEY_SIZE_def
  BC_MAX_PEERS_def

lemma header_size [simp]: "BC_MESSAGE_HEADER_SIZE = 93"
  by (simp add: size_defs)

lemma peer_zero_wf [simp]: "peer_wf peer_zero"
  by (simp add: peer_wf_def peer_zero_def)

lemma payload_bytes_length:
  "message_wf m \<Longrightarrow> length (payload_bytes m) = msg_payload_len m"
  by (auto simp: message_wf_def payload_bytes_def split: option.splits)

lemma message_wf_ttl [simp]: "message_wf (m\<lparr>msg_ttl := t\<rparr>) = message_wf m"
  by (simp add: message_wf_def split: option.split)

lemma payload_bytes_ttl [simp]: "payload_bytes (m\<lparr>msg_ttl := t\<rparr>) = payload_bytes m"
  by (simp add: payload_bytes_def)

text \<open>Two well-formed messages with equal fields and equal payload bytes are equal.\<close>

lemma message_eqI:
  assumes "message_wf m" "message_wf n"
    and "msg_uuid m = msg_uuid n" "msg_ttl m = msg_ttl n"
    and "msg_sender_pubkey m = msg_sender_pubkey n"
    and "msg_receiver_pubkey m = msg_receiver_pubkey n"
    and "msg_timestamp m = msg_timestamp n" "payload_bytes m = payload_bytes n"
  shows "m = n"
  using assms
  by (cases m; cases n) (auto simp: message_wf_def payload_bytes_def split: option.splits)

end
