(* ===== verification/World.thy ===== *)
theory World
  imports Entities
begin

text \<open>
  What the C code obtains from outside: wall-clock readings, heap allocations, random bytes. Each
  is an unconstrained function of a call counter, so no definition fixes what the operating system
  answers, and two calls of \<open>time(NULL)\<close> or \<open>malloc\<close> may answer differently. The record is
  extensible: adapters (database, sockets) and callers (inbox, console) add their own state.

  Two fields are ghost state. \<open>w_live\<close> counts the heap blocks that are allocated and not freed;
  \<open>w_trace\<close> is the sequence of observable calls the program makes through its ports and callbacks.
\<close>

datatype event =
    Sent bytes bytes bc_err          \<comment> \<open>\<open>transport->send(peer, data)\<close> and its result\<close>
  | Stored bc_message bc_err         \<comment> \<open>\<open>storage->store_message(msg)\<close> and its result\<close>
  | Delivered bc_message             \<comment> \<open>\<open>router->on_message(msg)\<close>\<close>
  | PeerFound bc_peer                \<comment> \<open>\<open>disc->on_found(peer)\<close>\<close>
  | UserMessage bytes bytes          \<comment> \<open>\<open>user_callback(sender, plaintext)\<close>\<close>

record world =
  w_clock :: "nat \<Rightarrow> u64"
  w_ntime :: nat
  w_heap :: "nat \<Rightarrow> nat \<Rightarrow> bool"
  w_nalloc :: nat
  w_rng :: "nat \<Rightarrow> nat \<Rightarrow> u8"
  w_nrand :: nat
  w_live :: int
  w_trace :: "event list"

text \<open>The part of the state that adapters and callers add.\<close>

abbreviation ext :: "'a world_scheme \<Rightarrow> 'a" where
  "ext \<equiv> world.more"

definition on_ext :: "('a \<Rightarrow> 'a) \<Rightarrow> 'a world_scheme \<Rightarrow> 'a world_scheme" where
  "on_ext f w = world.more_update f w"

lemma on_ext_frame [simp]:
  "ext (on_ext f w) = f (ext w)" "w_trace (on_ext f w) = w_trace w" "w_live (on_ext f w) = w_live w"
  "w_clock (on_ext f w) = w_clock w" "w_ntime (on_ext f w) = w_ntime w" "w_heap (on_ext f w) = w_heap w"
  "w_nalloc (on_ext f w) = w_nalloc w" "w_rng (on_ext f w) = w_rng w"
  by (simp_all add: on_ext_def)

definition c_time :: "'a world_scheme \<Rightarrow> u64 \<times> 'a world_scheme" where
  "c_time w = (w_clock w (w_ntime w), w\<lparr>w_ntime := Suc (w_ntime w)\<rparr>)"

text \<open>\<open>malloc\<close> or \<open>calloc\<close> of \<open>n\<close> bytes: whether the block was obtained.\<close>

definition c_malloc :: "nat \<Rightarrow> 'a world_scheme \<Rightarrow> bool \<times> 'a world_scheme" where
  "c_malloc n w =
     (if w_heap w (w_nalloc w) n
      then (True, w\<lparr>w_nalloc := Suc (w_nalloc w), w_live := w_live w + 1\<rparr>)
      else (False, w\<lparr>w_nalloc := Suc (w_nalloc w)\<rparr>))"

definition c_free :: "'a world_scheme \<Rightarrow> 'a world_scheme" where
  "c_free w = w\<lparr>w_live := w_live w - 1\<rparr>"

definition randombytes_buf :: "nat \<Rightarrow> 'a world_scheme \<Rightarrow> bytes \<times> 'a world_scheme" where
  "randombytes_buf n w = (map (w_rng w (w_nrand w)) [0..<n], w\<lparr>w_nrand := Suc (w_nrand w)\<rparr>)"

definition emit :: "event \<Rightarrow> 'a world_scheme \<Rightarrow> 'a world_scheme" where
  "emit e w = w\<lparr>w_trace := w_trace w @ [e]\<rparr>"

lemma c_time_frame [simp]:
  "w_live (snd (c_time w)) = w_live w" "w_trace (snd (c_time w)) = w_trace w"
  "w_clock (snd (c_time w)) = w_clock w" "ext (snd (c_time w)) = ext w"
  by (simp_all add: c_time_def)

lemma c_malloc_frame [simp]:
  "w_trace (snd (c_malloc n w)) = w_trace w" "w_clock (snd (c_malloc n w)) = w_clock w"
  "w_live (snd (c_malloc n w)) = w_live w + (if fst (c_malloc n w) then 1 else 0)"
  "w_ntime (snd (c_malloc n w)) = w_ntime w" "ext (snd (c_malloc n w)) = ext w"
  by (simp_all add: c_malloc_def)

lemma c_free_frame [simp]:
  "w_trace (c_free w) = w_trace w" "w_live (c_free w) = w_live w - 1"
  "w_clock (c_free w) = w_clock w" "w_ntime (c_free w) = w_ntime w" "ext (c_free w) = ext w"
  by (simp_all add: c_free_def)

lemma emit_frame [simp]:
  "w_trace (emit e w) = w_trace w @ [e]" "w_live (emit e w) = w_live w"
  "w_clock (emit e w) = w_clock w" "w_ntime (emit e w) = w_ntime w" "ext (emit e w) = ext w"
  by (simp_all add: emit_def)

lemma randombytes_length [simp]: "length (fst (randombytes_buf n w)) = n"
  by (simp add: randombytes_buf_def)

lemma randombytes_pair: "randombytes_buf n w = (r, w') \<Longrightarrow> length r = n"
  using randombytes_length [of n w] by (simp del: randombytes_length)

lemma randombytes_frame [simp]:
  "w_live (snd (randombytes_buf n w)) = w_live w"
  "w_trace (snd (randombytes_buf n w)) = w_trace w" "ext (snd (randombytes_buf n w)) = ext w"
  by (simp_all add: randombytes_buf_def)

text \<open>The answers the environment will give; no operation of the program changes them.\<close>

definition oracles :: "'a world_scheme \<Rightarrow> (nat \<Rightarrow> u64) \<times> (nat \<Rightarrow> nat \<Rightarrow> bool) \<times> (nat \<Rightarrow> nat \<Rightarrow> u8)" where
  "oracles w = (w_clock w, w_heap w, w_rng w)"

lemma oracles_frame [simp]:
  "oracles (snd (c_time w)) = oracles w" "oracles (snd (c_malloc n w)) = oracles w"
  "oracles (c_free w) = oracles w" "oracles (emit e w) = oracles w"
  "oracles (snd (randombytes_buf n w)) = oracles w"
  by (simp_all add: oracles_def c_time_def c_malloc_def c_free_def emit_def randombytes_buf_def)

lemma oracles_on_ext [simp]: "oracles (on_ext f w) = oracles w"
  by (simp add: oracles_def)

lemma oracles_heap: "oracles w = oracles w' \<Longrightarrow> w_heap w = w_heap w'"
  by (simp add: oracles_def)

text \<open>A world used by the witnesses: a constant clock, a heap that never fails, zero bytes.\<close>

definition calm :: "u64 \<Rightarrow> world" where
  "calm t = \<lparr>w_clock = (\<lambda>_. t), w_ntime = 0, w_heap = (\<lambda>_ _. True), w_nalloc = 0,
     w_rng = (\<lambda>_ _. 0), w_nrand = 0, w_live = 0, w_trace = []\<rparr>"


lemma calm_simps [simp]:
  "w_clock (calm t) n = t" "w_heap (calm t) k s" "w_rng (calm t) k = (\<lambda>_. 0)" "w_live (calm t) = 0"
  "w_trace (calm t) = []" "w_ntime (calm t) = 0" "w_nalloc (calm t) = 0" "w_nrand (calm t) = 0"
  by (simp_all add: calm_def)

end
