(* ===== verification/Message.thy ===== *)
theory Message
  imports World
begin

text \<open>
  The message entity, \<^verbatim>\<open>src/domain/message.c\<close>: the big-endian helpers, creation, destruction, and
  the wire format with its two directions.
\<close>

section \<open>Big-endian integers\<close>

definition write_u32_be :: "u32 \<Rightarrow> bytes" where
  "write_u32_be val =
     [ucast (drop_bit 24 val), ucast (drop_bit 16 val), ucast (drop_bit 8 val), ucast val]"

definition read_u32_be :: "bytes \<Rightarrow> u32" where
  "read_u32_be src =
     push_bit 24 (ucast (src ! 0)) OR push_bit 16 (ucast (src ! 1)) OR
     push_bit 8 (ucast (src ! 2)) OR ucast (src ! 3)"

definition write_u64_be :: "u64 \<Rightarrow> bytes" where
  "write_u64_be val =
     [ucast (drop_bit 56 val), ucast (drop_bit 48 val), ucast (drop_bit 40 val),
      ucast (drop_bit 32 val), ucast (drop_bit 24 val), ucast (drop_bit 16 val),
      ucast (drop_bit 8 val), ucast val]"

definition read_u64_be :: "bytes \<Rightarrow> u64" where
  "read_u64_be src =
     push_bit 56 (ucast (src ! 0)) OR push_bit 48 (ucast (src ! 1)) OR
     push_bit 40 (ucast (src ! 2)) OR push_bit 32 (ucast (src ! 3)) OR
     push_bit 24 (ucast (src ! 4)) OR push_bit 16 (ucast (src ! 5)) OR
     push_bit 8 (ucast (src ! 6)) OR ucast (src ! 7)"

lemma read_write_u32 [simp]: "read_u32_be (write_u32_be v) = v"
proof (rule bit_word_eqI)
  fix n :: nat
  assume "n < LENGTH(32)"
  then show "bit (read_u32_be (write_u32_be v)) n = bit v n"
    by (cases "bit v n")
      (simp_all add: read_u32_be_def write_u32_be_def bit_or_iff bit_byte_at bit_byte_0, arith)
qed

lemma read_write_u64 [simp]: "read_u64_be (write_u64_be v) = v"
proof (rule bit_word_eqI)
  fix n :: nat
  assume "n < LENGTH(64)"
  then show "bit (read_u64_be (write_u64_be v)) n = bit v n"
    by (cases "bit v n")
      (simp_all add: read_u64_be_def write_u64_be_def bit_or_iff bit_byte_at bit_byte_0, arith)
qed

lemma write_read_u32 [simp]:
  assumes "length bs = 4"
  shows "write_u32_be (read_u32_be bs) = bs"
proof -
  obtain a b c d where bs: "bs = [a, b, c, d]"
    using assms by (auto simp: eval_nat_numeral length_Suc_conv)
  show ?thesis
    unfolding bs write_u32_be_def read_u32_be_def list.inject
    by (intro conjI bit_word_eqI refl) (auto simp: bit_simps dest: bit_imp_le_length)
qed

lemma write_read_u64 [simp]:
  assumes "length bs = 8"
  shows "write_u64_be (read_u64_be bs) = bs"
proof -
  obtain b0 b1 b2 b3 b4 b5 b6 b7 where bs: "bs = [b0, b1, b2, b3, b4, b5, b6, b7]"
    using assms by (auto simp: eval_nat_numeral length_Suc_conv)
  show ?thesis
    unfolding bs write_u64_be_def read_u64_be_def list.inject
    by (intro conjI bit_word_eqI refl) (auto simp: bit_simps dest: bit_imp_le_length)
qed

lemma write_length [simp]: "length (write_u32_be v) = 4" "length (write_u64_be t) = 8"
  by (simp_all add: write_u32_be_def write_u64_be_def)

section \<open>Creation and destruction\<close>

text \<open>\<open>sizeof(bc_message_t)\<close> on the 64-bit targets.\<close>

definition sizeof_message :: nat where "sizeof_message = 112"

definition bc_message_create ::
  "bytes option \<Rightarrow> bytes option \<Rightarrow> bytes option \<Rightarrow> nat \<Rightarrow> 'a world_scheme \<Rightarrow>
   (bc_message option \<times> 'a world_scheme) option" where
  "bc_message_create sender receiver payload payload_len w =
     (case (sender, receiver) of
        (Some s, Some r) \<Rightarrow>
          (let (ok, w) = c_malloc sizeof_message w in
           if \<not> ok then Some (None, w)
           else
             let (u, w) = randombytes_buf BC_UUID_SIZE w in
             do {
               s \<leftarrow> mem_read s 0 BC_PUBKEY_SIZE;
               r \<leftarrow> mem_read r 0 BC_PUBKEY_SIZE;
               let (now, w) = c_time w;
               let m = \<lparr>msg_uuid = u, msg_ttl = BC_DEFAULT_TTL, msg_sender_pubkey = s,
                        msg_receiver_pubkey = r, msg_timestamp = now,
                        msg_payload = None, msg_payload_len = 0\<rparr>;
               case payload of
                 Some p \<Rightarrow>
                   if payload_len > 0 then
                     let (ok, w) = c_malloc payload_len w in
                     if \<not> ok then Some (None, c_free w)
                     else do {
                       body \<leftarrow> mem_read p 0 payload_len;
                       Some (Some (m\<lparr>msg_payload := Some body, msg_payload_len := payload_len\<rparr>), w)
                     }
                   else Some (Some m, w)
               | None \<Rightarrow> Some (Some m, w)
             })
      | _ \<Rightarrow> Some (None, w))"

text \<open>
  Destruction overwrites the payload and the struct with zeros and frees both blocks. The bytes of
  a freed object are not part of the state, so what is left is the count of live blocks.
\<close>

definition bc_message_destroy :: "bc_message option \<Rightarrow> 'a world_scheme \<Rightarrow> 'a world_scheme" where
  "bc_message_destroy msg w =
     (case msg of
        None \<Rightarrow> w
      | Some m \<Rightarrow> c_free (if msg_payload m \<noteq> None then c_free w else w))"

section \<open>The wire format\<close>

definition bc_message_serialize ::
  "bc_message option \<Rightarrow> bytes option \<Rightarrow> nat \<Rightarrow> nat option \<Rightarrow>
   (bc_err \<times> bytes option \<times> nat option) option" where
  "bc_message_serialize msg buf buf_len out_len =
     (case (msg, buf, out_len) of
        (Some m, Some b, Some _) \<Rightarrow>
          (let needed = size_add BC_MESSAGE_HEADER_SIZE (msg_payload_len m) in
           if buf_len < needed then Some (BC_ERR_BUFFER_TOO_SMALL, Some b, Some needed)
           else do {
             let p = 0;
             b \<leftarrow> memcpy b p (msg_uuid m) 0 BC_UUID_SIZE;
             let p = p + BC_UUID_SIZE;
             b \<leftarrow> memcpy b p [msg_ttl m] 0 1;
             let p = p + 1;
             b \<leftarrow> memcpy b p (msg_sender_pubkey m) 0 BC_PUBKEY_SIZE;
             let p = p + BC_PUBKEY_SIZE;
             b \<leftarrow> memcpy b p (msg_receiver_pubkey m) 0 BC_PUBKEY_SIZE;
             let p = p + BC_PUBKEY_SIZE;
             b \<leftarrow> memcpy b p (write_u64_be (msg_timestamp m)) 0 8;
             let p = p + 8;
             b \<leftarrow> memcpy b p (write_u32_be (word_of_nat (msg_payload_len m))) 0 4;
             let p = p + 4;
             (if msg_payload_len m > 0 then do {
                body \<leftarrow> msg_payload m;
                b \<leftarrow> memcpy b p body 0 (msg_payload_len m);
                Some (BC_OK, Some b, Some (p + msg_payload_len m))
              }
              else Some (BC_OK, Some b, Some p))
           })
      | _ \<Rightarrow> Some (BC_ERR_INVALID, buf, out_len))"

text \<open>
  In the length check of \<open>bc_message_deserialize\<close> the header size is an \<open>int\<close> and \<open>payload_len\<close> a
  \<open>uint32_t\<close>, so their sum is a \<open>uint32_t\<close> and wraps before it is compared with the \<open>size_t\<close>.
\<close>

definition bc_message_deserialize ::
  "bytes option \<Rightarrow> nat \<Rightarrow> 'a world_scheme \<Rightarrow> (bc_message option \<times> 'a world_scheme) option" where
  "bc_message_deserialize data data_len w =
     (case data of
        None \<Rightarrow> Some (None, w)
      | Some d \<Rightarrow>
          if data_len < BC_MESSAGE_HEADER_SIZE then Some (None, w)
          else do {
            let u = 0;
            let p = u + BC_UUID_SIZE;
            t \<leftarrow> mem_get d p;
            let s = p + 1;
            let r = s + BC_PUBKEY_SIZE;
            let p = r + BC_PUBKEY_SIZE;
            ts \<leftarrow> mem_read d p 8;
            let p = p + 8;
            pl \<leftarrow> mem_read d p 4;
            let payload_len = read_u32_be pl;
            let p = p + 4;
            (if data_len < unat (word_of_nat BC_MESSAGE_HEADER_SIZE + payload_len) then Some (None, w)
             else
               let (ok, w) = c_malloc sizeof_message w in
               if \<not> ok then Some (None, w)
               else do {
                 uuid \<leftarrow> mem_read d u BC_UUID_SIZE;
                 sender \<leftarrow> mem_read d s BC_PUBKEY_SIZE;
                 receiver \<leftarrow> mem_read d r BC_PUBKEY_SIZE;
                 let m = \<lparr>msg_uuid = uuid, msg_ttl = t, msg_sender_pubkey = sender,
                          msg_receiver_pubkey = receiver, msg_timestamp = read_u64_be ts,
                          msg_payload = None, msg_payload_len = 0\<rparr>;
                 (if payload_len > 0 then
                    let (ok, w) = c_malloc (unat payload_len) w in
                    if \<not> ok then Some (None, c_free w)
                    else do {
                      body \<leftarrow> mem_read d p (unat payload_len);
                      Some (Some (m\<lparr>msg_payload := Some body,
                                    msg_payload_len := unat payload_len\<rparr>), w)
                    }
                  else Some (Some m, w))
               })
          })"

text \<open>The format the header file documents, as a byte string.\<close>

definition wire :: "bc_message \<Rightarrow> bytes" where
  "wire m = msg_uuid m @ [msg_ttl m] @ msg_sender_pubkey m @ msg_receiver_pubkey m @
     write_u64_be (msg_timestamp m) @ write_u32_be (word_of_nat (msg_payload_len m)) @
     payload_bytes m"

definition msg_blocks :: "bc_message \<Rightarrow> int" where
  "msg_blocks m = 1 + (if msg_payload m = None then 0 else 1)"

lemma wire_length: "message_wf m \<Longrightarrow> length (wire m) = 93 + msg_payload_len m"
  by (simp add: wire_def payload_bytes_length) (simp add: message_wf_def size_defs)


section \<open>Serialisation writes the documented format\<close>

lemma serialize_null:
  "msg = None \<or> buf = None \<or> out_len = None \<Longrightarrow>
   bc_message_serialize msg buf n out_len = Some (BC_ERR_INVALID, buf, out_len)"
  by (auto simp: bc_message_serialize_def split: option.split)

lemma serialize_too_small:
  assumes "93 + msg_payload_len m < 2 ^ 64" "n < 93 + msg_payload_len m"
  shows "bc_message_serialize (Some m) (Some b) n (Some l) =
    Some (BC_ERR_BUFFER_TOO_SMALL, Some b, Some (93 + msg_payload_len m))"
  using assms by (simp add: bc_message_serialize_def)

lemma serialize_ok:
  assumes wf: "message_wf m" and fit: "93 + msg_payload_len m < 2 ^ 64"
    and n: "93 + msg_payload_len m \<le> n" and b: "n \<le> length b"
  shows "bc_message_serialize (Some m) (Some b) n (Some l) =
    Some (BC_OK, Some (wire m @ drop (93 + msg_payload_len m) b), Some (93 + msg_payload_len m))"
proof -
  have len: "length (msg_uuid m) = 16" "length (msg_sender_pubkey m) = 32"
    "length (msg_receiver_pubkey m) = 32" "93 + msg_payload_len m \<le> length b"
    using assms by (simp_all add: message_wf_def size_defs)
  show ?thesis
  proof (cases "msg_payload m")
    case None
    then have "msg_payload_len m = 0" "payload_bytes m = []"
      using wf by (simp_all add: message_wf_def payload_bytes_def)
    with len n show ?thesis
      by (simp add: bc_message_serialize_def BC_UUID_SIZE_def BC_PUBKEY_SIZE_def mem_simps
        Let_def del: append_assoc) (simp add: wire_def)
  next
    case (Some p)
    then have "msg_payload_len m = length p" "payload_bytes m = p" "0 < length p"
      using wf by (simp_all add: message_wf_def payload_bytes_def)
    with len n fit Some show ?thesis
      by (simp add: bc_message_serialize_def BC_UUID_SIZE_def BC_PUBKEY_SIZE_def mem_simps
        Let_def del: append_assoc) (simp add: wire_def)
  qed
qed


section \<open>Deserialisation inverts it\<close>

text \<open>The length field and the message a buffer encodes, read at their documented offsets.\<close>

definition wire_plen :: "bytes \<Rightarrow> nat" where
  "wire_plen d = unat (read_u32_be (take 4 (drop 89 d)))"

definition decode :: "bytes \<Rightarrow> bc_message" where
  "decode d = \<lparr>msg_uuid = take 16 d, msg_ttl = d ! 16, msg_sender_pubkey = take 32 (drop 17 d),
     msg_receiver_pubkey = take 32 (drop 49 d), msg_timestamp = read_u64_be (take 8 (drop 81 d)),
     msg_payload = (if wire_plen d = 0 then None else Some (take (wire_plen d) (drop 93 d))),
     msg_payload_len = wire_plen d\<rparr>"

lemma wire_plen_bound: "wire_plen d < 2 ^ 32"
  using unsigned_less [of "read_u32_be (take 4 (drop 89 d))", where 'a = nat]
  by (simp add: wire_plen_def)

lemma length_check_32: "unat (93 + read_u32_be (take 4 (drop 89 d))) = (93 + wire_plen d) mod 2 ^ 32"
  by (simp add: unat_word_ariths wire_plen_def)

lemma deserialize_short:
  "n < 93 \<Longrightarrow> bc_message_deserialize data n w = Some (None, w)"
  by (simp add: bc_message_deserialize_def split: option.split)

lemma deserialize_eq:
  assumes "93 \<le> n" "n \<le> length d"
  shows "bc_message_deserialize (Some d) n w =
    (if n < (93 + wire_plen d) mod 2 ^ 32 then Some (None, w)
     else let (ok, w1) = c_malloc sizeof_message w in
       if \<not> ok then Some (None, w1)
       else if wire_plen d = 0 then Some (Some (decode d), w1)
       else let (ok, w2) = c_malloc (wire_plen d) w1 in
         if \<not> ok then Some (None, c_free w2)
         else if 93 + wire_plen d \<le> length d then Some (Some (decode d), w2)
         else None)"
proof -
  have gt0: "0 < read_u32_be (take 4 (drop 89 d)) \<longleftrightarrow> wire_plen d \<noteq> 0"
    by (simp add: wire_plen_def word_greater_zero_iff unat_eq_zero)
  show ?thesis
    using assms
    by (auto simp: bc_message_deserialize_def BC_UUID_SIZE_def BC_PUBKEY_SIZE_def mem_simps
      length_check_32 gt0 decode_def mem_read_def Let_def split: prod.split
      simp flip: wire_plen_def)
qed

lemma decode_wf: "93 + wire_plen d \<le> length d \<Longrightarrow> message_wf (decode d)"
  by (simp add: message_wf_def decode_def size_defs)

lemma wire_decode:
  assumes "93 + wire_plen d \<le> length d"
  shows "wire (decode d) = take (93 + wire_plen d) d"
proof -
  have *: "93 + wire_plen d = 16 + (Suc 0 + (32 + (32 + (8 + (4 + wire_plen d)))))" by simp
  have "word_of_nat (wire_plen d) = read_u32_be (take 4 (drop 89 d))"
    by (simp add: wire_plen_def)
  with assms show ?thesis
    unfolding * take_add drop_drop
    by (simp add: wire_def decode_def payload_bytes_def take_1_drop)
qed

lemma wire_plen_wire:
  assumes "message_wf m" "msg_payload_len m < 2 ^ 32"
  shows "wire_plen (wire m @ rest) = msg_payload_len m"
proof -
  have "drop 89 (wire m @ rest) =
      write_u32_be (word_of_nat (msg_payload_len m)) @ payload_bytes m @ rest"
    using assms(1) by (simp add: wire_def message_wf_def size_defs)
  with assms(2) show ?thesis by (simp add: wire_plen_def unat_of_nat)
qed

lemma decode_wire:
  assumes wf: "message_wf m" and pl: "msg_payload_len m < 2 ^ 32"
  shows "decode (wire m @ rest) = m"
proof (rule message_eqI)
  have len: "length (msg_uuid m) = 16" "length (msg_sender_pubkey m) = 32"
    "length (msg_receiver_pubkey m) = 32" "length (payload_bytes m) = msg_payload_len m"
    using wf by (simp_all add: message_wf_def size_defs payload_bytes_length)
  note p = wire_plen_wire [OF wf pl]
  show "message_wf (decode (wire m @ rest))"
    using wire_length [OF wf] p by (intro decode_wf) simp
  have "drop 93 (wire m @ rest) = payload_bytes m @ rest"
    using len by (simp add: wire_def)
  then show "payload_bytes (decode (wire m @ rest)) = payload_bytes m"
    unfolding payload_bytes_def [of "decode _"] using len
    by (cases "msg_payload_len m = 0") (simp_all add: decode_def p)
qed (use assms wf in \<open>simp_all add: decode_def wire_def message_wf_def size_defs nth_append\<close>)


lemma deserialize_wire:
  assumes wf: "message_wf m" and pl: "93 + msg_payload_len m < 2 ^ 32"
    and n: "93 + msg_payload_len m \<le> n" "n \<le> length (wire m @ rest)"
    and heap: "\<And>k s. w_heap w k s"
  shows "\<exists>w'. bc_message_deserialize (Some (wire m @ rest)) n w = Some (Some m, w') \<and>
    w_live w' = w_live w + msg_blocks m \<and> w_trace w' = w_trace w"
proof -
  have p: "wire_plen (wire m @ rest) = msg_payload_len m" and d: "decode (wire m @ rest) = m"
    using wire_plen_wire [OF wf] decode_wire [OF wf] pl by simp_all
  have "msg_payload_len m = 0 \<longleftrightarrow> msg_payload m = None"
    using wf by (auto simp: message_wf_def split: option.splits)
  with n pl show ?thesis
    by (simp add: deserialize_eq [of n] p d c_malloc_def heap wire_length [OF wf] msg_blocks_def)
qed

text \<open>What a successful decoding returns, whatever the input.\<close>

lemma deserialize_Some:
  assumes "bc_message_deserialize (Some d) n w = Some (Some m, w')" and "n \<le> length d"
  shows "m = decode d \<and> 93 + wire_plen d \<le> length d \<and> 93 \<le> n \<and>
    w_live w' = w_live w + msg_blocks m \<and> w_trace w' = w_trace w \<and> w_clock w' = w_clock w \<and>
    w_ntime w' = w_ntime w \<and> ext w' = ext w \<and> oracles w' = oracles w"
proof -
  have n: "93 \<le> n" using assms(1) deserialize_short [of n "Some d" w] by (cases "n < 93") auto
  with assms show ?thesis
    by (auto simp: deserialize_eq [OF n assms(2)] c_malloc_def msg_blocks_def decode_def oracles_def
      split: if_splits)
qed

lemma deserialize_None:
  assumes "bc_message_deserialize data n w = Some (None, w')" and "\<And>d. data = Some d \<Longrightarrow> n \<le> length d"
  shows "w_live w' = w_live w \<and> w_trace w' = w_trace w \<and> ext w' = ext w"
proof (cases data)
  case None
  with assms(1) show ?thesis by (simp add: bc_message_deserialize_def)
next
  case (Some d)
  show ?thesis
  proof (cases "n < 93")
    case True
    with assms(1) show ?thesis by (simp add: deserialize_short)
  next
    case False
    then have "93 \<le> n" "n \<le> length d" using assms(2) Some by auto
    from assms(1) show ?thesis
      unfolding Some deserialize_eq [OF \<open>93 \<le> n\<close> \<open>n \<le> length d\<close>]
      by (auto simp: c_malloc_def split: if_splits)
  qed
qed

lemma destroy_frame [simp]:
  "w_live (bc_message_destroy (Some m) w) = w_live w - msg_blocks m"
  "w_trace (bc_message_destroy msg w) = w_trace w"
  "w_clock (bc_message_destroy msg w) = w_clock w"
  "w_ntime (bc_message_destroy msg w) = w_ntime w" "ext (bc_message_destroy msg w) = ext w"
  "oracles (bc_message_destroy msg w) = oracles w" "bc_message_destroy None w = w"
  by (auto simp: bc_message_destroy_def msg_blocks_def split: option.split)


section \<open>Creation\<close>

lemma create_null:
  "s = None \<or> r = None \<Longrightarrow> bc_message_create s r p n w = Some (None, w)"
  by (auto simp: bc_message_create_def split: option.split)

text \<open>
  A creation from 32-byte keys and a readable payload never faults. Either it returns a
  well-formed message with the default hop limit, owning its blocks, or it returns \<open>NULL\<close> and
  owns nothing.
\<close>

lemma create_cases:
  assumes "length s = 32" "length r = 32" "n \<le> length p"
  obtains (nomem) w' where "bc_message_create (Some s) (Some r) (Some p) n w = Some (None, w')"
      "w_live w' = w_live w" "w_trace w' = w_trace w" "ext w' = ext w"
  | (ok) m w' where "bc_message_create (Some s) (Some r) (Some p) n w = Some (Some m, w')"
      "message_wf m" "msg_ttl m = BC_DEFAULT_TTL" "msg_sender_pubkey m = s"
      "msg_receiver_pubkey m = r" "payload_bytes m = take n p" "msg_payload_len m = n"
      "msg_timestamp m = w_clock w (w_ntime w)"
      "w_live w' = w_live w + msg_blocks m" "w_trace w' = w_trace w" "ext w' = ext w"
proof -
  let ?R = "bc_message_create (Some s) (Some r) (Some p) n w"
  have "(\<exists>w'. ?R = Some (None, w') \<and> w_live w' = w_live w \<and> w_trace w' = w_trace w \<and> ext w' = ext w) \<or>
    (\<exists>m w'. ?R = Some (Some m, w') \<and> message_wf m \<and> msg_ttl m = BC_DEFAULT_TTL \<and>
       msg_sender_pubkey m = s \<and> msg_receiver_pubkey m = r \<and> payload_bytes m = take n p \<and>
       msg_payload_len m = n \<and> msg_timestamp m = w_clock w (w_ntime w) \<and>
       w_live w' = w_live w + msg_blocks m \<and> w_trace w' = w_trace w \<and> ext w' = ext w)"
    using assms
    by (cases "w_heap w (w_nalloc w) sizeof_message"; cases "w_heap w (Suc (w_nalloc w)) n"; cases "n = 0")
      (simp_all add: bc_message_create_def c_malloc_def c_free_def c_time_def randombytes_buf_def
        mem_simps Let_def message_wf_def msg_blocks_def payload_bytes_def size_defs)
  then show ?thesis using nomem ok by blast
qed

lemma create_spec:
  assumes "length s = 32" "length r = 32" "n \<le> length p" "0 < n"
  obtains (nomem) w' where "bc_message_create (Some s) (Some r) (Some p) n w = Some (None, w')"
      "w_live w' = w_live w" "w_trace w' = w_trace w" "ext w' = ext w" "oracles w' = oracles w" "\<exists>k s. \<not> w_heap w k s"
  | (ok) m w' where "bc_message_create (Some s) (Some r) (Some p) n w = Some (Some m, w')"
      "message_wf m" "msg_ttl m = BC_DEFAULT_TTL" "msg_sender_pubkey m = s" "msg_receiver_pubkey m = r"
      "msg_payload m = Some (take n p)" "msg_payload_len m = n" "w_live w' = w_live w + msg_blocks m"
      "w_trace w' = w_trace w" "ext w' = ext w" "oracles w' = oracles w"
proof -
  let ?R = "bc_message_create (Some s) (Some r) (Some p) n w"
  have "(\<exists>w'. ?R = Some (None, w') \<and> w_live w' = w_live w \<and> w_trace w' = w_trace w \<and> ext w' = ext w \<and>
      oracles w' = oracles w \<and> (\<exists>k s. \<not> w_heap w k s)) \<or>
    (\<exists>m w'. ?R = Some (Some m, w') \<and> message_wf m \<and>
      msg_ttl m = BC_DEFAULT_TTL \<and> msg_sender_pubkey m = s \<and> msg_receiver_pubkey m = r \<and>
      msg_payload m = Some (take n p) \<and> msg_payload_len m = n \<and> w_live w' = w_live w + msg_blocks m \<and>
      w_trace w' = w_trace w \<and> ext w' = ext w \<and> oracles w' = oracles w)"
    using assms
    by (cases "w_heap w (w_nalloc w) sizeof_message"; cases "w_heap w (Suc (w_nalloc w)) n")
      (auto simp: bc_message_create_def c_malloc_def c_free_def c_time_def randombytes_buf_def oracles_def
        mem_simps Let_def message_wf_def msg_blocks_def size_defs)
  then show ?thesis using nomem ok by blast
qed

section \<open>Properties\<close>

text \<open>C9. Round trip: serialising a well-formed message into a buffer that is large enough
  succeeds and deserialising the bytes written gives the same message back, for every payload
  whose size plus header is below \<open>2^32\<close>, when memory is available.\<close>

theorem message_roundtrip:
  assumes "message_wf m" and "93 + msg_payload_len m < 2 ^ 32"
    and "93 + msg_payload_len m \<le> n" and "n \<le> length b" and "\<forall>k s. w_heap w k s"
  shows "\<exists>b' w'. bc_message_serialize (Some m) (Some b) n (Some l)
        = Some (BC_OK, Some b', Some (93 + msg_payload_len m)) \<and>
      bc_message_deserialize (Some b') (93 + msg_payload_len m) w = Some (Some m, w')"
proof -
  let ?rest = "drop (93 + msg_payload_len m) b"
  have "bc_message_serialize (Some m) (Some b) n (Some l)
      = Some (BC_OK, Some (wire m @ ?rest), Some (93 + msg_payload_len m))"
    using assms by (intro serialize_ok) auto
  moreover have "\<exists>w'. bc_message_deserialize (Some (wire m @ ?rest)) (93 + msg_payload_len m) w
      = Some (Some m, w')"
    using deserialize_wire [OF assms(1,2) order.refl, of ?rest w] assms
    by (auto simp: wire_length)
  ultimately show ?thesis by blast
qed

definition sample_msg :: bc_message where
  "sample_msg = \<lparr>msg_uuid = replicate 16 7, msg_ttl = 3, msg_sender_pubkey = replicate 32 1,
     msg_receiver_pubkey = replicate 32 2, msg_timestamp = 1700000000,
     msg_payload = Some [104, 105], msg_payload_len = 2\<rparr>"

lemma sample_msg_wf [simp]:
  "message_wf sample_msg" "msg_payload_len sample_msg = 2" "msg_blocks sample_msg = 2"
  by (simp_all add: sample_msg_def message_wf_def msg_blocks_def size_defs)

theorem message_roundtrip_witness:
  "\<exists>b' w'. bc_message_serialize (Some sample_msg) (Some (replicate 100 0)) 100 (Some 0)
        = Some (BC_OK, Some b', Some 95) \<and>
      bc_message_deserialize (Some b') 95 (calm 0) = Some (Some sample_msg, w')"
  using message_roundtrip [of sample_msg 100 "replicate 100 0" "calm 0" 0] by simp

text \<open>C21. Decoding is faithful to the bytes: whatever buffer is decoded, a message that comes out
  is well-formed, and its wire encoding is exactly the prefix of the buffer it was read from.\<close>

theorem deserialize_sound:
  assumes "bc_message_deserialize (Some d) n w = Some (Some m, w')" and "n \<le> length d"
  shows "message_wf m \<and> wire m = take (93 + msg_payload_len m) d \<and>
    93 + msg_payload_len m \<le> length d"
proof -
  have m: "m = decode d" "93 + wire_plen d \<le> length d"
    using deserialize_Some [OF assms] by simp_all
  then have "msg_payload_len m = wire_plen d" by (simp add: decode_def)
  with m show ?thesis by (simp add: decode_wf wire_decode)
qed

theorem deserialize_sound_witness:
  "\<exists>m w'. bc_message_deserialize (Some (wire sample_msg)) 95 (calm 0) = Some (Some m, w') \<and>
     message_wf m \<and> wire m = take (93 + msg_payload_len m) (wire sample_msg)"
proof -
  obtain w' where w': "bc_message_deserialize (Some (wire sample_msg)) 95 (calm 0)
      = Some (Some sample_msg, w')"
    using deserialize_wire [of sample_msg 95 "[]" "calm 0"] by (auto simp: wire_length)
  then show ?thesis
    using deserialize_sound [OF w'] by (auto simp: wire_length)
qed

text \<open>C22. Memory safety of decoding, exactly: on a buffer of at least \<open>data_len\<close> bytes,
  \<open>bc_message_deserialize\<close> reads outside the buffer if and only if the length field is within 93
  of \<open>2^32\<close> (so that the 32-bit sum of the length check wraps below the header size), the buffer
  is shorter than header plus payload, and both allocations succeed.\<close>

theorem deserialize_fault_iff:
  assumes "n \<le> length d"
  shows "bc_message_deserialize (Some d) n w = None \<longleftrightarrow>
    93 \<le> n \<and> 2 ^ 32 - 93 \<le> wire_plen d \<and> length d < 93 + wire_plen d \<and>
    w_heap w (w_nalloc w) sizeof_message \<and> w_heap w (Suc (w_nalloc w)) (wire_plen d)"
proof (cases "n < 93")
  case True
  then show ?thesis by (simp add: deserialize_short)
next
  case False
  show ?thesis
  proof (cases "93 + wire_plen d < 2 ^ 32")
    case True
    with False assms show ?thesis by (auto simp: deserialize_eq c_malloc_def)
  next
    case wrap: False
    then have "(93 + wire_plen d) mod 2 ^ 32 < 93"
      using wire_plen_bound [of d] by (simp add: le_mod_geq)
    with False wrap assms show ?thesis by (auto simp: deserialize_eq c_malloc_def)
  qed
qed

text \<open>The packet: 89 arbitrary bytes and a length field of \<open>2^32 - 1\<close>.\<close>

theorem deserialize_fault_iff_witness:
  "bc_message_deserialize (Some (replicate 89 0 @ [255, 255, 255, 255])) 93 (calm 0) = None"
proof -
  have pl: "wire_plen (replicate 89 0 @ [255, 255, 255, 255]) = 4294967295"
    by (simp add: wire_plen_def read_u32_be_def)
  show ?thesis
    using deserialize_fault_iff [of 93 "replicate 89 0 @ [255, 255, 255, 255]" "calm 0"] pl
    by simp
qed

text \<open>No leak around messages: creating or decoding a message and then destroying it leaves the
  number of live heap blocks as it was, and a decoding that fails leaves it as it was too.\<close>

lemma message_heap_balance:
  assumes "n \<le> length d" and "bc_message_deserialize (Some d) n w = Some (mo, w')"
  shows "w_live (bc_message_destroy mo w') = w_live w"
proof (cases mo)
  case None
  then show ?thesis using deserialize_None [of "Some d" n w w'] assms by simp
next
  case (Some m)
  then show ?thesis using deserialize_Some [of d n w m w'] assms by simp
qed

end
