(* ===== verification/Dedup.thy ===== *)
theory Dedup
  imports Message
begin

text \<open>
  The deduplication cache of the mesh router (\<^verbatim>\<open>src/usecase/mesh_router.c\<close>, lines 14 to 100): an
  open-addressed hash table of recently seen message identifiers with linear probing. The table,
  its capacity and the maximum age are the fields \<open>dedup_table\<close>, \<open>dedup_cap\<close> and
  \<open>config.dedup_max_age\<close> of the router, passed here as arguments. The loops keep the index of the
  source; the lemmas give each loop its meaning over the probe sequence.
\<close>

record bc_dedup_entry =
  de_uuid :: bytes
  de_seen_at :: u64
  de_occupied :: bool

type_synonym dedup_table = "bc_dedup_entry list"

definition entry_zero :: bc_dedup_entry where
  "entry_zero = \<lparr>de_uuid = replicate BC_UUID_SIZE 0, de_seen_at = 0, de_occupied = False\<rparr>"

section \<open>Operations\<close>

text \<open>FNV-1a; the remainder by a zero capacity is a fault.\<close>

definition fnv1a :: "bytes \<Rightarrow> u32" where
  "fnv1a u = fold (\<lambda>b h. (h XOR ucast b) * 16777619) u 2166136261"

definition dedup_hash :: "bytes \<Rightarrow> nat \<Rightarrow> nat option" where
  "dedup_hash uuid cap =
     do {
       u \<leftarrow> mem_read uuid 0 BC_UUID_SIZE;
       (if cap = 0 then None else Some (unat (fnv1a u) mod cap))
     }"

function dedup_contains_from :: "dedup_table \<Rightarrow> nat \<Rightarrow> nat \<Rightarrow> bytes \<Rightarrow> nat \<Rightarrow> bool option" where
  "dedup_contains_from tab cap idx uuid i =
     (if i < cap then
        do {
          e \<leftarrow> mem_get tab ((idx + i) mod cap);
          (if \<not> de_occupied e then Some False
           else if memeq BC_UUID_SIZE (de_uuid e) uuid then Some True
           else dedup_contains_from tab cap idx uuid (Suc i))
        }
      else Some False)"
  by pat_completeness auto
termination
  by (relation "measure (\<lambda>(tab, cap, idx, uuid, i). cap - i)") auto

definition dedup_contains :: "dedup_table \<Rightarrow> nat \<Rightarrow> bytes \<Rightarrow> bool option" where
  "dedup_contains tab cap uuid =
     do { idx \<leftarrow> dedup_hash uuid cap; dedup_contains_from tab cap idx uuid 0 }"

function dedup_insert_from ::
  "dedup_table \<Rightarrow> nat \<Rightarrow> u64 \<Rightarrow> nat \<Rightarrow> bytes \<Rightarrow> u64 \<Rightarrow> nat \<Rightarrow> dedup_table option" where
  "dedup_insert_from tab cap max_age idx u now i =
     (if i < cap then
        do {
          let slot = (idx + i) mod cap;
          e \<leftarrow> mem_get tab slot;
          (if \<not> de_occupied e then
             mem_set tab slot (e\<lparr>de_uuid := u, de_seen_at := now, de_occupied := True\<rparr>)
           else if now - de_seen_at e > max_age then
             mem_set tab slot (e\<lparr>de_uuid := u, de_seen_at := now\<rparr>)
           else dedup_insert_from tab cap max_age idx u now (Suc i))
        }
      else
        do {
          let slot = idx mod cap;
          e \<leftarrow> mem_get tab slot;
          mem_set tab slot (e\<lparr>de_uuid := u, de_seen_at := now\<rparr>)
        })"
  by pat_completeness auto
termination
  by (relation "measure (\<lambda>(tab, cap, max_age, idx, u, now, i). cap - i)") auto

definition dedup_insert ::
  "dedup_table \<Rightarrow> nat \<Rightarrow> u64 \<Rightarrow> bytes \<Rightarrow> 'a world_scheme \<Rightarrow> (dedup_table \<times> 'a world_scheme) option" where
  "dedup_insert tab cap max_age uuid w =
     do {
       idx \<leftarrow> dedup_hash uuid cap;
       let (now, w) = c_time w;
       u \<leftarrow> mem_read uuid 0 BC_UUID_SIZE;
       tab \<leftarrow> dedup_insert_from tab cap max_age idx u now 0;
       Some (tab, w)
     }"

function dedup_evict_from :: "dedup_table \<Rightarrow> nat \<Rightarrow> u64 \<Rightarrow> u64 \<Rightarrow> nat \<Rightarrow> dedup_table option" where
  "dedup_evict_from tab cap max_age now i =
     (if i < cap then
        do {
          e \<leftarrow> mem_get tab i;
          tab \<leftarrow> (if de_occupied e \<and> now - de_seen_at e > max_age
                 then mem_set tab i (e\<lparr>de_occupied := False\<rparr>) else Some tab);
          dedup_evict_from tab cap max_age now (Suc i)
        }
      else Some tab)"
  by pat_completeness auto
termination
  by (relation "measure (\<lambda>(tab, cap, max_age, now, i). cap - i)") auto

definition dedup_evict ::
  "dedup_table \<Rightarrow> nat \<Rightarrow> u64 \<Rightarrow> 'a world_scheme \<Rightarrow> (dedup_table \<times> 'a world_scheme) option" where
  "dedup_evict tab cap max_age w =
     (let (now, w) = c_time w in
      do { tab \<leftarrow> dedup_evict_from tab cap max_age now 0; Some (tab, w) })"

declare dedup_contains_from.simps [simp del] dedup_insert_from.simps [simp del]
  dedup_evict_from.simps [simp del]

section \<open>Well-formed tables and the probe sequence\<close>

definition dedup_wf :: "dedup_table \<Rightarrow> nat \<Rightarrow> bool" where
  "dedup_wf tab cap \<longleftrightarrow>
     0 < cap \<and> length tab = cap \<and> (\<forall>e\<in>set tab. length (de_uuid e) = BC_UUID_SIZE)"

definition home :: "bytes \<Rightarrow> nat \<Rightarrow> nat" where
  "home u cap = unat (fnv1a u) mod cap"

definition probe :: "dedup_table \<Rightarrow> nat \<Rightarrow> nat \<Rightarrow> bc_dedup_entry" where
  "probe tab idx i = tab ! ((idx + i) mod length tab)"

definition stale :: "u64 \<Rightarrow> u64 \<Rightarrow> bc_dedup_entry \<Rightarrow> bool" where
  "stale now max_age e \<longleftrightarrow> \<not> de_occupied e \<or> now - de_seen_at e > max_age"

definition fresh_entry :: "bytes \<Rightarrow> u64 \<Rightarrow> bc_dedup_entry" where
  "fresh_entry u now = \<lparr>de_uuid = u, de_seen_at = now, de_occupied = True\<rparr>"

lemma entry_sel [simp]:
  "de_uuid (fresh_entry u now) = u" "de_seen_at (fresh_entry u now) = now"
  "de_occupied (fresh_entry u now)" "\<not> de_occupied entry_zero" "de_uuid entry_zero = replicate 16 0"
  by (simp_all add: fresh_entry_def entry_zero_def BC_UUID_SIZE_def)

lemma dedup_hash_ok: "length u = 16 \<Longrightarrow> 0 < cap \<Longrightarrow> dedup_hash u cap = Some (home u cap)"
  by (simp add: dedup_hash_def home_def BC_UUID_SIZE_def mem_simps)

lemma home_less: "0 < cap \<Longrightarrow> home u cap < cap"
  by (simp add: home_def)

lemma dedup_wf_uuid: "dedup_wf tab cap \<Longrightarrow> i < cap \<Longrightarrow> length (de_uuid (tab ! i)) = 16"
  by (auto simp: dedup_wf_def BC_UUID_SIZE_def)

lemma mem_get_probe:
  "dedup_wf tab cap \<Longrightarrow> mem_get tab ((idx + i) mod cap) = Some (probe tab idx i)"
  by (simp add: dedup_wf_def probe_def mem_get_def)

lemma probe_uuid: "dedup_wf tab cap \<Longrightarrow> length (de_uuid (probe tab idx i)) = 16"
  unfolding probe_def by (rule dedup_wf_uuid [of tab cap]) (auto simp: dedup_wf_def)

text \<open>Distinct steps of a probe sequence meet distinct slots.\<close>

lemma probe_slot_less:
  assumes "i < j" "j < cap"
  shows "(idx + i) mod cap \<noteq> (idx + j) mod (cap :: nat)"
proof
  assume "(idx + i) mod cap = (idx + j) mod cap"
  then have "cap dvd (idx + j) - (idx + i)"
    using assms by (intro mod_eq_dvd_iff_nat [THEN iffD1]) auto
  then show False using assms by (auto dest: dvd_imp_le)
qed

lemma probe_slot_inj:
  "(idx + i) mod cap = (idx + j) mod cap \<Longrightarrow> i < cap \<Longrightarrow> j < cap \<Longrightarrow> i = (j :: nat)"
  by (metis linorder_neqE_nat probe_slot_less)

lemma probe_surj:
  assumes "s < cap" "idx < cap"
  obtains i where "i < cap" "s = (idx + i) mod (cap :: nat)"
proof
  let ?i = "(s + cap - idx) mod cap"
  show "?i < cap" using assms by simp
  have "(idx + ?i) mod cap = (idx + (s + cap - idx)) mod cap" by (simp add: mod_add_right_eq)
  also have "idx + (s + cap - idx) = s + cap" using assms by simp
  finally show "s = (idx + ?i) mod cap" using assms by simp
qed

lemma probe_update:
  assumes "dedup_wf tab cap" "i < cap" "j < cap"
  shows "probe (tab[(idx + j) mod cap := e]) idx i = (if i = j then e else probe tab idx i)"
  using assms probe_slot_inj [of idx i cap j] by (auto simp: probe_def dedup_wf_def nth_list_update)

section \<open>What the loops compute\<close>

lemma contains_from_iff:
  assumes "dedup_wf tab cap" "length u = 16"
  shows "dedup_contains_from tab cap idx u i = Some (\<exists>j<cap. i \<le> j \<and>
    de_occupied (probe tab idx j) \<and> de_uuid (probe tab idx j) = u \<and>
    (\<forall>k<j. i \<le> k \<longrightarrow> de_occupied (probe tab idx k)))"
  using assms
proof (induction tab cap idx u i rule: dedup_contains_from.induct)
  case (1 tab cap idx u i)
  note wf = "1.prems"(1)
  have eq: "memeq BC_UUID_SIZE (de_uuid (probe tab idx i)) u \<longleftrightarrow> de_uuid (probe tab idx i) = u"
    using probe_uuid [OF wf] "1.prems"(2) by (simp add: BC_UUID_SIZE_def)
  show ?case
  proof (cases "i < cap \<and> de_occupied (probe tab idx i) \<and> de_uuid (probe tab idx i) \<noteq> u")
    case True
    then have "dedup_contains_from tab cap idx u i = dedup_contains_from tab cap idx u (Suc i)"
      by (subst dedup_contains_from.simps) (simp add: mem_get_probe [OF wf] eq)
    also have "\<dots> = Some (\<exists>j<cap. Suc i \<le> j \<and> de_occupied (probe tab idx j) \<and>
        de_uuid (probe tab idx j) = u \<and> (\<forall>k<j. Suc i \<le> k \<longrightarrow> de_occupied (probe tab idx k)))"
      using True "1.prems" by (intro "1.IH") (auto simp: mem_get_probe [OF wf] eq)
    also have "\<dots> = Some (\<exists>j<cap. i \<le> j \<and> de_occupied (probe tab idx j) \<and>
        de_uuid (probe tab idx j) = u \<and> (\<forall>k<j. i \<le> k \<longrightarrow> de_occupied (probe tab idx k)))"
      using True by (metis (no_types, lifting) Suc_leD not_less_eq_eq le_antisym)
    finally show ?thesis .
  next
    case False
    then consider "cap \<le> i" | "i < cap" "\<not> de_occupied (probe tab idx i)"
      | "i < cap" "de_occupied (probe tab idx i)" "de_uuid (probe tab idx i) = u"
      by fastforce
    then show ?thesis
    proof cases
      case 2
      then have "\<not> (\<exists>j<cap. i \<le> j \<and> de_occupied (probe tab idx j) \<and>
          (\<forall>k<j. i \<le> k \<longrightarrow> de_occupied (probe tab idx k)))"
        by (metis le_neq_implies_less order.refl)
      with 2 show ?thesis
        by (subst dedup_contains_from.simps) (auto simp: mem_get_probe [OF wf])
    qed (subst dedup_contains_from.simps; auto simp: mem_get_probe [OF wf] eq)+
  qed
qed


lemma entry_overwrite:
  "e\<lparr>de_uuid := u, de_seen_at := now, de_occupied := True\<rparr> = fresh_entry u now"
  "de_occupied e \<Longrightarrow> e\<lparr>de_uuid := u, de_seen_at := now\<rparr> = fresh_entry u now"
  by (simp_all add: fresh_entry_def)

lemma entry_unoccupied: "\<not> de_occupied e \<Longrightarrow> e\<lparr>de_occupied := False\<rparr> = e"
  by simp

text \<open>
  An insertion writes the first stale slot of the probe sequence, or the home slot when every slot
  holds a fresh entry.
\<close>

definition insert_at :: "dedup_table \<Rightarrow> nat \<Rightarrow> u64 \<Rightarrow> nat \<Rightarrow> u64 \<Rightarrow> nat \<Rightarrow> bool" where
  "insert_at tab cap max_age idx now j \<longleftrightarrow>
     j < cap \<and> (\<forall>k<j. \<not> stale now max_age (probe tab idx k)) \<and>
     (stale now max_age (probe tab idx j) \<or>
      j = 0 \<and> (\<forall>k<cap. \<not> stale now max_age (probe tab idx k)))"

lemma insert_from_spec:
  assumes "dedup_wf tab cap" "i \<le> cap" "\<forall>k<i. \<not> stale now max_age (probe tab idx k)"
  shows "\<exists>j. insert_at tab cap max_age idx now j \<and>
    dedup_insert_from tab cap max_age idx u now i = Some (tab[(idx + j) mod cap := fresh_entry u now])"
  using assms
proof (induction tab cap max_age idx u now i rule: dedup_insert_from.induct)
  case (1 tab cap max_age idx u now i)
  note wf = "1.prems"(1)
  have len: "length tab = cap" "0 < cap" using wf by (simp_all add: dedup_wf_def)
  show ?case
  proof (cases "i < cap \<and> \<not> stale now max_age (probe tab idx i)")
    case True
    then have "dedup_insert_from tab cap max_age idx u now i
        = dedup_insert_from tab cap max_age idx u now (Suc i)"
      by (subst dedup_insert_from.simps) (simp add: mem_get_probe [OF wf] stale_def Let_def)
    moreover have "\<exists>j. insert_at tab cap max_age idx now j \<and>
        dedup_insert_from tab cap max_age idx u now (Suc i)
          = Some (tab[(idx + j) mod cap := fresh_entry u now])"
      using True "1.prems"
      by (intro "1.IH") (auto simp: mem_get_probe [OF wf] stale_def less_Suc_eq)
    ultimately show ?thesis by simp
  next
    case False
    show ?thesis
    proof (cases "i < cap")
      case True
      with False have "insert_at tab cap max_age idx now i"
        using "1.prems"(3) by (simp add: insert_at_def)
      with True False show ?thesis
        by (subst dedup_insert_from.simps)
          (auto simp: mem_get_probe [OF wf] stale_def mem_set_def len entry_overwrite Let_def)
    next
      case full: False
      then have all: "\<forall>k<cap. \<not> stale now max_age (probe tab idx k)" using "1.prems" by simp
      then have "insert_at tab cap max_age idx now 0" by (simp add: insert_at_def len)
      moreover have "de_occupied (probe tab idx 0)" using all len by (simp add: stale_def)
      ultimately show ?thesis
        using full mem_get_probe [OF wf, of idx 0]
        by (subst dedup_insert_from.simps)
          (auto simp: mem_set_def len entry_overwrite Let_def intro!: exI [of _ 0])
    qed
  qed
qed

lemma insert_at_occupied:
  "insert_at tab cap max_age idx now j \<Longrightarrow> k < j \<Longrightarrow> de_occupied (probe tab idx k)"
  by (auto simp: insert_at_def stale_def)

lemma dedup_insert_spec:
  assumes "dedup_wf tab cap" "length u = 16"
  obtains j where "insert_at tab cap max_age (home u cap) (w_clock w (w_ntime w)) j"
    "dedup_insert tab cap max_age u w =
      Some (tab[(home u cap + j) mod cap := fresh_entry u (w_clock w (w_ntime w))], snd (c_time w))"
proof -
  have cap: "0 < cap" using assms by (simp add: dedup_wf_def)
  obtain j where "insert_at tab cap max_age (home u cap) (w_clock w (w_ntime w)) j"
    "dedup_insert_from tab cap max_age (home u cap) u (w_clock w (w_ntime w)) 0
      = Some (tab[(home u cap + j) mod cap := fresh_entry u (w_clock w (w_ntime w))])"
    using insert_from_spec [OF assms(1), of 0 "w_clock w (w_ntime w)" max_age "home u cap" u] by auto
  then show ?thesis
    by (intro that [of j])
      (simp_all add: dedup_insert_def dedup_hash_ok assms cap c_time_def mem_simps BC_UUID_SIZE_def)
qed

lemma evict_from_map:
  assumes "length tab = cap" "i \<le> cap"
  shows "dedup_evict_from tab cap max_age now i = Some (take i tab @
    map (\<lambda>e. if stale now max_age e then e\<lparr>de_occupied := False\<rparr> else e) (drop i tab))"
  using assms
proof (induction tab cap max_age now i rule: dedup_evict_from.induct)
  case (1 tab cap max_age now i)
  let ?f = "\<lambda>e. if stale now max_age e then e\<lparr>de_occupied := False\<rparr> else e"
  show ?case
  proof (cases "i < cap")
    case True
    let ?t = "tab[i := ?f (tab ! i)]"
    have t: "?t = (if de_occupied (tab ! i) \<and> now - de_seen_at (tab ! i) > max_age
        then tab[i := (tab ! i)\<lparr>de_occupied := False\<rparr>] else tab)"
      by (auto simp: stale_def entry_unoccupied)
    have step: "dedup_evict_from tab cap max_age now i = dedup_evict_from ?t cap max_age now (Suc i)"
      using True "1.prems" unfolding t by (subst dedup_evict_from.simps) (simp add: mem_simps)
    have *: "dedup_evict_from ?t cap max_age now (Suc i)
        = Some (take (Suc i) ?t @ map ?f (drop (Suc i) ?t))"
      using True "1.prems" by (intro "1.IH") (auto simp: mem_simps t)
    have "take (Suc i) ?t = take i tab @ [?f (tab ! i)]"
      using True "1.prems" by (simp add: take_Suc_conv_app_nth)
    moreover have "drop i tab = tab ! i # drop (Suc i) tab"
      using True "1.prems" by (simp add: Cons_nth_drop_Suc)
    ultimately show ?thesis using step * by simp
  next
    case False
    with "1.prems" show ?thesis by (subst dedup_evict_from.simps) simp
  qed
qed

lemma dedup_evict_spec:
  assumes "dedup_wf tab cap"
  shows "dedup_evict tab cap max_age w =
    Some (map (\<lambda>e. if stale (w_clock w (w_ntime w)) max_age e then e\<lparr>de_occupied := False\<rparr> else e) tab,
      snd (c_time w))"
  using assms by (simp add: dedup_evict_def c_time_def evict_from_map dedup_wf_def)

lemma dedup_contains_spec:
  assumes "dedup_wf tab cap" "length u = 16"
  shows "dedup_contains tab cap u = Some (\<exists>j<cap. de_occupied (probe tab (home u cap) j) \<and>
    de_uuid (probe tab (home u cap) j) = u \<and> (\<forall>k<j. de_occupied (probe tab (home u cap) k)))"
proof -
  have "0 < cap" using assms by (simp add: dedup_wf_def)
  then show ?thesis by (simp add: dedup_contains_def dedup_hash_ok contains_from_iff assms)
qed


section \<open>Invariants\<close>

lemma dedup_insert_wf [wf_intros]:
  assumes "dedup_wf tab cap" "length u = 16" "dedup_insert tab cap max_age u w = Some (tab', w')"
  shows "dedup_wf tab' cap"
proof -
  from assms(1,2) obtain j where "dedup_insert tab cap max_age u w =
      Some (tab[(home u cap + j) mod cap := fresh_entry u (w_clock w (w_ntime w))], snd (c_time w))"
    by (rule dedup_insert_spec)
  with assms show ?thesis
    by (auto simp: dedup_wf_def fresh_entry_def BC_UUID_SIZE_def dest!: set_update_subset_insert [THEN subsetD])
qed

lemma dedup_evict_wf [wf_intros]:
  assumes "dedup_wf tab cap" "dedup_evict tab cap max_age w = Some (tab', w')"
  shows "dedup_wf tab' cap"
  using assms by (auto simp: dedup_evict_spec) (auto simp: dedup_wf_def)

lemma dedup_evict_total:
  assumes "dedup_wf tab cap"
  obtains tab' w' where "dedup_evict tab cap max_age w = Some (tab', w')" "dedup_wf tab' cap" "ext w' = ext w"
    "w_trace w' = w_trace w"
  using dedup_evict_spec [OF assms, of max_age w] dedup_evict_wf [OF assms, of max_age w]
  by (auto simp: c_time_frame)

lemma dedup_init_wf [wf_intros]: "0 < cap \<Longrightarrow> dedup_wf (replicate cap entry_zero) cap"
  by (auto simp: dedup_wf_def entry_zero_def)

text \<open>Total on well-formed tables, and only the clock is consulted.\<close>

lemma dedup_insert_total:
  assumes "dedup_wf tab cap" "length u = 16"
  obtains tab' where "dedup_insert tab cap max_age u w = Some (tab', snd (c_time w))"
    "dedup_wf tab' cap"
proof -
  from assms obtain j where "dedup_insert tab cap max_age u w =
      Some (tab[(home u cap + j) mod cap := fresh_entry u (w_clock w (w_ntime w))], snd (c_time w))"
    by (rule dedup_insert_spec)
  from this dedup_insert_wf [OF assms this] show ?thesis by (rule that)
qed

text \<open>
  The probe-chain invariant of linear probing: between the home slot of a stored identifier and
  the slot it is stored in, no slot is free.
\<close>

definition chained :: "dedup_table \<Rightarrow> nat \<Rightarrow> bool" where
  "chained tab cap \<longleftrightarrow> (\<forall>s<cap. de_occupied (tab ! s) \<longrightarrow>
     (\<exists>j<cap. s = (home (de_uuid (tab ! s)) cap + j) mod cap \<and>
        (\<forall>k<j. de_occupied (probe tab (home (de_uuid (tab ! s)) cap) k))))"

text \<open>The set of identifiers a table holds, and those whose entries are still fresh.\<close>

definition dedup_set :: "dedup_table \<Rightarrow> bytes set" where
  "dedup_set tab = de_uuid ` {e \<in> set tab. de_occupied e}"

definition fresh_set :: "u64 \<Rightarrow> u64 \<Rightarrow> dedup_table \<Rightarrow> bytes set" where
  "fresh_set now max_age tab = de_uuid ` {e \<in> set tab. \<not> stale now max_age e}"

lemma dedup_setI: "e \<in> set tab \<Longrightarrow> de_occupied e \<Longrightarrow> de_uuid e = u \<Longrightarrow> u \<in> dedup_set tab"
  by (auto simp: dedup_set_def)

lemma fresh_setI:
  "e \<in> set tab \<Longrightarrow> \<not> stale now max_age e \<Longrightarrow> de_uuid e = u \<Longrightarrow> u \<in> fresh_set now max_age tab"
  by (auto simp: fresh_set_def)

lemma fresh_subset: "fresh_set now max_age tab \<subseteq> dedup_set tab"
  by (auto simp: fresh_set_def dedup_set_def stale_def)

lemma chained_init: "chained (replicate cap entry_zero) cap"
  by (simp add: chained_def entry_zero_def)

lemma contains_imp_member:
  assumes "dedup_wf tab cap" "length u = 16" "dedup_contains tab cap u = Some True"
  shows "u \<in> dedup_set tab"
proof -
  from assms obtain j where "j < cap" "de_occupied (probe tab (home u cap) j)"
      "de_uuid (probe tab (home u cap) j) = u"
    by (auto simp: dedup_contains_spec)
  moreover have "probe tab (home u cap) j \<in> set tab"
    using assms(1) by (auto simp: probe_def dedup_wf_def)
  ultimately show ?thesis by (intro dedup_setI)
qed

lemma chained_member_contains:
  assumes "dedup_wf tab cap" "chained tab cap" "length u = 16" "u \<in> dedup_set tab"
  shows "dedup_contains tab cap u = Some True"
proof -
  from assms(4) obtain s where s: "s < length tab" "de_occupied (tab ! s)" "de_uuid (tab ! s) = u"
    by (auto simp: dedup_set_def in_set_conv_nth)
  moreover have "s < cap" using s assms(1) by (simp add: dedup_wf_def)
  ultimately obtain j where "j < cap" "s = (home u cap + j) mod cap"
      "\<forall>k<j. de_occupied (probe tab (home u cap) k)"
    using assms(2) [unfolded chained_def, rule_format, of s] by blast
  moreover from this assms(1) have "probe tab (home u cap) j = tab ! s"
    by (simp add: probe_def dedup_wf_def)
  ultimately show ?thesis
    unfolding dedup_contains_spec [OF assms(1,3)] using s by auto
qed

lemma insert_contains:
  assumes "dedup_wf tab cap" "length u = 16" "dedup_insert tab cap max_age u w = Some (tab', w')"
  shows "dedup_contains tab' cap u = Some True"
proof -
  let ?h = "home u cap"
  obtain j where j: "insert_at tab cap max_age ?h (w_clock w (w_ntime w)) j"
    and tab': "tab' = tab[(?h + j) mod cap := fresh_entry u (w_clock w (w_ntime w))]"
    using dedup_insert_spec [OF assms(1,2), of max_age w] assms(3) by auto
  have wf': "dedup_wf tab' cap" using assms by (rule dedup_insert_wf)
  have "j < cap" using j by (simp add: insert_at_def)
  moreover have "de_occupied (probe tab' ?h k)" if "k < j" for k
    using insert_at_occupied [OF j that] that \<open>j < cap\<close>
    by (simp add: tab' probe_update [OF assms(1)])
  ultimately show ?thesis
    unfolding dedup_contains_spec [OF wf' assms(2)]
    by (auto simp: tab' probe_update [OF assms(1)] fresh_entry_def intro!: exI [of _ j])
qed


lemma probe_occupied_update:
  "de_occupied (probe tab idx k) \<Longrightarrow> de_occupied (probe (tab[x := fresh_entry u now]) idx k)"
  by (cases "x < length tab") (auto simp: probe_def nth_list_update list_update_beyond fresh_entry_def)

lemma insert_chained:
  assumes wf: "dedup_wf tab cap" and ch: "chained tab cap" and u: "length u = 16"
    and ins: "dedup_insert tab cap max_age u w = Some (tab', w')"
  shows "chained tab' cap"
  unfolding chained_def
proof (intro allI impI)
  fix s assume s: "s < cap" "de_occupied (tab' ! s)"
  let ?now = "w_clock w (w_ntime w)"
  obtain j where j: "insert_at tab cap max_age (home u cap) ?now j"
    and tab': "tab' = tab[(home u cap + j) mod cap := fresh_entry u ?now]"
    using dedup_insert_spec [OF wf u, of max_age w] ins by auto
  have "j < cap" using j by (simp add: insert_at_def)
  show "\<exists>i<cap. s = (home (de_uuid (tab' ! s)) cap + i) mod cap \<and>
      (\<forall>k<i. de_occupied (probe tab' (home (de_uuid (tab' ! s)) cap) k))"
  proof (cases "s = (home u cap + j) mod cap")
    case True
    then have "de_uuid (tab' ! s) = u"
      using wf s by (simp add: tab' dedup_wf_def fresh_entry_def)
    then show ?thesis
      using True \<open>j < cap\<close> insert_at_occupied [OF j]
      by (auto simp: tab' intro!: probe_occupied_update)
  next
    case False
    then have old: "tab' ! s = tab ! s" by (simp add: tab')
    with s ch [unfolded chained_def, rule_format, of s] obtain i where
      "i < cap" "s = (home (de_uuid (tab ! s)) cap + i) mod cap"
      "\<forall>k<i. de_occupied (probe tab (home (de_uuid (tab ! s)) cap) k)"
      by auto
    then show ?thesis unfolding old by (auto simp: tab' intro: probe_occupied_update)
  qed
qed

lemma insert_set:
  assumes "dedup_wf tab cap" "length u = 16" "dedup_insert tab cap max_age u w = Some (tab', w')"
  shows "dedup_set tab' \<subseteq> insert u (dedup_set tab)"
proof -
  obtain j where "tab' = tab[(home u cap + j) mod cap := fresh_entry u (w_clock w (w_ntime w))]"
    using dedup_insert_spec [OF assms(1,2), of max_age w] assms(3) by auto
  then have "set tab' \<subseteq> insert (fresh_entry u (w_clock w (w_ntime w))) (set tab)"
    by (simp add: set_update_subset_insert)
  then show ?thesis by (auto simp: dedup_set_def fresh_entry_def)
qed

lemma stale_slot_exists:
  assumes "dedup_wf tab cap" "\<exists>e\<in>set tab. stale now max_age e" "idx < cap"
    "insert_at tab cap max_age idx now j"
  shows "stale now max_age (probe tab idx j)"
proof -
  from assms(1,2) obtain s where "s < cap" "stale now max_age (tab ! s)"
    by (auto simp: dedup_wf_def in_set_conv_nth)
  moreover from this(1) assms(3) obtain i where "i < cap" "s = (idx + i) mod cap"
    by (rule probe_surj)
  ultimately have "i < cap \<and> stale now max_age (probe tab idx i)"
    using assms(1) by (simp add: probe_def dedup_wf_def)
  with assms(4) show ?thesis by (auto simp: insert_at_def)
qed

lemma insert_keeps_fresh:
  assumes wf: "dedup_wf tab cap" and u: "length u = 16"
    and ins: "dedup_insert tab cap max_age u w = Some (tab', w')"
    and room: "\<exists>e\<in>set tab. stale (w_clock w (w_ntime w)) max_age e"
  shows "insert u (fresh_set (w_clock w (w_ntime w)) max_age tab)
    \<subseteq> fresh_set (w_clock w (w_ntime w)) max_age tab'"
proof -
  let ?now = "w_clock w (w_ntime w)" and ?h = "home u cap"
  have len: "length tab = cap" "0 < cap" using wf by (simp_all add: dedup_wf_def)
  obtain j where j: "insert_at tab cap max_age ?h ?now j"
    and tab': "tab' = tab[(?h + j) mod cap := fresh_entry u ?now]"
    using dedup_insert_spec [OF wf u, of max_age w] ins by auto
  let ?s = "(?h + j) mod cap"
  have "stale ?now max_age (tab ! ?s)"
    using stale_slot_exists [OF wf room home_less [OF len(2)] j] by (simp add: probe_def len)
  then have "e \<in> set tab'" if "e \<in> set tab" "\<not> stale ?now max_age e" for e
    using that len by (auto simp: tab' in_set_conv_nth nth_list_update)
  moreover have "fresh_entry u ?now \<in> set tab'" by (simp add: tab' set_update_memI len)
  moreover have "\<not> stale ?now max_age (fresh_entry u ?now)" by (simp add: stale_def fresh_entry_def)
  ultimately show ?thesis
    by (auto intro: fresh_setI entry_sel(1) simp: fresh_set_def [of _ _ tab])
qed

lemma evict_set:
  assumes "dedup_wf tab cap" "dedup_evict tab cap max_age w = Some (tab', w')"
  shows "dedup_set tab' = fresh_set (w_clock w (w_ntime w)) max_age tab"
  using assms by (auto simp: dedup_evict_spec dedup_set_def fresh_set_def stale_def image_iff)

lemma evict_contains_iff:
  assumes wf: "dedup_wf tab cap" and u: "length u = 16"
    and ev: "dedup_evict tab cap max_age w = Some (tab', w')"
  shows "dedup_contains tab' cap u = Some (\<exists>j<cap.
    de_uuid (probe tab (home u cap) j) = u \<and>
    (\<forall>k\<le>j. \<not> stale (w_clock w (w_ntime w)) max_age (probe tab (home u cap) k)))"
proof -
  let ?st = "stale (w_clock w (w_ntime w)) max_age"
  have tab': "tab' = map (\<lambda>e. if ?st e then e\<lparr>de_occupied := False\<rparr> else e) tab"
    using ev by (simp add: dedup_evict_spec [OF wf])
  have "0 < cap" "length tab = cap" using wf by (simp_all add: dedup_wf_def)
  then have "probe tab' idx k = (if ?st (probe tab idx k)
      then (probe tab idx k)\<lparr>de_occupied := False\<rparr> else probe tab idx k)" for idx k
    by (simp add: probe_def tab')
  then have "de_occupied (probe tab' idx k) \<longleftrightarrow> \<not> ?st (probe tab idx k)"
    "de_uuid (probe tab' idx k) = de_uuid (probe tab idx k)" for idx k
    by (simp_all add: stale_def)
  moreover have "(\<forall>k\<le>j. Q k) \<longleftrightarrow> Q j \<and> (\<forall>k<j. Q k)" for Q and j :: nat
    by (metis le_neq_implies_less less_or_eq_imp_le order.refl)
  ultimately show ?thesis
    unfolding dedup_contains_spec [OF dedup_evict_wf [OF wf ev] u] by auto
qed


section \<open>The cache as an interface\<close>

text \<open>
  What the router relies on: the operations are total on states that satisfy the invariant, they
  keep it, and an identifier is found right after it was inserted.
\<close>

locale seen_cache =
  fixes member :: "'s \<Rightarrow> 'u \<Rightarrow> bool option"
    and ins :: "'s \<Rightarrow> 'u \<Rightarrow> 'w \<Rightarrow> ('s \<times> 'w) option"
    and inv :: "'s \<Rightarrow> bool"
    and key :: "'u \<Rightarrow> bool"
  assumes member_total: "inv s \<Longrightarrow> key u \<Longrightarrow> \<exists>b. member s u = Some b"
    and ins_total: "inv s \<Longrightarrow> key u \<Longrightarrow> \<exists>s' w'. ins s u w = Some (s', w')"
    and ins_inv: "inv s \<Longrightarrow> key u \<Longrightarrow> ins s u w = Some (s', w') \<Longrightarrow> inv s'"
    and ins_member: "inv s \<Longrightarrow> key u \<Longrightarrow> ins s u w = Some (s', w') \<Longrightarrow> member s' u = Some True"
begin

text \<open>Check and mark: an unseen identifier is marked, and is a duplicate from then on.\<close>

lemma check_and_mark:
  assumes "inv s" "key u"
  obtains "member s u = Some True"
  | s' w' where "member s u = Some False" "ins s u w = Some (s', w')" "inv s'"
      "member s' u = Some True"
proof -
  obtain b where b: "member s u = Some b" using member_total [OF assms] ..
  obtain s' w' where i: "ins s u w = Some (s', w')" using ins_total [OF assms] by blast
  show ?thesis
    using b i ins_inv [OF assms i] ins_member [OF assms i] that by (cases b) auto
qed

end

text \<open>A cache whose membership test is exact for the set of elements it holds.\<close>

locale exact_cache = seen_cache member ins inv key
  for member :: "'s \<Rightarrow> 'u \<Rightarrow> bool option"
    and ins :: "'s \<Rightarrow> 'u \<Rightarrow> 'w \<Rightarrow> ('s \<times> 'w) option"
    and inv :: "'s \<Rightarrow> bool"
    and key :: "'u \<Rightarrow> bool" +
  fixes elems :: "'s \<Rightarrow> 'u set"
  assumes member_iff: "inv s \<Longrightarrow> key u \<Longrightarrow> member s u = Some (u \<in> elems s)"
    and ins_elems: "inv s \<Longrightarrow> key u \<Longrightarrow> ins s u w = Some (s', w') \<Longrightarrow> elems s' \<subseteq> insert u (elems s)"
begin

lemma ins_in: "inv s \<Longrightarrow> key u \<Longrightarrow> ins s u w = Some (s', w') \<Longrightarrow> u \<in> elems s'"
  using member_iff [OF ins_inv] ins_member by fastforce

text \<open>Nothing is found that was not there before or just inserted.\<close>

lemma no_false_positive:
  assumes "inv s" "key u" "key v" "ins s u w = Some (s', w')" "member s' v = Some True"
  shows "v = u \<or> member s v = Some True"
  using assms member_iff [OF ins_inv [OF assms(1,2,4)] assms(3)] ins_elems [OF assms(1,2,4)]
    member_iff [OF assms(1,3)] by auto

end

interpretation dc: seen_cache
  "\<lambda>tab. dedup_contains tab cap" "\<lambda>tab. dedup_insert tab cap max_age"
  "\<lambda>tab. dedup_wf tab cap" "\<lambda>u. length u = 16"
  for cap max_age
proof unfold_locales
  fix tab and u :: bytes and w :: "'a world_scheme"
  assume "dedup_wf tab cap" "length u = 16"
  then show "\<exists>s' w'. dedup_insert tab cap max_age u w = Some (s', w')"
    using dedup_insert_total by blast
qed (auto simp: dedup_contains_spec intro: wf_intros insert_contains)

text \<open>Between two evictions the cache is exact.\<close>

interpretation dx: exact_cache
  "\<lambda>tab. dedup_contains tab cap" "\<lambda>tab. dedup_insert tab cap max_age"
  "\<lambda>tab. dedup_wf tab cap \<and> chained tab cap" "\<lambda>u. length u = 16" dedup_set
  for cap max_age
proof unfold_locales
  fix tab and u :: bytes
  assume *: "dedup_wf tab cap \<and> chained tab cap" "length u = 16"
  then obtain b where "dedup_contains tab cap u = Some b" by (auto simp: dedup_contains_spec)
  with * show "dedup_contains tab cap u = Some (u \<in> dedup_set tab)"
    using contains_imp_member [of tab cap u] chained_member_contains [of tab cap u]
    by (cases b) auto
next
  fix tab tab' and u :: bytes and w w' :: "'a world_scheme"
  assume "dedup_wf tab cap \<and> chained tab cap" "length u = 16"
    "dedup_insert tab cap max_age u w = Some (tab', w')"
  then show "dedup_set tab' \<subseteq> insert u (dedup_set tab)" using insert_set by blast
qed (auto simp: dc.member_total intro: wf_intros insert_contains insert_chained
    dc.ins_total)


section \<open>Properties\<close>

text \<open>Marking works: on a well-formed cache with a positive capacity, marking any 16-byte
  identifier never faults, keeps the cache well-formed, and the identifier is reported as a duplicate
  right afterwards, whatever the table holds (also when it is full) and whatever the clock says.\<close>

lemma dedup_insert_found:
  assumes "dedup_wf tab cap" and "length u = 16"
  shows "\<exists>tab'. dedup_insert tab cap max_age u w = Some (tab', snd (c_time w)) \<and> dedup_wf tab' cap \<and>
    dedup_contains tab' cap u = Some True"
proof -
  from assms obtain tab' where "dedup_insert tab cap max_age u w = Some (tab', snd (c_time w))"
      "dedup_wf tab' cap"
    by (rule dedup_insert_total)
  with dc.ins_member [OF assms this(1)] show ?thesis by blast
qed



text \<open>Capacity pressure is the only way marking loses a fresh identifier: if some slot is free or
  expired, every identifier that was fresh, and the new one, are fresh in the table afterwards.\<close>

lemma dedup_insert_keeps_fresh:
  assumes "dedup_wf tab cap" and "length u = 16"
    and "\<exists>e\<in>set tab. stale (w_clock w (w_ntime w)) max_age e"
  shows "\<exists>tab' w'. dedup_insert tab cap max_age u w = Some (tab', w') \<and>
    insert u (fresh_set (w_clock w (w_ntime w)) max_age tab) \<subseteq> fresh_set (w_clock w (w_ntime w)) max_age tab'"
proof -
  obtain tab' where "dedup_insert tab cap max_age u w = Some (tab', snd (c_time w))"
    using dedup_insert_total [OF assms(1,2)] by blast
  with insert_keeps_fresh [OF assms(1,2) this assms(3)] show ?thesis by blast
qed

text \<open>What an eviction really does: it frees exactly the expired entries, so the table holds the
  identifiers that were fresh; but since it leaves no tombstones, the membership test afterwards
  finds an identifier if and only if every slot from its home slot up to its own was fresh.\<close>

lemma dedup_evict_exact:
  assumes "dedup_wf tab cap" and "length u = 16"
  shows "\<exists>tab' w'. dedup_evict tab cap max_age w = Some (tab', w') \<and>
    dedup_wf tab' cap \<and> dedup_set tab' = fresh_set (w_clock w (w_ntime w)) max_age tab \<and>
    dedup_contains tab' cap u = Some (\<exists>j<cap. de_uuid (probe tab (home u cap) j) = u \<and>
      (\<forall>k\<le>j. \<not> stale (w_clock w (w_ntime w)) max_age (probe tab (home u cap) k)))"
proof -
  obtain tab' w' where t: "dedup_evict tab cap max_age w = Some (tab', w')" "dedup_wf tab' cap"
    using dedup_evict_total [OF assms(1)] by blast
  from evict_contains_iff [OF assms t(1)] evict_set [OF assms(1) t(1)] t show ?thesis by blast
qed

text \<open>Two identifiers with the same home slot in a table of four.\<close>

definition uuid_a :: bytes where "uuid_a = replicate 15 0 @ [0]"
definition uuid_b :: bytes where "uuid_b = replicate 15 0 @ [4]"

lemma uuid_ab: "length uuid_a = 16" "length uuid_b = 16" "uuid_a \<noteq> uuid_b"
  by (simp_all add: uuid_a_def uuid_b_def)

lemma uuid_ab_list:
  "uuid_a = [0, 0, 0, 0, 0, 0, 0, 0, 0, 0, 0, 0, 0, 0, 0, 0]"
  "uuid_b = [0, 0, 0, 0, 0, 0, 0, 0, 0, 0, 0, 0, 0, 0, 0, 4]"
  by (simp_all add: uuid_a_def uuid_b_def eval_nat_numeral)

lemma home_ab: "home uuid_a 4 = 1" "home uuid_b 4 = 1"
  by (simp_all add: home_def fnv1a_def uuid_ab_list)

lemma replicate_4: "replicate 4 x = [x, x, x, x]"
  by (simp add: eval_nat_numeral)

text \<open>C25. The missing tombstones lose fresh identifiers: two identifiers with the same home slot are
  marked at times 0 and 500 with a maximum age of 600; the eviction at time 601 frees the first, and
  the second, 101 seconds old and still in the table, is no longer reported as a duplicate.\<close>

theorem evict_forgets_fresh:
  "\<exists>tab1 tab2 tab3 w1 w2 w3.
     dedup_insert (replicate 4 entry_zero) 4 600 uuid_a
       ((calm 0)\<lparr>w_clock := (\<lambda>n. if n = 0 then 0 else if n = 1 then 500 else 601)\<rparr>) = Some (tab1, w1) \<and>
     dedup_insert tab1 4 600 uuid_b w1 = Some (tab2, w2) \<and>
     dedup_contains tab2 4 uuid_b = Some True \<and>
     dedup_evict tab2 4 600 w2 = Some (tab3, w3) \<and>
     uuid_b \<in> fresh_set 601 600 tab2 \<and> uuid_b \<in> dedup_set tab3 \<and>
     dedup_contains tab3 4 uuid_b = Some False"
proof -
  let ?w = "(calm 0)\<lparr>w_clock := (\<lambda>n. if n = 0 then 0 else if n = 1 then 500 else 601)\<rparr>"
  let ?z = entry_zero and ?a = "fresh_entry uuid_a 0" and ?b = "fresh_entry uuid_b 500"
  let ?t1 = "[?z, ?a, ?z, ?z]" and ?t2 = "[?z, ?a, ?b, ?z]"
  let ?t3 = "[?z, ?a\<lparr>de_occupied := False\<rparr>, ?b, ?z]"
  note run = dedup_insert_def dedup_hash_ok uuid_ab home_ab mem_get_def mem_set_def mem_read_def
    BC_UUID_SIZE_def c_time_def Let_def dedup_insert_from.simps entry_overwrite
  have "dedup_insert (replicate 4 ?z) 4 600 uuid_a ?w = Some (?t1, ?w\<lparr>w_ntime := 1\<rparr>)"
    by (simp add: run replicate_4)
  moreover have "dedup_insert ?t1 4 600 uuid_b (?w\<lparr>w_ntime := 1\<rparr>) = Some (?t2, ?w\<lparr>w_ntime := 2\<rparr>)"
    by (simp add: run)
  moreover have wf: "dedup_wf ?t2 4" "dedup_wf ?t3 4"
    by (simp_all add: dedup_wf_def uuid_ab BC_UUID_SIZE_def)
  moreover have "dedup_evict ?t2 4 600 (?w\<lparr>w_ntime := 2\<rparr>) = Some (?t3, ?w\<lparr>w_ntime := 3\<rparr>)"
    unfolding dedup_evict_spec [OF wf(1)]
    by (simp add: c_time_def stale_def entry_unoccupied)
  moreover have "uuid_b \<in> fresh_set 601 600 ?t2"
    by (rule fresh_setI [of ?b]) (simp_all add: stale_def)
  moreover have "uuid_b \<in> dedup_set ?t3"
    by (rule dedup_setI [of ?b]) simp_all
  moreover have "dedup_contains ?t3 4 uuid_b = Some False"
    by (simp add: dedup_contains_def dedup_hash_ok uuid_ab home_ab mem_get_def
        dedup_contains_from.simps fresh_entry_def)
  moreover have "dedup_contains ?t2 4 uuid_b = Some True"
    by (simp add: dedup_contains_def dedup_hash_ok uuid_ab home_ab mem_get_def memeq_def
        BC_UUID_SIZE_def dedup_contains_from.simps fresh_entry_def)
  ultimately show ?thesis by blast
qed

end
