(* ===== verification/Peer.thy ===== *)
theory Peer
  imports World
begin

text \<open>The peer entity, \<^verbatim>\<open>src/domain/peer.c\<close>: initialisation and the last-seen timestamp.\<close>

definition bc_peer_init ::
  "bc_peer option \<Rightarrow> bytes option \<Rightarrow> bc_transport_type \<Rightarrow> 'a world_scheme \<Rightarrow>
   (bc_peer option \<times> 'a world_scheme) option" where
  "bc_peer_init peer pubkey transport w =
     (case (peer, pubkey) of
        (Some _, Some pk) \<Rightarrow>
          do {
            k \<leftarrow> memcpy (peer_pubkey peer_zero) 0 pk 0 BC_PUBKEY_SIZE;
            let (now, w) = c_time w;
            Some (Some (peer_zero\<lparr>peer_pubkey := k, peer_transport := transport,
                          peer_last_seen := now, peer_rssi := 0\<rparr>), w)
          }
      | _ \<Rightarrow> Some (peer, w))"

definition bc_peer_touch :: "bc_peer option \<Rightarrow> 'a world_scheme \<Rightarrow> bc_peer option \<times> 'a world_scheme" where
  "bc_peer_touch peer w =
     (case peer of
        None \<Rightarrow> (None, w)
      | Some p \<Rightarrow> let (now, w) = c_time w in (Some (p\<lparr>peer_last_seen := now\<rparr>), w))"

text \<open>The touch of an existing peer, as the router and the discovery call it.\<close>

definition touched :: "bc_peer \<Rightarrow> 'a world_scheme \<Rightarrow> bc_peer" where
  "touched p w = p\<lparr>peer_last_seen := w_clock w (w_ntime w)\<rparr>"

lemma bc_peer_touch_Some [simp]:
  "bc_peer_touch (Some p) w = (Some (touched p w), snd (c_time w))"
  by (simp add: bc_peer_touch_def touched_def c_time_def)

lemma touched_simps [simp]:
  "peer_pubkey (touched p w) = peer_pubkey p" "peer_rssi (touched p w) = peer_rssi p"
  "peer_transport (touched p w) = peer_transport p"
  "peer_last_seen (touched p w) = w_clock w (w_ntime w)" "peer_wf (touched p w) = peer_wf p"
  by (simp_all add: touched_def peer_wf_def)

lemma bc_peer_init_ok:
  assumes "length pk = BC_PUBKEY_SIZE"
  shows "\<exists>p w'. bc_peer_init (Some p0) (Some pk) t w = Some (Some p, w') \<and> peer_wf p \<and>
    peer_pubkey p = pk \<and> peer_transport p = t \<and> peer_rssi p = 0 \<and>
    peer_last_seen p = w_clock w (w_ntime w) \<and> w_trace w' = w_trace w \<and> w_live w' = w_live w"
  using assms
  by (simp add: bc_peer_init_def peer_zero_def memcpy_first c_time_def peer_wf_def Let_def)

section \<open>Peer tables\<close>

text \<open>The search loop over the known peers, shared in form by the router and the discovery.\<close>

function find_peer_from :: "bc_peer list \<Rightarrow> nat \<Rightarrow> bytes \<Rightarrow> nat \<Rightarrow> nat option option" where
  "find_peer_from peers peer_count pubkey i =
     (if i < peer_count then
        do {
          p \<leftarrow> mem_get peers i;
          (if memeq BC_PUBKEY_SIZE (peer_pubkey p) pubkey then Some (Some i)
           else find_peer_from peers peer_count pubkey (Suc i))
        }
      else Some None)"
  by pat_completeness auto
termination
  by (relation "measure (\<lambda>(peers, peer_count, pubkey, i). peer_count - i)") auto

declare find_peer_from.simps [simp del]

lemma find_peer_from_spec:
  assumes "cnt \<le> length ps" "i \<le> cnt" "length pk = 32" "\<forall>p\<in>set (take cnt ps). peer_wf p"
  shows "find_peer_from ps cnt pk i =
    Some (find (\<lambda>k. peer_pubkey (ps ! k) = pk) [i..<cnt])"
  using assms
proof (induction "cnt - i" arbitrary: i)
  case 0
  then show ?case by (subst find_peer_from.simps) simp
next
  case (Suc k)
  have i: "i < cnt" using Suc.hyps(2) by simp
  then have "ps ! i \<in> set (take cnt ps)" using Suc.prems(1) by (auto simp: in_set_conv_nth)
  then have l: "length (peer_pubkey (ps ! i)) = 32"
    using Suc.prems(4) by (auto simp: peer_wf_def size_defs)
  have "[i..<cnt] = i # [Suc i..<cnt]" using i by (rule upt_conv_Cons)
  with Suc.hyps(1) [of "Suc i"] Suc.hyps(2) Suc.prems i l show ?case
    by (subst find_peer_from.simps) (simp add: mem_simps size_defs)
qed

text \<open>
  The abstract view of a peer table is a finite map from public keys to peers. The router and the
  discovery both keep one; the locale states what they have in common: a known key is refreshed in
  place, a new one is appended while fewer than \<open>BC_MAX_PEERS\<close> are known, and a full table ignores it.
\<close>

definition peer_keys :: "bc_peer list \<Rightarrow> bytes set" where
  "peer_keys ps = set (map peer_pubkey ps)"

definition peer_map :: "bc_peer list \<Rightarrow> (bytes \<rightharpoonup> bc_peer)" where
  "peer_map ps k = find (\<lambda>p. peer_pubkey p = k) ps"

definition peers_wf :: "bc_peer list \<Rightarrow> bool" where
  "peers_wf ps \<longleftrightarrow> length ps \<le> 64 \<and> (\<forall>p\<in>set ps. peer_wf p) \<and> distinct (map peer_pubkey ps)"

lemma dom_peer_map [simp]: "dom (peer_map ps) = peer_keys ps"
  by (induction ps) (auto simp: peer_map_def peer_keys_def dom_def)

lemma peer_keys_append [simp]: "peer_keys (ps @ [p]) = insert (peer_pubkey p) (peer_keys ps)"
  by (simp add: peer_keys_def)

lemma peers_wf_append:
  "peers_wf ps \<Longrightarrow> peer_wf p \<Longrightarrow> peer_pubkey p \<notin> peer_keys ps \<Longrightarrow> length ps < 64 \<Longrightarrow> peers_wf (ps @ [p])"
  by (auto simp: peers_wf_def peer_keys_def)

lemma map_key_update:
  "i < length ps \<Longrightarrow> peer_pubkey p = peer_pubkey (ps ! i) \<Longrightarrow> map peer_pubkey (ps[i := p]) = map peer_pubkey ps"
  by (metis list_update_id map_update nth_map)

lemma peer_keys_update [simp]:
  "i < length ps \<Longrightarrow> peer_pubkey p = peer_pubkey (ps ! i) \<Longrightarrow> peer_keys (ps[i := p]) = peer_keys ps"
  by (metis map_key_update peer_keys_def)

lemma peers_wf_update:
  assumes "peers_wf ps" "peer_wf p" "i < length ps" "peer_pubkey p = peer_pubkey (ps ! i)"
  shows "peers_wf (ps[i := p])"
  using assms map_key_update [OF assms(3,4)] set_update_subset_insert [of ps i p]
  by (auto simp: peers_wf_def)

lemma peer_map_append:
  "peer_pubkey p \<notin> peer_keys ps \<Longrightarrow> peer_map (ps @ [p]) = (peer_map ps)(peer_pubkey p \<mapsto> p)"
  by (induction ps) (auto simp: peer_map_def peer_keys_def fun_eq_iff)

lemma peer_map_update:
  assumes "distinct (map peer_pubkey ps)" "i < length ps" "peer_pubkey p = peer_pubkey (ps ! i)"
  shows "peer_map (ps[i := p]) = (peer_map ps)(peer_pubkey p \<mapsto> p)"
  using assms
proof (induction ps arbitrary: i)
  case (Cons q qs)
  show ?case
  proof (cases i)
    case 0
    with Cons.prems show ?thesis by (auto simp: peer_map_def fun_eq_iff)
  next
    case (Suc j)
    have "peer_map (qs[j := p]) = (peer_map qs)(peer_pubkey p \<mapsto> p)"
      by (rule Cons.IH) (use Cons.prems Suc in simp_all)
    moreover have "peer_pubkey q \<noteq> peer_pubkey p" using Cons.prems Suc by auto
    ultimately show ?thesis using Suc by (auto simp: peer_map_def fun_eq_iff)
  qed
qed simp

lemma card_peer_keys: "peers_wf ps \<Longrightarrow> card (peer_keys ps) = length ps"
  unfolding peers_wf_def peer_keys_def by (metis distinct_card length_map)

locale peer_table =
  fixes inv :: "'s \<Rightarrow> bool" and known :: "'s \<Rightarrow> bc_peer list"
    and add :: "bc_peer \<Rightarrow> 's \<Rightarrow> 'w \<Rightarrow> ('s \<times> 'w) option"
    and refresh :: "bc_peer \<Rightarrow> bc_peer \<Rightarrow> 'w \<Rightarrow> bc_peer"
  assumes known_wf: "inv s \<Longrightarrow> peers_wf (known s)"
    and refresh_key: "peer_pubkey q = peer_pubkey p \<Longrightarrow> peer_pubkey (refresh q p w) = peer_pubkey p"
    and add_old: "inv s \<Longrightarrow> peer_wf p \<Longrightarrow> i < length (known s) \<Longrightarrow>
      peer_pubkey (known s ! i) = peer_pubkey p \<Longrightarrow>
      \<exists>s' w'. add p s w = Some (s', w') \<and> inv s' \<and> known s' = (known s)[i := refresh (known s ! i) p w]"
    and add_new: "inv s \<Longrightarrow> peer_wf p \<Longrightarrow> peer_pubkey p \<notin> peer_keys (known s) \<Longrightarrow>
      \<exists>s' w'. add p s w = Some (s', w') \<and> inv s' \<and>
        known s' = (if length (known s) < 64 then known s @ [p] else known s)"
begin

lemma add_total:
  assumes "inv s" "peer_wf p"
  obtains s' w' where "add p s w = Some (s', w')" "inv s'"
    "peer_keys (known s') = (if peer_pubkey p \<in> peer_keys (known s) \<or> length (known s) < 64
       then insert (peer_pubkey p) (peer_keys (known s)) else peer_keys (known s))"
proof (cases "peer_pubkey p \<in> peer_keys (known s)")
  case True
  then obtain i where i: "i < length (known s)" "peer_pubkey (known s ! i) = peer_pubkey p"
    by (auto simp: peer_keys_def in_set_conv_nth)
  from add_old [OF assms this] obtain s' w' where "add p s w = Some (s', w')" "inv s'"
      "known s' = (known s)[i := refresh (known s ! i) p w]" by blast
  with i True that show ?thesis by (simp add: refresh_key insert_absorb)
next
  case False
  from add_new [OF assms this, of w] that False show ?thesis by auto
qed

text \<open>As a map: a known or new key is bound while there is room, all other bindings stay.\<close>

lemma add_map:
  assumes "inv s" "peer_wf p" "add p s w = Some (s', w')"
  shows "\<exists>q. peer_map (known s') = (if peer_pubkey p \<in> peer_keys (known s) \<or> length (known s) < 64
      then (peer_map (known s))(peer_pubkey p \<mapsto> q) else peer_map (known s)) \<and>
    (q = p \<or> (\<exists>q0. peer_map (known s) (peer_pubkey p) = Some q0 \<and> q = refresh q0 p w))"
proof (cases "peer_pubkey p \<in> peer_keys (known s)")
  case True
  then obtain i where i: "i < length (known s)" "peer_pubkey (known s ! i) = peer_pubkey p"
    by (auto simp: peer_keys_def in_set_conv_nth)
  have d: "distinct (map peer_pubkey (known s))" using known_wf [OF assms(1)] by (simp add: peers_wf_def)
  have "peer_map (known s) = (peer_map (known s))(peer_pubkey p \<mapsto> known s ! i)"
    using peer_map_update [OF d i(1), of "known s ! i"] i by simp
  then have "peer_map (known s) (peer_pubkey p) = Some (known s ! i)" by (metis fun_upd_same)
  moreover have "known s' = (known s)[i := refresh (known s ! i) p w]"
    using add_old [OF assms(1,2) i, of w] assms(3) by auto
  ultimately show ?thesis
    using True i peer_map_update [OF d i(1), of "refresh (known s ! i) p w"]
    by (intro exI [of _ "refresh (known s ! i) p w"]) (simp add: refresh_key)
next
  case False
  from add_new [OF assms(1,2) this, of w] assms(3) peer_map_append [OF False] False
  show ?thesis by auto
qed

text \<open>Adding a batch of peers: every key is known afterwards if they all fit.\<close>

primrec adds :: "bc_peer list \<Rightarrow> 's \<Rightarrow> 'w \<Rightarrow> ('s \<times> 'w) option" where
  "adds [] s w = Some (s, w)"
| "adds (p # ps) s w = Option.bind (add p s w) (\<lambda>(s, w). adds ps s w)"

lemma adds_complete:
  assumes "inv s" "\<forall>p\<in>set ps. peer_wf p" "card (peer_keys (known s) \<union> peer_keys ps) \<le> 64"
  shows "\<exists>s' w'. adds ps s w = Some (s', w') \<and> inv s' \<and>
    peer_keys (known s') = peer_keys (known s) \<union> peer_keys ps"
  using assms
proof (induction ps arbitrary: s w)
  case Nil
  then show ?case by (simp add: peer_keys_def)
next
  case (Cons p ps)
  from Cons.prems have p: "peer_wf p" by simp
  obtain s1 w1 where s1: "add p s w = Some (s1, w1)" "inv s1"
      "peer_keys (known s1) = (if peer_pubkey p \<in> peer_keys (known s) \<or> length (known s) < 64
       then insert (peer_pubkey p) (peer_keys (known s)) else peer_keys (known s))"
    using add_total [OF Cons.prems(1) p] .
  have fin: "finite (peer_keys qs)" for qs by (simp add: peer_keys_def)
  have "peer_pubkey p \<in> peer_keys (known s) \<or> length (known s) < 64"
  proof (rule ccontr)
    assume n: "\<not> ?thesis"
    then have "card (insert (peer_pubkey p) (peer_keys (known s))) > 64"
      using card_peer_keys [OF known_wf [OF Cons.prems(1)]] fin by simp
    moreover have "insert (peer_pubkey p) (peer_keys (known s)) \<subseteq> peer_keys (known s) \<union> peer_keys (p # ps)"
      by (auto simp: peer_keys_def)
    ultimately show False
      using Cons.prems(3) fin by (meson card_mono finite_Un leD le_trans)
  qed
  then have k: "peer_keys (known s1) = insert (peer_pubkey p) (peer_keys (known s))" using s1(3) by simp
  then have u: "peer_keys (known s1) \<union> peer_keys ps = peer_keys (known s) \<union> peer_keys (p # ps)"
    by (auto simp: peer_keys_def)
  have "\<exists>s' w'. adds ps s1 w1 = Some (s', w') \<and> inv s' \<and>
    peer_keys (known s') = peer_keys (known s1) \<union> peer_keys ps"
    using Cons.prems s1(2) u by (intro Cons.IH) auto
  then show ?case using s1(1) u by auto
qed

end

end
