(* ===== verification/Ports.thy ===== *)
theory Ports
  imports Message
begin

text \<open>
  The two port interfaces, \<^verbatim>\<open>include/bitchat/port/transport.h\<close> and \<^verbatim>\<open>storage.h\<close>: structs of
  function pointers behind which the adapters hide. A pointer that may be \<open>NULL\<close> is an \<open>option\<close>. The
  adapter's private context lives in the extensible part \<open>'a\<close> of the world, so that two holders of
  the same port share its state as they do through the pointer in the source.

  Each interface comes with a locale that states what its documentation promises; the adapters
  interpret the locales, the use-case layer is verified against them.
\<close>

type_synonym 'a send_fn =
  "bytes \<Rightarrow> bytes \<Rightarrow> nat \<Rightarrow> 'a world_scheme \<Rightarrow> (bc_err \<times> 'a world_scheme) option"

text \<open>Buffer, its size, the old \<open>*out_len\<close> and the sender array; the new contents are returned.\<close>

type_synonym 'a recv_fn =
  "bytes \<Rightarrow> nat \<Rightarrow> nat \<Rightarrow> bytes \<Rightarrow> 'a world_scheme \<Rightarrow>
   (bc_err \<times> bytes \<times> nat \<times> bytes \<times> 'a world_scheme) option"

type_synonym 'a discover_fn =
  "bc_peer list \<Rightarrow> nat \<Rightarrow> nat \<Rightarrow> 'a world_scheme \<Rightarrow>
   (bc_err \<times> bc_peer list \<times> nat \<times> 'a world_scheme) option"

record 'a bc_transport =
  tr_init :: "('a world_scheme \<Rightarrow> bc_err \<times> 'a world_scheme) option"
  tr_send :: "'a send_fn option"
  tr_recv :: "'a recv_fn option"
  tr_discover_peers :: "'a discover_fn option"
  tr_destroy :: "('a world_scheme \<Rightarrow> 'a world_scheme) option"

text \<open>
  \<open>get_pending\<close> returns the array \<open>*msgs_out\<close> as a list whose length is \<open>*count\<close>; its argument is
  \<open>None\<close> for the \<open>NULL\<close> key that asks for every pending message.
\<close>

record 'a bc_storage =
  st_store_message :: "(bc_message \<Rightarrow> 'a world_scheme \<Rightarrow> (bc_err \<times> 'a world_scheme) option) option"
  st_get_pending ::
    "(bytes option \<Rightarrow> 'a world_scheme \<Rightarrow> (bc_err \<times> bc_message list \<times> 'a world_scheme) option) option"
  st_delete_message :: "(bytes \<Rightarrow> 'a world_scheme \<Rightarrow> (bc_err \<times> 'a world_scheme) option) option"
  st_evict_expired :: "(u64 \<Rightarrow> 'a world_scheme \<Rightarrow> (bc_err \<times> 'a world_scheme) option) option"
  st_destroy :: "('a world_scheme \<Rightarrow> 'a world_scheme) option"

text \<open>Nothing observable happened and no heap block changed hands.\<close>

definition quiet :: "'a world_scheme \<Rightarrow> 'a world_scheme \<Rightarrow> bool" where
  "quiet w w' \<longleftrightarrow> w_trace w' = w_trace w \<and> w_live w' = w_live w \<and> oracles w' = oracles w"

lemma quiet_refl [simp]: "quiet w w"
  by (simp add: quiet_def)

lemma quiet_trans: "quiet w w' \<Longrightarrow> quiet w' w'' \<Longrightarrow> quiet w w''"
  by (simp add: quiet_def)

lemma quiet_time [simp]: "quiet w (snd (c_time w))"
  by (simp add: quiet_def)

text \<open>A message a storage adapter accepts: well-formed, its payload length fits an \<open>int\<close>.\<close>

definition storable :: "bc_message \<Rightarrow> bool" where
  "storable m \<longleftrightarrow> message_wf m \<and> msg_payload_len m < 2 ^ 31"

definition blocks_of :: "bc_message list \<Rightarrow> int" where
  "blocks_of ms = (\<Sum>m\<leftarrow>ms. msg_blocks m) + (if ms = [] then 0 else 1)"

text \<open>
  The contracts are relative to an invariant \<open>J\<close> of the adapters' own state, which every operation
  keeps.
\<close>

locale transport_port =
  fixes J :: "'a \<Rightarrow> bool" and t :: "'a bc_transport"
  assumes send_ok: "tr_send t = Some f \<Longrightarrow> n \<le> length d \<Longrightarrow> J (ext w) \<Longrightarrow>
      \<exists>rc w'. f pk d n w = Some (rc, w') \<and> quiet w w' \<and> J (ext w')"
    and discover_ok: "tr_discover_peers t = Some h \<Longrightarrow> length ps = mx \<Longrightarrow> J (ext w) \<Longrightarrow> \<exists>rc ps' k' w'.
      h ps mx k w = Some (rc, ps', k', w') \<and> length ps' = mx \<and>
      (rc = BC_OK \<longrightarrow> k' \<le> mx \<and> (\<forall>p\<in>set (take k' ps'). peer_wf p)) \<and> quiet w w' \<and> J (ext w')"

text \<open>
  A transport that runs out of data: \<open>J k\<close> bounds by \<open>k\<close> the datagrams it will still hand out before it
  answers that there are none. Each datagram fits the buffer, and its length field does not overflow
  the decoder's 32-bit check.
\<close>

locale draining_transport =
  fixes J :: "nat \<Rightarrow> 'a \<Rightarrow> bool" and t :: "'a bc_transport"
  assumes recv_ok: "tr_recv t = Some g \<Longrightarrow> J k (ext w) \<Longrightarrow> \<exists>rc b' n' pk' w' k'.
      g b (length b) n pk w = Some (rc, b', n', pk', w') \<and> length b' = length b \<and>
      (rc = BC_OK \<longrightarrow> n' \<le> length b) \<and> quiet w w' \<and> J k' (ext w') \<and>
      (rc = BC_OK \<and> 0 < n' \<longrightarrow> k' < k \<and> (93 \<le> n' \<longrightarrow> 93 + wire_plen b' < 2 ^ 32))"

locale storage_port =
  fixes J :: "'a \<Rightarrow> bool" and s :: "'a bc_storage"
  assumes store_ok: "st_store_message s = Some f \<Longrightarrow> storable m \<Longrightarrow> J (ext w) \<Longrightarrow>
      \<exists>rc w'. f m w = Some (rc, w') \<and> quiet w w' \<and> J (ext w')"
    and pending_ok: "st_get_pending s = Some g \<Longrightarrow> (\<And>k. pk = Some k \<Longrightarrow> length k = 32) \<Longrightarrow> J (ext w) \<Longrightarrow>
      \<exists>rc ms w'. g pk w = Some (rc, ms, w') \<and> w_trace w' = w_trace w \<and> J (ext w') \<and>
      (rc = BC_OK \<longrightarrow> (\<forall>m\<in>set ms. storable m) \<and> w_live w' = w_live w + blocks_of ms) \<and>
      (rc \<noteq> BC_OK \<longrightarrow> w_live w' = w_live w)"
    and delete_ok: "st_delete_message s = Some d \<Longrightarrow> length u = 16 \<Longrightarrow> J (ext w) \<Longrightarrow>
      \<exists>rc w'. d u w = Some (rc, w') \<and> quiet w w' \<and> J (ext w')"
    and evict_ok: "st_evict_expired s = Some e \<Longrightarrow> J (ext w) \<Longrightarrow>
      \<exists>rc w'. e age w = Some (rc, w') \<and> quiet w w' \<and> J (ext w')"

end
