(* ===== verification/Router.thy ===== *)
theory Router
  imports Dedup Peer Ports
begin

text \<open>
  The mesh router, \<^verbatim>\<open>src/usecase/mesh_router.c\<close>: gossip forwarding with a fanout limit,
  deduplication, hop limit, local delivery and store-and-forward.
\<close>

definition BC_DEFAULT_FANOUT :: u8 where "BC_DEFAULT_FANOUT = 3"
definition BC_DEFAULT_DEDUP_CAP :: nat where "BC_DEFAULT_DEDUP_CAP = 10000"
definition BC_DEFAULT_DEDUP_AGE :: u64 where "BC_DEFAULT_DEDUP_AGE = 600"
definition BC_SF_REBROADCAST_SEC :: u64 where "BC_SF_REBROADCAST_SEC = 3"

record bc_router_config =
  cfg_fanout :: u8
  cfg_dedup_cap :: nat
  cfg_dedup_max_age :: u64

text \<open>The delivery callback takes the opaque \<open>userdata\<close> pointer and the message.\<close>

type_synonym 'a on_message_fn = "nat \<Rightarrow> bc_message \<Rightarrow> 'a world_scheme \<Rightarrow> 'a world_scheme option"

record 'a bc_router =
  r_transport :: "'a bc_transport option"
  r_storage :: "'a bc_storage option"
  r_config :: bc_router_config
  r_local_pubkey :: bytes
  r_dedup_table :: dedup_table
  r_dedup_cap :: nat
  r_peers :: "bc_peer list"
  r_peer_count :: nat
  r_on_message :: "'a on_message_fn option"
  r_on_message_userdata :: nat
  r_last_sf_tick :: u64

section \<open>Forwarding\<close>

function forward_from ::
  "'a send_fn \<Rightarrow> bc_peer list \<Rightarrow> nat \<Rightarrow> nat \<Rightarrow> bytes \<Rightarrow> nat \<Rightarrow> nat \<Rightarrow> nat \<Rightarrow> 'a world_scheme \<Rightarrow>
   (nat \<times> 'a world_scheme) option" where
  "forward_from send peers peer_count fanout data len i sent w =
     (if i < peer_count \<and> sent < fanout then
        do {
          p \<leftarrow> mem_get peers i;
          (rc, w) \<leftarrow> send (peer_pubkey p) data len w;
          forward_from send peers peer_count fanout data len (Suc i)
            (if rc = BC_OK then Suc sent else sent)
            (emit (Sent (peer_pubkey p) (take len data) rc) w)
        }
      else Some (sent, w))"
  by pat_completeness auto
termination
  by (relation "measure (\<lambda>(send, peers, peer_count, fanout, data, len, i, sent, w). peer_count - i)") auto

declare forward_from.simps [simp del]

definition forward_to_peers ::
  "'a bc_router \<Rightarrow> bytes \<Rightarrow> nat \<Rightarrow> 'a world_scheme \<Rightarrow> (bc_err \<times> 'a world_scheme) option" where
  "forward_to_peers r data len w =
     (case r_transport r of
        None \<Rightarrow> Some (BC_ERR_TRANSPORT, w)
      | Some t \<Rightarrow>
          (case tr_send t of
             None \<Rightarrow> Some (BC_ERR_TRANSPORT, w)
           | Some send \<Rightarrow>
               do {
                 (sent, w) \<leftarrow> forward_from send (r_peers r) (r_peer_count r)
                   (unat (cfg_fanout (r_config r))) data len 0 0 w;
                 Some (if sent > 0 then BC_OK else BC_ERR_TRANSPORT, w)
               }))"

text \<open>
  The block that both \<open>bc_router_receive\<close> and \<open>bc_router_tick\<close> use to send one message: allocate,
  serialise, forward, free. The fresh buffer's indeterminate contents are modelled as zeros; the
  serialiser overwrites all of it.
\<close>

definition forward_message ::
  "'a bc_router \<Rightarrow> bc_message \<Rightarrow> 'a world_scheme \<Rightarrow> 'a world_scheme option" where
  "forward_message r msg w =
     (let needed = size_add BC_MESSAGE_HEADER_SIZE (msg_payload_len msg);
          (ok, w) = c_malloc needed w in
      if \<not> ok then Some w
      else do {
        (rc, buf, out_len) \<leftarrow> bc_message_serialize (Some msg) (Some (replicate needed 0)) needed (Some 0);
        w \<leftarrow> (if rc = BC_OK then do {
                 b \<leftarrow> buf; n \<leftarrow> out_len;
                 (_, w) \<leftarrow> forward_to_peers r b n w;
                 Some w
               } else Some w);
        Some (c_free w)
      })"

text \<open>Persisting a message when a storage adapter is present; its return code is ignored.\<close>

definition store_if_present ::
  "'a bc_router \<Rightarrow> bc_message \<Rightarrow> 'a world_scheme \<Rightarrow> 'a world_scheme option" where
  "store_if_present r msg w =
     (case r_storage r of
        None \<Rightarrow> Some w
      | Some s \<Rightarrow>
          (case st_store_message s of
             None \<Rightarrow> Some w
           | Some store \<Rightarrow> do { (rc, w) \<leftarrow> store msg w; Some (emit (Stored msg rc) w) }))"

section \<open>Public operations\<close>

definition sizeof_router :: nat where "sizeof_router = 3192"
definition sizeof_dedup_entry :: nat where "sizeof_dedup_entry = 32"

definition bc_router_create ::
  "'a bc_transport option \<Rightarrow> 'a bc_storage option \<Rightarrow> bytes option \<Rightarrow> bc_router_config option \<Rightarrow>
   'a world_scheme \<Rightarrow> ('a bc_router option \<times> 'a world_scheme) option" where
  "bc_router_create transport storage local_pubkey config w =
     (case local_pubkey of
        None \<Rightarrow> Some (None, w)
      | Some lk \<Rightarrow>
          (let (ok, w) = c_malloc sizeof_router w in
           if \<not> ok then Some (None, w)
           else do {
             lk \<leftarrow> mem_read lk 0 BC_PUBKEY_SIZE;
             let cfg = (case config of
                 Some c \<Rightarrow> c
               | None \<Rightarrow> \<lparr>cfg_fanout = BC_DEFAULT_FANOUT, cfg_dedup_cap = BC_DEFAULT_DEDUP_CAP,
                          cfg_dedup_max_age = BC_DEFAULT_DEDUP_AGE\<rparr>);
             let (ok, w) = c_malloc (cfg_dedup_cap cfg * sizeof_dedup_entry) w;
             (if \<not> ok then Some (None, c_free w)
              else Some (Some \<lparr>r_transport = transport, r_storage = storage, r_config = cfg,
                     r_local_pubkey = lk,
                     r_dedup_table = replicate (cfg_dedup_cap cfg) entry_zero,
                     r_dedup_cap = cfg_dedup_cap cfg,
                     r_peers = replicate BC_MAX_PEERS peer_zero, r_peer_count = 0,
                     r_on_message = None, r_on_message_userdata = 0, r_last_sf_tick = 0\<rparr>, w))
           }))"

definition bc_router_set_on_message ::
  "'a bc_router option \<Rightarrow> 'a on_message_fn option \<Rightarrow> nat \<Rightarrow> 'a bc_router option" where
  "bc_router_set_on_message router callback userdata =
     map_option (\<lambda>r. r\<lparr>r_on_message := callback, r_on_message_userdata := userdata\<rparr>) router"

definition router_mark ::
  "'a bc_router \<Rightarrow> bytes \<Rightarrow> 'a world_scheme \<Rightarrow> ('a bc_router \<times> 'a world_scheme) option" where
  "router_mark r uuid w =
     do {
       (tab, w) \<leftarrow> dedup_insert (r_dedup_table r) (r_dedup_cap r)
         (cfg_dedup_max_age (r_config r)) uuid w;
       Some (r\<lparr>r_dedup_table := tab\<rparr>, w)
     }"

definition bc_router_broadcast ::
  "'a bc_router option \<Rightarrow> bc_message option \<Rightarrow> 'a world_scheme \<Rightarrow>
   (bc_err \<times> 'a bc_router option \<times> 'a world_scheme) option" where
  "bc_router_broadcast router msg w =
     (case (router, msg) of
        (Some r, Some m) \<Rightarrow>
          do {
            (r, w) \<leftarrow> router_mark r (msg_uuid m) w;
            let needed = size_add BC_MESSAGE_HEADER_SIZE (msg_payload_len m);
            let (ok, w) = c_malloc needed w;
            (if \<not> ok then Some (BC_ERR_NOMEM, Some r, w)
             else do {
               (rc, buf, out_len) \<leftarrow>
                 bc_message_serialize (Some m) (Some (replicate needed 0)) needed (Some 0);
               (if rc \<noteq> BC_OK then Some (rc, Some r, c_free w)
                else do {
                  b \<leftarrow> buf; n \<leftarrow> out_len;
                  (_, w) \<leftarrow> forward_to_peers r b n w;
                  w \<leftarrow> store_if_present r m w;
                  Some (BC_OK, Some r, c_free w)
                })
             })
          }
      | _ \<Rightarrow> Some (BC_ERR_INVALID, router, w))"

definition bc_router_receive ::
  "'a bc_router option \<Rightarrow> bytes option \<Rightarrow> nat \<Rightarrow> 'a world_scheme \<Rightarrow>
   (bc_err \<times> 'a bc_router option \<times> 'a world_scheme) option" where
  "bc_router_receive router data len w =
     (case (router, data) of
        (Some r, Some d) \<Rightarrow>
          if len = 0 then Some (BC_ERR_INVALID, router, w)
          else do {
            (mo, w) \<leftarrow> bc_message_deserialize (Some d) len w;
            (case mo of
               None \<Rightarrow> Some (BC_ERR_INVALID, router, w)
             | Some msg \<Rightarrow> do {
                 dup \<leftarrow> dedup_contains (r_dedup_table r) (r_dedup_cap r) (msg_uuid msg);
                 (if dup then Some (BC_ERR_DUPLICATE, router, bc_message_destroy (Some msg) w)
                  else do {
                    (r, w) \<leftarrow> router_mark r (msg_uuid msg) w;
                    (if msg_ttl msg = 0
                     then Some (BC_ERR_TTL_EXPIRED, Some r, bc_message_destroy (Some msg) w)
                     else do {
                       let msg = msg\<lparr>msg_ttl := msg_ttl msg - 1\<rparr>;
                       (if memeq BC_PUBKEY_SIZE (msg_receiver_pubkey msg) (r_local_pubkey r) then do {
                          w \<leftarrow> (case r_on_message r of
                                 None \<Rightarrow> Some w
                               | Some cb \<Rightarrow> cb (r_on_message_userdata r) msg (emit (Delivered msg) w));
                          Some (BC_OK, Some r, bc_message_destroy (Some msg) w)
                        }
                        else do {
                          w \<leftarrow> store_if_present r msg w;
                          w \<leftarrow> forward_message r msg w;
                          Some (BC_OK, Some r, bc_message_destroy (Some msg) w)
                        })
                     })
                  })
               })
          }
      | _ \<Rightarrow> Some (BC_ERR_INVALID, router, w))"

definition bc_router_add_peer ::
  "'a bc_router option \<Rightarrow> bc_peer option \<Rightarrow> 'a world_scheme \<Rightarrow>
   ('a bc_router option \<times> 'a world_scheme) option" where
  "bc_router_add_peer router peer w =
     (case (router, peer) of
        (Some r, Some p) \<Rightarrow>
          do {
            found \<leftarrow> find_peer_from (r_peers r) (r_peer_count r) (peer_pubkey p) 0;
            (case found of
               Some i \<Rightarrow> do {
                 let (q, w) = bc_peer_touch (Some p) w;
                 q \<leftarrow> q;
                 peers \<leftarrow> mem_set (r_peers r) i q;
                 Some (Some (r\<lparr>r_peers := peers\<rparr>), w)
               }
             | None \<Rightarrow>
                 if r_peer_count r < BC_MAX_PEERS then do {
                   peers \<leftarrow> mem_set (r_peers r) (r_peer_count r) p;
                   Some (Some (r\<lparr>r_peers := peers, r_peer_count := Suc (r_peer_count r)\<rparr>), w)
                 }
                 else Some (router, w))
          }
      | _ \<Rightarrow> Some (router, w))"

section \<open>The maintenance tick\<close>

definition RECV_BUF_SIZE :: nat where "RECV_BUF_SIZE = 4096"

text \<open>
  The receive loop runs until the transport has nothing more; a transport that always has data
  keeps it running, so the loop is a partial function whose \<open>None\<close> also stands for not returning.
\<close>

partial_function (option) recv_loop ::
  "'a recv_fn \<Rightarrow> 'a bc_router \<Rightarrow> bytes \<Rightarrow> bytes \<Rightarrow> 'a world_scheme \<Rightarrow>
   ('a bc_router \<times> 'a world_scheme) option" where
  "recv_loop recv r buf pk w =
     do {
       (rc, buf, n, pk, w) \<leftarrow> recv buf RECV_BUF_SIZE 0 pk w;
       (if rc = BC_OK \<and> n > 0 then do {
          (_, ro, w) \<leftarrow> bc_router_receive (Some r) (Some buf) n w;
          r \<leftarrow> ro;
          recv_loop recv r buf pk w
        }
        else Some (r, w))
     }"

fun rebroadcast :: "'a bc_router \<Rightarrow> bc_message list \<Rightarrow> 'a world_scheme \<Rightarrow> 'a world_scheme option" where
  "rebroadcast r [] w = Some w"
| "rebroadcast r (m # ms) w =
     do { w \<leftarrow> forward_message r m w; rebroadcast r ms (bc_message_destroy (Some m) w) }"

definition tick_poll ::
  "'a bc_router \<Rightarrow> 'a world_scheme \<Rightarrow> ('a bc_router \<times> 'a world_scheme) option" where
  "tick_poll r w =
     (case r_transport r of
        None \<Rightarrow> Some (r, w)
      | Some t \<Rightarrow>
          (case tr_recv t of
             None \<Rightarrow> Some (r, w)
           | Some recv \<Rightarrow> recv_loop recv r (replicate RECV_BUF_SIZE 0) (replicate BC_PUBKEY_SIZE 0) w))"

definition tick_store_forward ::
  "'a bc_router \<Rightarrow> 'a world_scheme \<Rightarrow> ('a bc_router \<times> 'a world_scheme) option" where
  "tick_store_forward r w =
     (let (now, w) = c_time w in
      case r_storage r of
        None \<Rightarrow> Some (r, w)
      | Some s \<Rightarrow>
          (case st_get_pending s of
             None \<Rightarrow> Some (r, w)
           | Some get_pending \<Rightarrow>
               if r_peer_count r > 0 \<and> now - r_last_sf_tick r \<ge> BC_SF_REBROADCAST_SEC then do {
                 let r = r\<lparr>r_last_sf_tick := now\<rparr>;
                 (rc, msgs, w) \<leftarrow> get_pending None w;
                 (if rc = BC_OK then do {
                    w \<leftarrow> rebroadcast r msgs w;
                    Some (r, if msgs = [] then w else c_free w)
                  }
                  else Some (r, w))
               }
               else Some (r, w)))"

definition tick_evict_stored :: "'a bc_router \<Rightarrow> 'a world_scheme \<Rightarrow> 'a world_scheme option" where
  "tick_evict_stored r w =
     (case r_storage r of
        None \<Rightarrow> Some w
      | Some s \<Rightarrow>
          (case st_evict_expired s of
             None \<Rightarrow> Some w
           | Some evict \<Rightarrow> do { (_, w) \<leftarrow> evict (72 * 3600) w; Some w }))"

definition bc_router_tick ::
  "'a bc_router option \<Rightarrow> 'a world_scheme \<Rightarrow> ('a bc_router option \<times> 'a world_scheme) option" where
  "bc_router_tick router w =
     (case router of
        None \<Rightarrow> Some (None, w)
      | Some r \<Rightarrow>
          do {
            (tab, w) \<leftarrow> dedup_evict (r_dedup_table r) (r_dedup_cap r)
              (cfg_dedup_max_age (r_config r)) w;
            (r, w) \<leftarrow> tick_poll (r\<lparr>r_dedup_table := tab\<rparr>) w;
            (r, w) \<leftarrow> tick_store_forward r w;
            w \<leftarrow> tick_evict_stored r w;
            Some (Some r, w)
          })"

definition bc_router_destroy :: "'a bc_router option \<Rightarrow> 'a world_scheme \<Rightarrow> 'a world_scheme" where
  "bc_router_destroy router w =
     (case router of None \<Rightarrow> w | Some _ \<Rightarrow> c_free (c_free w))"

end
