(* ===== verification/Router_Correct.thy ===== *)
theory Router_Correct
  imports Router
begin

text \<open>
  Correctness of the mesh router: its invariant, the contract it needs from its ports and callback,
  and what each operation does on every branch. The proofs are relative to the port locales, so
  they hold for every adapter that interprets them.
\<close>

section \<open>Invariant and contract\<close>

definition known_peers :: "'a bc_router \<Rightarrow> bc_peer list" where
  "known_peers r = take (r_peer_count r) (r_peers r)"

definition router_wf :: "'a bc_router \<Rightarrow> bool" where
  "router_wf r \<longleftrightarrow>
     dedup_wf (r_dedup_table r) (r_dedup_cap r) \<and>
     length (r_local_pubkey r) = 32 \<and>
     length (r_peers r) = 64 \<and> r_peer_count r \<le> 64 \<and>
     (\<forall>p\<in>set (known_peers r). peer_wf p) \<and>
     distinct (map peer_pubkey (known_peers r))"

text \<open>A message to the user: the sender's key and a text that fits a payload.\<close>

definition to_user :: "event \<Rightarrow> bool" where
  "to_user e \<longleftrightarrow> (\<exists>s p. e = UserMessage s p \<and> length s = 32 \<and> length p < 2 ^ 31)"

text \<open>The trace only grows, and everything in it that reaches the user is of this form.\<close>

definition grows :: "'a world_scheme \<Rightarrow> 'a world_scheme \<Rightarrow> bool" where
  "grows w w' \<longleftrightarrow> (\<exists>es. w_trace w' = w_trace w @ es \<and> (\<forall>e\<in>set es. (\<exists>s p. e = UserMessage s p) \<longrightarrow> to_user e))"

lemma grows_same: "w_trace w' = w_trace w \<Longrightarrow> grows w w'"
  by (simp add: grows_def)

lemma quiet_grows: "quiet w w' \<Longrightarrow> grows w w'"
  by (simp add: quiet_def grows_same)

lemma grows_trans: "grows w w1 \<Longrightarrow> grows w1 w2 \<Longrightarrow> grows w w2"
  unfolding grows_def by (metis Un_iff append.assoc set_append)

text \<open>What the delivery callback must do: return, and report nothing but messages to the user.\<close>

locale callback_port =
  fixes J :: "'a \<Rightarrow> bool" and cb :: "'a on_message_fn"
  assumes callback_ok: "storable m \<Longrightarrow> J (ext w) \<Longrightarrow> \<exists>w' es. cb ud m w = Some w' \<and>
    w_trace w' = w_trace w @ es \<and> (\<forall>e\<in>set es. to_user e) \<and> J (ext w')"

locale router_ports =
  fixes J :: "'a \<Rightarrow> bool" and r :: "'a bc_router"
  assumes transport: "r_transport r = Some t \<Longrightarrow> transport_port J t"
    and storage: "r_storage r = Some s \<Longrightarrow> storage_port J s"
    and callback: "r_on_message r = Some cb \<Longrightarrow> callback_port J cb"

lemma router_ports_cong:
  "router_ports J r \<Longrightarrow> r_transport r' = r_transport r \<Longrightarrow> r_storage r' = r_storage r \<Longrightarrow>
   r_on_message r' = r_on_message r \<Longrightarrow> router_ports J r'"
  by (simp add: router_ports_def)

section \<open>Forwarding\<close>

definition sends :: "bytes \<Rightarrow> bc_peer list \<Rightarrow> bc_err list \<Rightarrow> event list" where
  "sends data ps rcs = map2 (\<lambda>p rc. Sent (peer_pubkey p) data rc) ps rcs"

lemma sends_silent: "e \<in> set (sends data ps rcs) \<Longrightarrow> e \<noteq> UserMessage s p"
  by (auto simp: sends_def)

definition oks :: "bc_err list \<Rightarrow> nat" where
  "oks rcs = length (filter (\<lambda>rc. rc = BC_OK) rcs)"

lemma oks_simps [simp]: "oks [] = 0" "oks (rc # rcs) = (if rc = BC_OK then Suc (oks rcs) else oks rcs)"
  by (simp_all add: oks_def)

text \<open>
  One pass over the peers: the calls go to a prefix of the peers in order, at most \<open>fanout\<close> of them
  succeed, and the pass stops early only because the fanout is used up.
\<close>

lemma forward_from_spec:
  assumes send: "\<And>pk w. J (ext w) \<Longrightarrow> \<exists>rc w'. send pk data len w = Some (rc, w') \<and> quiet w w' \<and> J (ext w')"
    and "cnt \<le> length peers" "i \<le> cnt" "sent \<le> fanout" "J (ext w)"
  shows "\<exists>rcs w'. forward_from send peers cnt fanout data len i sent w = Some (sent + oks rcs, w') \<and>
    length rcs \<le> cnt - i \<and> sent + oks rcs \<le> fanout \<and>
    (sent + oks rcs = fanout \<or> length rcs = cnt - i) \<and>
    w_trace w' = w_trace w @ sends (take len data) (drop i peers) rcs \<and>
    w_live w' = w_live w \<and> oracles w' = oracles w \<and> J (ext w')"
  using assms(2-5)
proof (induction "cnt - i" arbitrary: i sent w)
  case 0
  then show ?case
    by (subst forward_from.simps) (auto simp: sends_def intro!: exI [of _ "[]"])
next
  case (Suc k)
  show ?case
  proof (cases "sent < fanout")
    case False
    with Suc.prems show ?thesis
      by (subst forward_from.simps) (auto simp: sends_def intro!: exI [of _ "[]"])
  next
    case True
    have i: "i < cnt" "i < length peers" using Suc.hyps(2) Suc.prems by simp_all
    let ?p = "peers ! i"
    obtain rc w1 where s: "send (peer_pubkey ?p) data len w = Some (rc, w1)" "quiet w w1" "J (ext w1)"
      using send [OF Suc.prems(4)] by blast
    let ?sent = "if rc = BC_OK then Suc sent else sent"
    let ?w = "emit (Sent (peer_pubkey ?p) (take len data) rc) w1"
    have "\<exists>rcs w'. forward_from send peers cnt fanout data len (Suc i) ?sent ?w
        = Some (?sent + oks rcs, w') \<and> length rcs \<le> cnt - Suc i \<and> ?sent + oks rcs \<le> fanout \<and>
      (?sent + oks rcs = fanout \<or> length rcs = cnt - Suc i) \<and>
      w_trace w' = w_trace ?w @ sends (take len data) (drop (Suc i) peers) rcs \<and>
      w_live w' = w_live ?w \<and> oracles w' = oracles ?w \<and> J (ext w')"
      using Suc.hyps(2) Suc.prems True s i by (intro Suc.hyps(1)) auto
    then obtain rcs w' where
      r: "forward_from send peers cnt fanout data len (Suc i) ?sent ?w = Some (?sent + oks rcs, w')"
         "length rcs \<le> cnt - Suc i" "?sent + oks rcs \<le> fanout"
         "?sent + oks rcs = fanout \<or> length rcs = cnt - Suc i"
         "w_trace w' = w_trace ?w @ sends (take len data) (drop (Suc i) peers) rcs"
         "w_live w' = w_live ?w" "oracles w' = oracles ?w" "J (ext w')"
      by blast
    have "forward_from send peers cnt fanout data len i sent w = Some (sent + oks (rc # rcs), w')"
      using True i s r(1) by (subst forward_from.simps) (simp add: mem_simps)
    moreover have "drop i peers = ?p # drop (Suc i) peers"
      using i by (simp add: Cons_nth_drop_Suc)
    ultimately show ?thesis
      using r s(2) i by (intro exI [of _ "rc # rcs"] exI [of _ w']) (auto simp: sends_def quiet_def)
  qed
qed

text \<open>What \<open>forward_to_peers\<close> adds to the trace, given the result codes of its calls.\<close>

definition gossiped :: "'a bc_router \<Rightarrow> bytes \<Rightarrow> bc_err list \<Rightarrow> bool" where
  "gossiped r data rcs \<longleftrightarrow>
     length rcs \<le> r_peer_count r \<and> oks rcs \<le> unat (cfg_fanout (r_config r)) \<and>
     (if r_transport r = None \<or> (\<exists>t. r_transport r = Some t \<and> tr_send t = None) then rcs = []
      else oks rcs = unat (cfg_fanout (r_config r)) \<or> length rcs = r_peer_count r)"

lemma sends_known:
  assumes "length rcs \<le> r_peer_count r"
  shows "sends data (r_peers r) rcs = sends data (known_peers r) rcs"
  using assms by (simp add: sends_def known_peers_def zip_take_long)

definition has_store :: "'a bc_router \<Rightarrow> bool" where
  "has_store r \<longleftrightarrow> (\<exists>s. r_storage r = Some s \<and> st_store_message s \<noteq> None)"

context router_ports
begin

lemma forward_to_peers_ok:
  assumes "router_wf r" "len \<le> length data" "J (ext w)"
  shows "\<exists>rcs w'. forward_to_peers r data len w
        = Some (if oks rcs > 0 then BC_OK else BC_ERR_TRANSPORT, w') \<and>
      gossiped r (take len data) rcs \<and>
      w_trace w' = w_trace w @ sends (take len data) (known_peers r) rcs \<and>
      w_live w' = w_live w \<and> oracles w' = oracles w \<and> J (ext w')"
proof (cases "r_transport r = None \<or> (\<exists>t. r_transport r = Some t \<and> tr_send t = None)")
  case True
  then show ?thesis
    using assms(3)
    by (intro exI [of _ "[]"] exI [of _ w]) (auto simp: forward_to_peers_def gossiped_def sends_def)
next
  case False
  then obtain t send where t: "r_transport r = Some t" "tr_send t = Some send" by auto
  let ?f = "unat (cfg_fanout (r_config r))"
  have "\<exists>rcs w'. forward_from send (r_peers r) (r_peer_count r) ?f data len 0 0 w = Some (0 + oks rcs, w') \<and>
    length rcs \<le> r_peer_count r - 0 \<and> 0 + oks rcs \<le> ?f \<and>
    (0 + oks rcs = ?f \<or> length rcs = r_peer_count r - 0) \<and>
    w_trace w' = w_trace w @ sends (take len data) (drop 0 (r_peers r)) rcs \<and>
    w_live w' = w_live w \<and> oracles w' = oracles w \<and> J (ext w')"
    using assms transport_port.send_ok [OF transport [OF t(1)] t(2) assms(2)]
    by (intro forward_from_spec) (auto simp: router_wf_def)
  then obtain rcs w' where
    "forward_from send (r_peers r) (r_peer_count r) ?f data len 0 0 w = Some (oks rcs, w')"
    "length rcs \<le> r_peer_count r" "oks rcs \<le> ?f" "oks rcs = ?f \<or> length rcs = r_peer_count r"
    "w_trace w' = w_trace w @ sends (take len data) (r_peers r) rcs" "w_live w' = w_live w"
    "oracles w' = oracles w" "J (ext w')"
    by auto
  then show ?thesis
    by (intro exI [of _ rcs] exI [of _ w'])
      (simp add: forward_to_peers_def t gossiped_def sends_known)
qed

text \<open>
  Serialise and forward: either the allocation fails and nothing is sent, or the wire form of the
  message is gossiped. The buffer is freed in both cases.
\<close>

lemma forward_message_ok:
  assumes "router_wf r" "storable m" "J (ext w)"
  shows "\<exists>w'. forward_message r m w = Some w' \<and> w_live w' = w_live w \<and> oracles w' = oracles w \<and> J (ext w') \<and>
    (w_trace w' = w_trace w \<and> \<not> w_heap w (w_nalloc w) (93 + msg_payload_len m) \<or>
     (\<exists>rcs. gossiped r (wire m) rcs \<and> w_trace w' = w_trace w @ sends (wire m) (known_peers r) rcs))"
proof -
  have wf: "message_wf m" and fit: "93 + msg_payload_len m < 2 ^ 64"
    using assms(2) by (simp_all add: storable_def)
  let ?n = "93 + msg_payload_len m"
  have ser: "bc_message_serialize (Some m) (Some (replicate ?n 0)) ?n (Some 0)
      = Some (BC_OK, Some (wire m), Some ?n)"
    using serialize_ok [OF wf fit order.refl, of "replicate ?n 0" 0] by simp
  obtain ok w1 where m: "c_malloc ?n w = (ok, w1)" by force
  then have w1: "w_trace w1 = w_trace w" "ext w1 = ext w" "oracles w1 = oracles w"
      "w_live w1 = w_live w + (if ok then 1 else 0)"
      "\<not> ok \<Longrightarrow> \<not> w_heap w (w_nalloc w) ?n"
    by (auto simp: c_malloc_def oracles_def split: if_splits)
  show ?thesis
  proof (cases ok)
    case False
    with m w1 fit assms(3) show ?thesis by (simp add: forward_message_def Let_def)
  next
    case True
    have "?n \<le> length (wire m)" "J (ext w1)" using wire_length [OF wf] w1 assms(3) by simp_all
    from forward_to_peers_ok [OF assms(1) this] obtain rcs w' where
      "forward_to_peers r (wire m) ?n w1 = Some (if oks rcs > 0 then BC_OK else BC_ERR_TRANSPORT, w')"
      "gossiped r (take ?n (wire m)) rcs" "w_trace w' = w_trace w1 @ sends (take ?n (wire m)) (known_peers r) rcs"
      "w_live w' = w_live w1" "oracles w' = oracles w1" "J (ext w')"
      by blast
    with True m w1 fit ser wire_length [OF wf] show ?thesis
      by (auto simp: forward_message_def Let_def)
  qed
qed

lemma store_if_present_ok:
  assumes "storable m" "J (ext w)"
  shows "\<exists>w' es. store_if_present r m w = Some w' \<and> w_trace w' = w_trace w @ es \<and>
    w_live w' = w_live w \<and> oracles w' = oracles w \<and> J (ext w') \<and>
    (if has_store r then \<exists>rc. es = [Stored m rc] else es = [])"
proof (cases "\<exists>s f. r_storage r = Some s \<and> st_store_message s = Some f")
  case True
  then obtain s f where s: "r_storage r = Some s" "st_store_message s = Some f" by blast
  from storage_port.store_ok [OF storage [OF s(1)] s(2) assms]
  obtain rc w' where "f m w = Some (rc, w')" "quiet w w'" "J (ext w')" by blast
  with s show ?thesis by (auto simp: store_if_present_def quiet_def has_store_def)
next
  case False
  with assms show ?thesis
    by (auto simp: store_if_present_def has_store_def split: option.split intro!: exI [of _ "[]"])
qed

end


section \<open>Receiving\<close>

definition seen :: "'a bc_router \<Rightarrow> bytes \<Rightarrow> bool" where
  "seen r u \<longleftrightarrow> dedup_contains (r_dedup_table r) (r_dedup_cap r) u = Some True"

text \<open>Two router states that differ in the deduplication table only.\<close>

definition same_but_seen :: "'a bc_router \<Rightarrow> 'a bc_router \<Rightarrow> bool" where
  "same_but_seen r r' \<longleftrightarrow> (\<exists>tab. r' = r\<lparr>r_dedup_table := tab\<rparr>)"

lemma same_but_seen_ports: "same_but_seen r r' \<Longrightarrow> router_ports J r \<Longrightarrow> router_ports J r'"
  by (auto simp: same_but_seen_def intro: router_ports_cong)

lemma same_but_seen_frame:
  assumes "same_but_seen r r'"
  shows "r_transport r' = r_transport r" "r_storage r' = r_storage r" "r_config r' = r_config r"
    "r_local_pubkey r' = r_local_pubkey r" "known_peers r' = known_peers r"
    "r_peer_count r' = r_peer_count r" "r_on_message r' = r_on_message r"
    "r_on_message_userdata r' = r_on_message_userdata r" "gossiped r' d rcs = gossiped r d rcs"
    "r_last_sf_tick r' = r_last_sf_tick r" "r_dedup_cap r' = r_dedup_cap r"
  using assms by (auto simp: same_but_seen_def known_peers_def gossiped_def)

lemma not_seen:
  assumes "router_wf r" "length u = 16" "\<not> seen r u"
  shows "dedup_contains (r_dedup_table r) (r_dedup_cap r) u = Some False"
  using assms dc.member_total [of "r_dedup_table r" "r_dedup_cap r" u]
  by (auto simp: seen_def router_wf_def)

lemma router_mark_ok:
  assumes "router_wf r" "length u = 16"
  obtains r' where "router_mark r u w = Some (r', snd (c_time w))" "router_wf r'" "seen r' u"
    "same_but_seen r r'"
proof -
  have wf: "dedup_wf (r_dedup_table r) (r_dedup_cap r)" using assms(1) by (simp add: router_wf_def)
  from dedup_insert_total [OF wf assms(2)] obtain tab' where
    t: "dedup_insert (r_dedup_table r) (r_dedup_cap r) (cfg_dedup_max_age (r_config r)) u w
      = Some (tab', snd (c_time w))" "dedup_wf tab' (r_dedup_cap r)" .
  show ?thesis
  proof
    show "router_mark r u w = Some (r\<lparr>r_dedup_table := tab'\<rparr>, snd (c_time w))"
      by (simp add: router_mark_def t)
    show "router_wf (r\<lparr>r_dedup_table := tab'\<rparr>)"
      using assms(1) t(2) by (simp add: router_wf_def known_peers_def)
    show "seen (r\<lparr>r_dedup_table := tab'\<rparr>) u"
      using dc.ins_member [OF wf assms(2) t(1)] by (simp add: seen_def)
  qed (auto simp: same_but_seen_def)
qed

text \<open>
  The branches before anything is sent, for a packet that decodes to \<open>m\<close>.
\<close>

lemma receive_undecodable:
  assumes "0 < n" "bc_message_deserialize (Some d) n w = Some (None, w1)"
  shows "bc_router_receive (Some r) (Some d) n w = Some (BC_ERR_INVALID, Some r, w1)"
  using assms by (simp add: bc_router_receive_def)

lemma receive_duplicate:
  assumes "0 < n" "bc_message_deserialize (Some d) n w = Some (Some m, w1)" "seen r (msg_uuid m)"
  shows "bc_router_receive (Some r) (Some d) n w
    = Some (BC_ERR_DUPLICATE, Some r, bc_message_destroy (Some m) w1)"
  using assms by (simp add: bc_router_receive_def seen_def)

lemma receive_expired:
  assumes "0 < n" "bc_message_deserialize (Some d) n w = Some (Some m, w1)" "router_wf r"
    "length (msg_uuid m) = 16" "\<not> seen r (msg_uuid m)" "msg_ttl m = 0"
    "router_mark r (msg_uuid m) w1 = Some (r', w2)"
  shows "bc_router_receive (Some r) (Some d) n w
    = Some (BC_ERR_TTL_EXPIRED, Some r', bc_message_destroy (Some m) w2)"
  using assms not_seen [OF assms(3-5)] by (simp add: bc_router_receive_def)

lemma receive_live:
  assumes "0 < n" "bc_message_deserialize (Some d) n w = Some (Some m, w1)" "router_wf r"
    "length (msg_uuid m) = 16" "\<not> seen r (msg_uuid m)" "msg_ttl m \<noteq> 0"
    "router_mark r (msg_uuid m) w1 = Some (r', w2)"
  shows "bc_router_receive (Some r) (Some d) n w =
    (let m' = m\<lparr>msg_ttl := msg_ttl m - 1\<rparr> in
     if memeq 32 (msg_receiver_pubkey m) (r_local_pubkey r') then do {
       w \<leftarrow> (case r_on_message r' of None \<Rightarrow> Some w2
              | Some cb \<Rightarrow> cb (r_on_message_userdata r') m' (emit (Delivered m') w2));
       Some (BC_OK, Some r', bc_message_destroy (Some m') w) }
     else do {
       w \<leftarrow> store_if_present r' m' w2;
       w \<leftarrow> forward_message r' m' w;
       Some (BC_OK, Some r', bc_message_destroy (Some m') w) })"
  using assms not_seen [OF assms(3-5)]
  by (simp add: bc_router_receive_def Let_def BC_PUBKEY_SIZE_def)

lemma decoded_storable:
  assumes "bc_message_deserialize (Some d) n w = Some (Some m, w1)" "n \<le> length d" "length d < 2 ^ 31"
  shows "storable m" "length (msg_uuid m) = 16" "length (msg_receiver_pubkey m) = 32"
    "w_live w1 = w_live w + msg_blocks m" "w_trace w1 = w_trace w" "ext w1 = ext w" "0 < n"
    "oracles w1 = oracles w" "m = decode d"
proof -
  have m: "m = decode d" "93 + wire_plen d \<le> length d" "w_live w1 = w_live w + msg_blocks m"
    "w_trace w1 = w_trace w" "ext w1 = ext w" "93 \<le> n" "oracles w1 = oracles w"
    using deserialize_Some [OF assms(1,2)] by simp_all
  moreover from this have "message_wf m" by (simp add: decode_wf)
  moreover have "msg_payload_len m < 2 ^ 31" using m assms(3) by (simp add: decode_def)
  ultimately show "storable m" "length (msg_uuid m) = 16" "length (msg_receiver_pubkey m) = 32"
    "w_live w1 = w_live w + msg_blocks m" "w_trace w1 = w_trace w" "ext w1 = ext w" "0 < n"
    "oracles w1 = oracles w" "m = decode d"
    by (simp_all add: storable_def message_wf_def size_defs)
qed

lemma storable_ttl [simp]: "storable (m\<lparr>msg_ttl := t\<rparr>) = storable m"
  by (simp add: storable_def)

lemma msg_blocks_ttl [simp]: "msg_blocks (m\<lparr>msg_ttl := t\<rparr>) = msg_blocks m"
  by (simp add: msg_blocks_def)

text \<open>A message for this node: the callback gets it, with one hop less, and nothing is sent on.\<close>

lemma receive_local:
  assumes ports: "router_ports J r" and wf: "router_wf r" and J: "J (ext w)"
    and d: "bc_message_deserialize (Some d) n w = Some (Some m, w1)" "n \<le> length d" "length d < 2 ^ 31"
    and new: "\<not> seen r (msg_uuid m)" "msg_ttl m \<noteq> 0" and us: "msg_receiver_pubkey m = r_local_pubkey r"
  shows "\<exists>r' w' es. bc_router_receive (Some r) (Some d) n w = Some (BC_OK, Some r', w') \<and>
    router_wf r' \<and> same_but_seen r r' \<and> seen r' (msg_uuid m) \<and> J (ext w') \<and>
    w_trace w' = w_trace w @ es \<and>
    (if r_on_message r = None then es = [] \<and> w_live w' = w_live w
     else \<exists>us. es = Delivered (m\<lparr>msg_ttl := msg_ttl m - 1\<rparr>) # us \<and> (\<forall>e\<in>set us. to_user e))"
proof -
  note m = decoded_storable [OF d]
  let ?m = "m\<lparr>msg_ttl := msg_ttl m - 1\<rparr>"
  obtain r' where r': "router_mark r (msg_uuid m) w1 = Some (r', snd (c_time w1))"
      "router_wf r'" "seen r' (msg_uuid m)" "same_but_seen r r'"
    using router_mark_ok [OF wf m(2)] .
  note fr = same_but_seen_frame [OF r'(4)]
  note rl = receive_live [OF m(7) d(1) wf m(2) new r'(1)]
  show ?thesis
  proof (cases "r_on_message r")
    case None
    with rl r' m us fr J show ?thesis by (auto simp: Let_def)
  next
    case (Some cb)
    let ?w = "emit (Delivered ?m) (snd (c_time w1))"
    have "storable ?m" "J (ext ?w)" using m J by simp_all
    from callback_port.callback_ok [OF router_ports.callback [OF ports Some] this]
    obtain w2 es where "cb (r_on_message_userdata r) ?m ?w = Some w2" "w_trace w2 = w_trace ?w @ es"
        "\<forall>e\<in>set es. to_user e" "J (ext w2)"
      by blast
    with rl r' m us fr Some show ?thesis by (auto simp: Let_def)
  qed
qed

text \<open>
  A message for another node: it is persisted first, then its wire form with one hop less is
  gossiped; the heap is as before.
\<close>

lemma receive_relay:
  assumes ports: "router_ports J r" and wf: "router_wf r" and J: "J (ext w)"
    and d: "bc_message_deserialize (Some d) n w = Some (Some m, w1)" "n \<le> length d" "length d < 2 ^ 31"
    and new: "\<not> seen r (msg_uuid m)" "msg_ttl m \<noteq> 0" and us: "msg_receiver_pubkey m \<noteq> r_local_pubkey r"
  shows "\<exists>r' w' st fw. bc_router_receive (Some r) (Some d) n w = Some (BC_OK, Some r', w') \<and>
    router_wf r' \<and> same_but_seen r r' \<and> seen r' (msg_uuid m) \<and> J (ext w') \<and> w_live w' = w_live w \<and>
    w_trace w' = w_trace w @ st @ fw \<and>
    (if has_store r then \<exists>rc. st = [Stored (m\<lparr>msg_ttl := msg_ttl m - 1\<rparr>) rc] else st = []) \<and>
    (if \<forall>k. w_heap w k (93 + msg_payload_len m)
     then \<exists>rcs. gossiped r (wire (m\<lparr>msg_ttl := msg_ttl m - 1\<rparr>)) rcs \<and>
        fw = sends (wire (m\<lparr>msg_ttl := msg_ttl m - 1\<rparr>)) (known_peers r) rcs
     else fw = [] \<or> (\<exists>rcs. gossiped r (wire (m\<lparr>msg_ttl := msg_ttl m - 1\<rparr>)) rcs \<and>
        fw = sends (wire (m\<lparr>msg_ttl := msg_ttl m - 1\<rparr>)) (known_peers r) rcs))"
proof -
  note m = decoded_storable [OF d]
  let ?m = "m\<lparr>msg_ttl := msg_ttl m - 1\<rparr>"
  obtain r' where r': "router_mark r (msg_uuid m) w1 = Some (r', snd (c_time w1))"
      "router_wf r'" "seen r' (msg_uuid m)" "same_but_seen r r'"
    using router_mark_ok [OF wf m(2)] .
  note fr = same_but_seen_frame [OF r'(4)]
  note ports' = same_but_seen_ports [OF r'(4) ports]
  have st: "has_store r' = has_store r" by (simp add: has_store_def fr)
  have "length (r_local_pubkey r) = 32" using wf by (simp add: router_wf_def)
  then have rl: "bc_router_receive (Some r) (Some d) n w = do {
      w \<leftarrow> store_if_present r' ?m (snd (c_time w1)); w \<leftarrow> forward_message r' ?m w;
      Some (BC_OK, Some r', bc_message_destroy (Some ?m) w) }"
    using receive_live [OF m(7) d(1) wf m(2) new r'(1)] us m(3) fr by (simp add: Let_def)
  have sm: "storable ?m" using m(1) by simp
  have J1: "J (ext (snd (c_time w1)))" using m J by simp
  obtain w2 es where w2: "store_if_present r' ?m (snd (c_time w1)) = Some w2"
      "w_trace w2 = w_trace w @ es" "w_live w2 = w_live w + msg_blocks m" "oracles w2 = oracles w" "J (ext w2)"
      "if has_store r then \<exists>rc. es = [Stored ?m rc] else es = []"
    using router_ports.store_if_present_ok [OF ports' sm J1] m st by auto
  obtain w3 where w3: "forward_message r' ?m w2 = Some w3" "w_live w3 = w_live w2" "J (ext w3)"
      "w_trace w3 = w_trace w2 \<and> \<not> w_heap w2 (w_nalloc w2) (93 + msg_payload_len ?m) \<or>
       (\<exists>rcs. gossiped r' (wire ?m) rcs \<and> w_trace w3 = w_trace w2 @ sends (wire ?m) (known_peers r') rcs)"
    using router_ports.forward_message_ok [OF ports' r'(2) sm w2(5)] by blast
  from w3(4) obtain fw where fw: "w_trace w3 = w_trace w2 @ fw"
      "fw = [] \<and> \<not> w_heap w (w_nalloc w2) (93 + msg_payload_len m) \<or>
       (\<exists>rcs. gossiped r (wire ?m) rcs \<and> fw = sends (wire ?m) (known_peers r) rcs)"
    using oracles_heap [OF w2(4)] by (auto simp: fr)
  show ?thesis
    by (rule exI [of _ r'], rule exI [of _ "bc_message_destroy (Some ?m) w3"], rule exI [of _ es],
        rule exI [of _ fw])
      (use rl w2 w3 fw r' in auto)
qed


section \<open>Broadcasting\<close>

lemma broadcast_ok:
  assumes ports: "router_ports J r" and wf: "router_wf r" and J: "J (ext w)" and m: "storable m"
  shows "\<exists>rc r' w' fw st. bc_router_broadcast (Some r) (Some m) w = Some (rc, Some r', w') \<and>
    router_wf r' \<and> same_but_seen r r' \<and> seen r' (msg_uuid m) \<and> J (ext w') \<and> w_live w' = w_live w \<and>
    w_trace w' = w_trace w @ fw @ st \<and>
    (if w_heap w (w_nalloc w) (93 + msg_payload_len m)
     then rc = BC_OK \<and> (\<exists>rcs. gossiped r (wire m) rcs \<and> fw = sends (wire m) (known_peers r) rcs) \<and>
        (if has_store r then \<exists>rc. st = [Stored m rc] else st = [])
     else rc = BC_ERR_NOMEM \<and> fw = [] \<and> st = [])"
proof -
  have wfm: "message_wf m" and fit: "93 + msg_payload_len m < 2 ^ 64" and u: "length (msg_uuid m) = 16"
    using m by (simp_all add: storable_def message_wf_def size_defs)
  let ?n = "93 + msg_payload_len m"
  obtain r' where r': "router_mark r (msg_uuid m) w = Some (r', snd (c_time w))"
      "router_wf r'" "seen r' (msg_uuid m)" "same_but_seen r r'"
    using router_mark_ok [OF wf u] .
  note fr = same_but_seen_frame [OF r'(4)]
  note ports' = same_but_seen_ports [OF r'(4) ports]
  have ser: "bc_message_serialize (Some m) (Some (replicate ?n 0)) ?n (Some 0)
      = Some (BC_OK, Some (wire m), Some ?n)"
    using serialize_ok [OF wfm fit order.refl, of "replicate ?n 0" 0] by simp
  let ?w = "snd (c_time w)"
  have h: "fst (c_malloc ?n ?w) = w_heap w (w_nalloc w) ?n"
    by (simp add: c_malloc_def c_time_def)
  obtain ok w1 where mal: "c_malloc ?n ?w = (ok, w1)" by force
  then have w1: "w_trace w1 = w_trace w" "ext w1 = ext w" "w_live w1 = w_live w + (if ok then 1 else 0)"
      "ok = w_heap w (w_nalloc w) ?n"
    using h c_malloc_frame [of ?n ?w] by simp_all
  show ?thesis
  proof (cases ok)
    case False
    with mal w1 fit r' J show ?thesis by (simp add: bc_router_broadcast_def Let_def)
  next
    case True
    have "?n \<le> length (wire m)" "J (ext w1)" using wire_length [OF wfm] w1 J by simp_all
    from router_ports.forward_to_peers_ok [OF ports' r'(2) this] wire_length [OF wfm]
    obtain rcs w2 where w2: "forward_to_peers r' (wire m) ?n w1
          = Some (if oks rcs > 0 then BC_OK else BC_ERR_TRANSPORT, w2)"
        "gossiped r (wire m) rcs" "w_trace w2 = w_trace w @ sends (wire m) (known_peers r) rcs"
        "w_live w2 = w_live w1" "J (ext w2)"
      by (auto simp: fr w1)
    obtain w3 es where w3: "store_if_present r' m w2 = Some w3" "w_trace w3 = w_trace w2 @ es"
        "w_live w3 = w_live w2" "J (ext w3)" "if has_store r then \<exists>rc. es = [Stored m rc] else es = []"
      using router_ports.store_if_present_ok [OF ports' m w2(5)] by (auto simp: fr has_store_def)
    have "bc_router_broadcast (Some r) (Some m) w = Some (BC_OK, Some r', c_free w3)"
      using r'(1) mal True fit ser w2(1) w3(1) by (simp add: bc_router_broadcast_def Let_def)
    with True w1 w2 w3 r' show ?thesis
      by (intro exI [of _ BC_OK] exI [of _ r'] exI [of _ "c_free w3"]
          exI [of _ "sends (wire m) (known_peers r) rcs"] exI [of _ es]) auto
  qed
qed

section \<open>The peer table\<close>


lemma router_wf_peers:
  "router_wf r \<longleftrightarrow> dedup_wf (r_dedup_table r) (r_dedup_cap r) \<and> length (r_local_pubkey r) = 32 \<and>
     length (r_peers r) = 64 \<and> r_peer_count r \<le> 64 \<and> peers_wf (known_peers r)"
  by (auto simp: router_wf_def peers_wf_def known_peers_def)

definition router_add :: "bc_peer \<Rightarrow> 'a bc_router \<Rightarrow> 'a world_scheme \<Rightarrow> ('a bc_router \<times> 'a world_scheme) option" where
  "router_add p r w = do { (ro, w) \<leftarrow> bc_router_add_peer (Some r) (Some p) w; r \<leftarrow> ro; Some (r, w) }"

lemma add_peer_old:
  assumes wf: "router_wf r" "peer_wf p" and i: "i < length (known_peers r)"
    "peer_pubkey (known_peers r ! i) = peer_pubkey p"
  shows "bc_router_add_peer (Some r) (Some p) w =
    Some (Some (r\<lparr>r_peers := (r_peers r)[i := touched p w]\<rparr>), snd (c_time w))"
proof -
  have c: "i < r_peer_count r" "length (r_peers r) = 64" "r_peer_count r \<le> 64"
    using wf(1) i(1) by (simp_all add: router_wf_def known_peers_def)
  have "find (\<lambda>k. peer_pubkey (r_peers r ! k) = peer_pubkey p) [0..<r_peer_count r] = Some i"
  proof (rule find_upt_Some)
    show "peer_pubkey (r_peers r ! i) = peer_pubkey p" using i c by (simp add: known_peers_def)
    fix j assume "j < r_peer_count r" "peer_pubkey (r_peers r ! j) = peer_pubkey p"
    then show "j = i" using wf(1) i c
      by (intro nth_key_eq [of peer_pubkey "known_peers r"]) (auto simp: known_peers_def router_wf_def)
  qed (use c in simp)
  then show ?thesis
    using wf c find_peer_from_spec [of "r_peer_count r" "r_peers r" 0 "peer_pubkey p"]
    by (simp add: bc_router_add_peer_def mem_simps router_wf_def known_peers_def peer_wf_def size_defs Let_def)
qed

lemma add_peer_new:
  assumes wf: "router_wf r" "peer_wf p" and new: "peer_pubkey p \<notin> peer_keys (known_peers r)"
  shows "bc_router_add_peer (Some r) (Some p) w =
    Some (Some (if r_peer_count r < 64
      then r\<lparr>r_peers := (r_peers r)[r_peer_count r := p], r_peer_count := Suc (r_peer_count r)\<rparr> else r), w)"
proof -
  have c: "length (r_peers r) = 64" "r_peer_count r \<le> 64" using wf(1) by (simp_all add: router_wf_def)
  have "find (\<lambda>k. peer_pubkey (r_peers r ! k) = peer_pubkey p) [0..<r_peer_count r] = None"
    using new c by (auto simp: find_None_iff peer_keys_def known_peers_def image_iff)
      (metis in_set_take_conv_nth min.absorb1)
  then show ?thesis
    using wf c find_peer_from_spec [of "r_peer_count r" "r_peers r" 0 "peer_pubkey p"]
    by (simp add: bc_router_add_peer_def mem_simps router_wf_def known_peers_def peer_wf_def size_defs Let_def)
qed

text \<open>The router's peer table is a \<open>peer_table\<close>; a refresh replaces the entry and sets its time.\<close>

interpretation rt: peer_table router_wf known_peers router_add "\<lambda>_ p w. touched p w"
proof unfold_locales
  fix r :: "'a bc_router" and p :: bc_peer and w :: "'a world_scheme" and i
  assume wf: "router_wf r" and p: "peer_wf p"
  have c: "length (r_peers r) = 64" "r_peer_count r \<le> 64" using wf by (simp_all add: router_wf_def)
  show "peer_pubkey p \<notin> peer_keys (known_peers r) \<Longrightarrow> \<exists>r' w'. router_add p r w = Some (r', w') \<and>
      router_wf r' \<and> known_peers r' = (if length (known_peers r) < 64 then known_peers r @ [p] else known_peers r)"
    using add_peer_new [OF wf p, of w] wf p c peers_wf_append [of "known_peers r" p]
    by (auto simp: router_add_def router_wf_peers known_peers_def take_Suc_conv_app_nth)
  assume i: "i < length (known_peers r)" "peer_pubkey (known_peers r ! i) = peer_pubkey p"
  have "known_peers (r\<lparr>r_peers := (r_peers r)[i := touched p w]\<rparr>) = (known_peers r)[i := touched p w]"
    using i c by (simp add: known_peers_def take_update_swap)
  then show "\<exists>r' w'. router_add p r w = Some (r', w') \<and> router_wf r' \<and>
      known_peers r' = (known_peers r)[i := touched p w]"
    using add_peer_old [OF wf p i, of w] wf p i peers_wf_update [of "known_peers r" "touched p w" i]
    by (auto simp: router_add_def router_wf_peers)
qed (auto simp: router_wf_peers)

section \<open>Life cycle\<close>

lemma create_ok:
  assumes "length lk = 32" "\<And>c. config = Some c \<Longrightarrow> 0 < cfg_dedup_cap c"
    "bc_router_create t s (Some lk) config w = Some (Some r, w')"
  shows "router_wf r" "r_transport r = t" "r_storage r = s" "r_local_pubkey r = lk"
    "r_on_message r = None" "known_peers r = []" "w_trace w' = w_trace w" "ext w' = ext w"
    "w_live (bc_router_destroy (Some r) w') = w_live w"
    "r_dedup_table r = replicate (r_dedup_cap r) entry_zero"
proof -
  define cfg where "cfg = (case config of Some c \<Rightarrow> c
    | None \<Rightarrow> \<lparr>cfg_fanout = BC_DEFAULT_FANOUT, cfg_dedup_cap = BC_DEFAULT_DEDUP_CAP,
               cfg_dedup_max_age = BC_DEFAULT_DEDUP_AGE\<rparr>)"
  have cap: "0 < cfg_dedup_cap cfg"
    using assms(2) by (auto simp: cfg_def BC_DEFAULT_DEDUP_CAP_def split: option.splits)
  have r: "r = \<lparr>r_transport = t, r_storage = s, r_config = cfg, r_local_pubkey = lk,
      r_dedup_table = replicate (cfg_dedup_cap cfg) entry_zero, r_dedup_cap = cfg_dedup_cap cfg,
      r_peers = replicate BC_MAX_PEERS peer_zero, r_peer_count = 0,
      r_on_message = None, r_on_message_userdata = 0, r_last_sf_tick = 0\<rparr>"
    "w' = snd (c_malloc (cfg_dedup_cap cfg * sizeof_dedup_entry) (snd (c_malloc sizeof_router w)))"
    "w_live w' = w_live w + 2"
    using assms(1,3)
    by (auto simp: bc_router_create_def Let_def cfg_def [symmetric] mem_simps size_defs case_prod_beta
        split: if_splits)
  show "router_wf r" "r_transport r = t" "r_storage r = s" "r_local_pubkey r = lk"
    "r_on_message r = None" "known_peers r = []" "w_trace w' = w_trace w" "ext w' = ext w"
    "w_live (bc_router_destroy (Some r) w') = w_live w"
    "r_dedup_table r = replicate (r_dedup_cap r) entry_zero"
    using r cap assms(1) dedup_init_wf
    by (simp_all add: router_wf_def known_peers_def size_defs bc_router_destroy_def)
qed

lemma create_unseen:
  assumes "length lk = 32" "\<And>c. config = Some c \<Longrightarrow> 0 < cfg_dedup_cap c"
    "bc_router_create t s (Some lk) config w = Some (Some r, w')" "length u = 16"
  shows "\<not> seen r u"
  using create_ok(1,10) [OF assms(1-3)] assms(4) contains_imp_member
  by (fastforce simp: seen_def router_wf_def dedup_set_def)

text \<open>The router that the default configuration gives.\<close>

definition new_router :: "'a bc_transport option \<Rightarrow> 'a bc_storage option \<Rightarrow> bytes \<Rightarrow> 'a bc_router" where
  "new_router t s lk = \<lparr>r_transport = t, r_storage = s,
     r_config = \<lparr>cfg_fanout = BC_DEFAULT_FANOUT, cfg_dedup_cap = BC_DEFAULT_DEDUP_CAP,
                 cfg_dedup_max_age = BC_DEFAULT_DEDUP_AGE\<rparr>,
     r_local_pubkey = lk, r_dedup_table = replicate BC_DEFAULT_DEDUP_CAP entry_zero,
     r_dedup_cap = BC_DEFAULT_DEDUP_CAP, r_peers = replicate BC_MAX_PEERS peer_zero, r_peer_count = 0,
     r_on_message = None, r_on_message_userdata = 0, r_last_sf_tick = 0\<rparr>"

lemma create_default:
  assumes "length lk = 32"
  shows "bc_router_create t s (Some lk) None w =
    (let (ok, w1) = c_malloc sizeof_router w in
     if \<not> ok then Some (None, w1)
     else let (ok, w2) = c_malloc (BC_DEFAULT_DEDUP_CAP * sizeof_dedup_entry) w1 in
       if \<not> ok then Some (None, c_free w2) else Some (Some (new_router t s lk), w2))"
  using assms
  by (simp add: bc_router_create_def new_router_def mem_simps size_defs Let_def case_prod_beta)

lemma new_router_wf:
  assumes "length lk = 32"
  shows "router_wf (new_router t s lk)" "known_peers (new_router t s lk) = []"
    "length u = 16 \<Longrightarrow> \<not> seen (new_router t s lk) u"
proof -
  have d: "dedup_wf (replicate BC_DEFAULT_DEDUP_CAP entry_zero) BC_DEFAULT_DEDUP_CAP"
    by (rule dedup_init_wf) (simp add: BC_DEFAULT_DEDUP_CAP_def)
  then show "router_wf (new_router t s lk)" "known_peers (new_router t s lk) = []"
    using assms by (simp_all add: new_router_def router_wf_def known_peers_def size_defs)
  show "length u = 16 \<Longrightarrow> \<not> seen (new_router t s lk) u"
    using contains_imp_member [OF d, of u] by (auto simp: new_router_def seen_def dedup_set_def)
qed

lemma new_router_simps [simp]:
  "r_transport (new_router t s lk) = t" "r_storage (new_router t s lk) = s"
  "r_local_pubkey (new_router t s lk) = lk" "r_on_message (new_router t s lk) = None"
  "r_peer_count (new_router t s lk) = 0"
  by (simp_all add: new_router_def)

lemma set_on_message_wf [simp]:
  "router_wf (r\<lparr>r_on_message := cb, r_on_message_userdata := ud\<rparr>) = router_wf r"
  "seen (r\<lparr>r_on_message := cb, r_on_message_userdata := ud\<rparr>) u = seen r u"
  by (simp_all add: router_wf_def known_peers_def seen_def)

section \<open>Every packet is handled\<close>

lemma same_but_seen_refl [simp]: "same_but_seen r r"
  by (auto simp: same_but_seen_def intro!: exI [of _ "r_dedup_table r"])

lemma same_but_seen_trans: "same_but_seen r r' \<Longrightarrow> same_but_seen r' r'' \<Longrightarrow> same_but_seen r r''"
  by (auto simp: same_but_seen_def)

lemma deserialize_total:
  assumes "n \<le> length d" "93 \<le> n \<Longrightarrow> 93 + wire_plen d < 2 ^ 32"
  obtains mo w1 where "bc_message_deserialize (Some d) n w = Some (mo, w1)"
proof (cases "n < 93")
  case True
  with that show ?thesis by (simp add: deserialize_short)
next
  case False
  with assms have "bc_message_deserialize (Some d) n w \<noteq> None"
    by (auto simp: deserialize_eq Let_def case_prod_beta)
  with that show ?thesis by fast
qed

text \<open>
  The whole effect of a packet that decodes to \<open>m\<close>, as events: none for a duplicate or without hops;
  otherwise the delivery, or a store and a round of gossip with one hop less, where only a lack of
  memory (\<open>\<not> mem\<close>) leaves the gossip out.
\<close>

definition reaction :: "'a bc_router \<Rightarrow> bool \<Rightarrow> bc_message \<Rightarrow> event list \<Rightarrow> bool" where
  "reaction r mem m es \<longleftrightarrow>
     (let m' = m\<lparr>msg_ttl := msg_ttl m - 1\<rparr> in
      if seen r (msg_uuid m) \<or> msg_ttl m = 0 then es = []
      else if msg_receiver_pubkey m = r_local_pubkey r
      then if r_on_message r = None then es = [] else \<exists>us. es = Delivered m' # us \<and> (\<forall>e\<in>set us. to_user e)
      else \<exists>st fw. es = st @ fw \<and> (if has_store r then \<exists>rc. st = [Stored m' rc] else st = []) \<and>
        (fw = [] \<and> \<not> mem \<or> (\<exists>rcs. gossiped r (wire m') rcs \<and> fw = sends (wire m') (known_peers r) rcs)))"

lemma reaction_user: "reaction r mem m es \<Longrightarrow> e \<in> set es \<Longrightarrow> e = UserMessage s p \<Longrightarrow> to_user e"
  by (auto simp: reaction_def Let_def dest: sends_silent split: if_splits)

lemma receive_new:
  assumes ports: "router_ports J r" and wf: "router_wf r" and J: "J (ext w)"
    and d: "bc_message_deserialize (Some d) n w = Some (Some m, w1)" "n \<le> length d" "length d < 2 ^ 31"
    and new: "\<not> seen r (msg_uuid m)" "msg_ttl m \<noteq> 0"
  shows "\<exists>r' w' es. bc_router_receive (Some r) (Some d) n w = Some (BC_OK, Some r', w') \<and>
    router_wf r' \<and> same_but_seen r r' \<and> seen r' (msg_uuid m) \<and> J (ext w') \<and> w_trace w' = w_trace w @ es \<and>
    reaction r (\<forall>k. w_heap w k (93 + msg_payload_len m)) m es"
proof (cases "msg_receiver_pubkey m = r_local_pubkey r")
  case True
  from receive_local [OF ports wf J d new this] obtain r' w' es where
    r: "bc_router_receive (Some r) (Some d) n w = Some (BC_OK, Some r', w')" "router_wf r'" "same_but_seen r r'"
      "seen r' (msg_uuid m)" "J (ext w')" "w_trace w' = w_trace w @ es"
    and es: "if r_on_message r = None then es = [] \<and> w_live w' = w_live w
      else \<exists>us. es = Delivered (m\<lparr>msg_ttl := msg_ttl m - 1\<rparr>) # us \<and> (\<forall>e\<in>set us. to_user e)"
    by blast
  from es True new have "reaction r (\<forall>k. w_heap w k (93 + msg_payload_len m)) m es"
    unfolding reaction_def Let_def by (auto split: if_splits)
  with r show ?thesis by blast
next
  case False
  let ?m = "m\<lparr>msg_ttl := msg_ttl m - 1\<rparr>" and ?mem = "\<forall>k. w_heap w k (93 + msg_payload_len m)"
  from receive_relay [OF ports wf J d new False] obtain r' w' st fw where
    r: "bc_router_receive (Some r) (Some d) n w = Some (BC_OK, Some r', w')" "router_wf r'" "same_but_seen r r'"
      "seen r' (msg_uuid m)" "J (ext w')" "w_trace w' = w_trace w @ st @ fw"
    and st: "if has_store r then \<exists>rc. st = [Stored ?m rc] else st = []"
    and fw: "if ?mem then \<exists>rcs. gossiped r (wire ?m) rcs \<and> fw = sends (wire ?m) (known_peers r) rcs
       else fw = [] \<or> (\<exists>rcs. gossiped r (wire ?m) rcs \<and> fw = sends (wire ?m) (known_peers r) rcs)"
    by blast
  have "fw = [] \<and> \<not> ?mem \<or> (\<exists>rcs. gossiped r (wire ?m) rcs \<and> fw = sends (wire ?m) (known_peers r) rcs)"
    using fw by (cases ?mem) simp_all
  moreover have c: "(seen r (msg_uuid m) \<or> msg_ttl m = 0) = False" "(msg_receiver_pubkey m = r_local_pubkey r) = False"
    using False new by simp_all
  ultimately have "reaction r ?mem m (st @ fw)" unfolding reaction_def Let_def c if_False using st by blast
  with r show ?thesis by blast
qed

lemma receive_decoded:
  assumes ports: "router_ports J r" and wf: "router_wf r" and J: "J (ext w)"
    and d: "bc_message_deserialize (Some d) n w = Some (Some m, w1)" "n \<le> length d" "length d < 2 ^ 31"
  shows "\<exists>rc r' w' es. bc_router_receive (Some r) (Some d) n w = Some (rc, Some r', w') \<and>
    router_wf r' \<and> same_but_seen r r' \<and> seen r' (msg_uuid m) \<and> J (ext w') \<and> w_trace w' = w_trace w @ es \<and>
    reaction r (\<forall>k. w_heap w k (93 + msg_payload_len m)) m es \<and> (seen r (msg_uuid m) \<longrightarrow> r' = r)"
proof -
  note m = decoded_storable [OF d]
  consider "seen r (msg_uuid m)" | "\<not> seen r (msg_uuid m)" "msg_ttl m = 0"
    | "\<not> seen r (msg_uuid m)" "msg_ttl m \<noteq> 0" by blast
  then show ?thesis
  proof cases
    case 1
    with receive_duplicate [OF m(7) d(1) 1] wf J m show ?thesis by (simp add: reaction_def)
  next
    case 2
    obtain r' where "router_mark r (msg_uuid m) w1 = Some (r', snd (c_time w1))"
        "router_wf r'" "seen r' (msg_uuid m)" "same_but_seen r r'"
      using router_mark_ok [OF wf m(2)] .
    with receive_expired [OF m(7) d(1) wf m(2) 2] 2 J m show ?thesis by (simp add: reaction_def)
  next
    case 3
    from receive_new [OF ports wf J d 3] 3(1) show ?thesis by blast
  qed
qed

text \<open>
  A packet whose length field does not overflow the 32-bit check is handled without a fault, and
  the invariant and the ports' state invariant are kept, whatever the packet contains.
\<close>

lemma receive_total:
  assumes ports: "router_ports J r" and wf: "router_wf r" and J: "J (ext w)"
    and d: "n \<le> length d" "length d < 2 ^ 31" "93 \<le> n \<Longrightarrow> 93 + wire_plen d < 2 ^ 32"
  shows "\<exists>rc r' w'. bc_router_receive (Some r) (Some d) n w = Some (rc, Some r', w') \<and>
    router_wf r' \<and> same_but_seen r r' \<and> J (ext w') \<and> grows w w' \<and>
    (\<forall>m w1. bc_message_deserialize (Some d) n w = Some (Some m, w1) \<longrightarrow> seen r' (msg_uuid m))"
proof -
  obtain mo w1 where des: "bc_message_deserialize (Some d) n w = Some (mo, w1)"
    using deserialize_total [OF d(1,3)] .
  show ?thesis
  proof (cases mo)
    case None
    have "ext w1 = ext w" "grows w w1" using des None deserialize_None [of "Some d" n w w1] d(1) by (simp_all add: grows_same)
    moreover have "\<exists>w'. bc_router_receive (Some r) (Some d) n w = Some (BC_ERR_INVALID, Some r, w') \<and> (w' = w \<or> w' = w1)"
      using receive_undecodable [of n d w w1 r] des None by (cases "n = 0") (simp_all add: bc_router_receive_def)
    ultimately show ?thesis using None des wf J by (auto simp: grows_same)
  next
    case (Some m)
    from receive_decoded [OF ports wf J des [unfolded Some] d(1,2)] obtain rc r' w' es where
      r: "bc_router_receive (Some r) (Some d) n w = Some (rc, Some r', w')" "router_wf r'" "same_but_seen r r'"
        "seen r' (msg_uuid m)" "J (ext w')" "w_trace w' = w_trace w @ es"
      and es: "reaction r (\<forall>k. w_heap w k (93 + msg_payload_len m)) m es" by blast
    have "grows w w'" unfolding grows_def using r(6) reaction_user [OF es] by blast
    with r des Some show ?thesis by simp
  qed
qed

section \<open>The maintenance tick\<close>

text \<open>
  The polling loop returns because the transport runs out of datagrams: the invariant carries a
  bound on how many are left, each successful read lowers it and no other call raises it.
\<close>

locale draining_ports =
  fixes J :: "nat \<Rightarrow> 'a \<Rightarrow> bool" and r :: "'a bc_router"
  assumes ports: "router_ports (J k) r"
    and drains: "r_transport r = Some t \<Longrightarrow> draining_transport J t"

lemma draining_ports_cong:
  assumes "draining_ports J r" "r_transport r' = r_transport r" "r_storage r' = r_storage r"
    "r_on_message r' = r_on_message r"
  shows "draining_ports J r'"
  using assms router_ports_cong [OF draining_ports.ports [OF assms(1)] assms(2-4)]
  by (simp add: draining_ports_def)

lemma recv_loop_total:
  assumes "draining_ports J r" "router_wf r" "J k (ext w)" "r_transport r = Some t"
    "tr_recv t = Some g" "length buf = RECV_BUF_SIZE"
  shows "\<exists>r' w' k'. recv_loop g r buf pk w = Some (r', w') \<and> router_wf r' \<and> same_but_seen r r' \<and>
    J k' (ext w') \<and> grows w w'"
  using assms
proof (induction k arbitrary: r buf pk w rule: less_induct)
  case (less k)
  have "\<exists>rc b' n' pk' w1 k1. g buf (length buf) 0 pk w = Some (rc, b', n', pk', w1) \<and>
      length b' = length buf \<and> (rc = BC_OK \<longrightarrow> n' \<le> length buf) \<and> quiet w w1 \<and> J k1 (ext w1) \<and>
      (rc = BC_OK \<and> 0 < n' \<longrightarrow> k1 < k \<and> (93 \<le> n' \<longrightarrow> 93 + wire_plen b' < 2 ^ 32))"
    using draining_transport.recv_ok [OF draining_ports.drains [OF less.prems(1,4)] less.prems(5,3)] .
  then obtain rc b' n' pk' w1 k1 where g: "g buf RECV_BUF_SIZE 0 pk w = Some (rc, b', n', pk', w1)"
      "length b' = RECV_BUF_SIZE" "rc = BC_OK \<longrightarrow> n' \<le> RECV_BUF_SIZE" "J k1 (ext w1)" "quiet w w1"
      "rc = BC_OK \<and> 0 < n' \<longrightarrow> k1 < k \<and> (93 \<le> n' \<longrightarrow> 93 + wire_plen b' < 2 ^ 32)"
    unfolding less.prems(6) by blast
  show ?case
  proof (cases "rc = BC_OK \<and> 0 < n'")
    case False
    with g less.prems(2) quiet_grows [OF g(5)] show ?thesis by (subst recv_loop.simps) auto
  next
    case True
    then have k1: "93 \<le> n' \<Longrightarrow> 93 + wire_plen b' < 2 ^ 32" "k1 < k" "J k1 (ext w1)"
      using g(4,6) by simp_all
    have "n' \<le> length b'" "length b' < 2 ^ 31" using g(2,3) True by (simp_all add: RECV_BUF_SIZE_def)
    from receive_total [OF draining_ports.ports [OF less.prems(1)] less.prems(2) k1(3) this k1(1)]
    obtain rc2 r1 w2 where r1: "bc_router_receive (Some r) (Some b') n' w1 = Some (rc2, Some r1, w2)"
        "router_wf r1" "same_but_seen r r1" "J k1 (ext w2)" "grows w1 w2"
      by blast
    note fr = same_but_seen_frame [OF r1(3)]
    have "draining_ports J r1" by (rule draining_ports_cong [OF less.prems(1)]) (simp_all add: fr)
    moreover have "r_transport r1 = Some t" using less.prems(4) by (simp add: fr)
    ultimately obtain r' w' k' where "recv_loop g r1 b' pk' w2 = Some (r', w')" "router_wf r'"
        "same_but_seen r1 r'" "J k' (ext w')" "grows w2 w'"
      using less.IH [OF k1(2) _ r1(2,4) _ less.prems(5) g(2)] by blast
    moreover from this have "grows w w'" using quiet_grows [OF g(5)] r1(5) grows_trans by blast
    ultimately show ?thesis using True g r1 same_but_seen_trans by (subst recv_loop.simps) auto
  qed
qed

text \<open>
  The events one stored message causes in a re-broadcast; without memory for the buffer there are
  none.
\<close>

definition heap_ok :: "'a world_scheme \<Rightarrow> bool" where
  "heap_ok w \<longleftrightarrow> (\<forall>k s. w_heap w k s)"

definition gossip_of :: "bool \<Rightarrow> 'a bc_router \<Rightarrow> bc_message \<Rightarrow> event list \<Rightarrow> bool" where
  "gossip_of ok r m es \<longleftrightarrow>
     \<not> ok \<and> es = [] \<or> (\<exists>rcs. gossiped r (wire m) rcs \<and> es = sends (wire m) (known_peers r) rcs)"

lemma gossip_grows: "list_all2 (gossip_of ok r) ms ess \<Longrightarrow> w_trace w' = w_trace w @ concat ess \<Longrightarrow> grows w w'"
proof -
  assume "list_all2 (gossip_of ok r) ms ess"
  then have "\<forall>e\<in>set (concat ess). \<forall>s p. e \<noteq> UserMessage s p"
    by (induction rule: list_all2_induct) (auto simp: gossip_of_def dest: sends_silent)
  then show "w_trace w' = w_trace w @ concat ess \<Longrightarrow> grows w w'" unfolding grows_def by blast
qed

context router_ports
begin

lemma forward_message_gossip:
  assumes "router_wf r" "storable m" "J (ext w)"
  shows "\<exists>w' es. forward_message r m w = Some w' \<and> w_live w' = w_live w \<and> oracles w' = oracles w \<and>
    J (ext w') \<and> w_trace w' = w_trace w @ es \<and> gossip_of (heap_ok w) r m es"
proof -
  obtain w' where w': "forward_message r m w = Some w'" "w_live w' = w_live w" "oracles w' = oracles w" "J (ext w')"
    and tr: "w_trace w' = w_trace w \<and> \<not> w_heap w (w_nalloc w) (93 + msg_payload_len m) \<or>
     (\<exists>rcs. gossiped r (wire m) rcs \<and> w_trace w' = w_trace w @ sends (wire m) (known_peers r) rcs)"
    using forward_message_ok [OF assms] by blast
  from tr have "\<exists>es. w_trace w' = w_trace w @ es \<and> gossip_of (heap_ok w) r m es"
    unfolding gossip_of_def heap_ok_def by (metis append_Nil2)
  with w' show ?thesis by blast
qed

lemma rebroadcast_ok:
  assumes "router_wf r" "\<forall>m\<in>set ms. storable m" "J (ext w)"
  shows "\<exists>w' ess. rebroadcast r ms w = Some w' \<and> list_all2 (gossip_of (heap_ok w) r) ms ess \<and>
    w_trace w' = w_trace w @ concat ess \<and> w_live w' = w_live w - (\<Sum>m\<leftarrow>ms. msg_blocks m) \<and> J (ext w')"
  using assms
proof (induction ms arbitrary: w)
  case (Cons m ms)
  then obtain w1 es where w1: "forward_message r m w = Some w1" "w_live w1 = w_live w" "oracles w1 = oracles w"
      "J (ext w1)" "w_trace w1 = w_trace w @ es" "gossip_of (heap_ok w) r m es"
    using forward_message_gossip [of m w] by auto
  let ?w = "bc_message_destroy (Some m) w1"
  have h: "heap_ok ?w = heap_ok w" using oracles_heap [of ?w w] w1(3) by (simp add: heap_ok_def)
  obtain w' ess where "rebroadcast r ms ?w = Some w'" "list_all2 (gossip_of (heap_ok w) r) ms ess"
    "w_trace w' = w_trace ?w @ concat ess" "w_live w' = w_live ?w - (\<Sum>m\<leftarrow>ms. msg_blocks m)" "J (ext w')"
    using Cons.IH [of ?w] Cons.prems w1(4) unfolding h by auto
  with w1 show ?case by (intro exI [of _ w'] exI [of _ "es # ess"]) auto
qed (simp add: exI [of _ "[]"])

text \<open>
  Store-and-forward when it is due: each pending message is gossiped in the order the storage
  returned them, all of them are freed, and only the time of the last re-broadcast changes in the
  router.
\<close>

lemma store_forward_due:
  assumes "router_wf r" "J (ext w)" and s: "r_storage r = Some s" "st_get_pending s = Some g"
    and due: "r_peer_count r > 0" "BC_SF_REBROADCAST_SEC \<le> w_clock w (w_ntime w) - r_last_sf_tick r"
    and g: "g None (snd (c_time w)) = Some (BC_OK, ms, w1)"
  shows "\<exists>w' ess. tick_store_forward r w = Some (r\<lparr>r_last_sf_tick := w_clock w (w_ntime w)\<rparr>, w') \<and>
    (\<forall>m\<in>set ms. storable m) \<and> list_all2 (gossip_of (heap_ok w1) r) ms ess \<and>
    w_trace w' = w_trace w @ concat ess \<and> w_live w' = w_live w \<and> J (ext w')"
proof -
  let ?r = "r\<lparr>r_last_sf_tick := w_clock w (w_ntime w)\<rparr>"
  have pr: "router_ports J ?r" by (rule router_ports_cong [OF router_ports_axioms]) simp_all
  have wfr: "router_wf ?r" using assms(1) by (simp add: router_wf_def known_peers_def)
  have go: "gossip_of b ?r = gossip_of b r" for b
    by (simp add: fun_eq_iff gossip_of_def gossiped_def known_peers_def)
  have p: "\<forall>m\<in>set ms. storable m" "w_live w1 = w_live w + blocks_of ms" "w_trace w1 = w_trace w" "J (ext w1)"
    using storage_port.pending_ok [OF storage [OF s(1)] s(2), of None "snd (c_time w)"] assms(2) g by auto
  from router_ports.rebroadcast_ok [OF pr wfr p(1,4)] obtain w2 ess where w2:
    "rebroadcast ?r ms w1 = Some w2" "list_all2 (gossip_of (heap_ok w1) r) ms ess"
    "w_trace w2 = w_trace w @ concat ess" "w_live w2 = w_live w1 - (\<Sum>m\<leftarrow>ms. msg_blocks m)" "J (ext w2)"
    unfolding go by (auto simp: p)
  let ?w' = "if ms = [] then w2 else c_free w2"
  have "tick_store_forward r w = Some (?r, ?w')"
    using s due g w2(1) by (simp add: tick_store_forward_def c_time_def Let_def)
  moreover have "w_live ?w' = w_live w" using w2(4) p(2) by (simp add: blocks_of_def)
  moreover have "w_trace ?w' = w_trace w @ concat ess" "J (ext ?w')" using w2 by simp_all
  ultimately show ?thesis using p(1) w2(2) by blast
qed

lemma store_forward_idle:
  assumes "\<nexists>s g. r_storage r = Some s \<and> st_get_pending s = Some g \<and> r_peer_count r > 0 \<and>
      BC_SF_REBROADCAST_SEC \<le> w_clock w (w_ntime w) - r_last_sf_tick r"
  shows "tick_store_forward r w = Some (r, snd (c_time w))"
  using assms by (auto simp: tick_store_forward_def c_time_def Let_def split: option.split)

lemma tick_store_forward_total:
  assumes "router_wf r" "J (ext w)"
  shows "\<exists>t w'. tick_store_forward r w = Some (r\<lparr>r_last_sf_tick := t\<rparr>, w') \<and> J (ext w') \<and> grows w w' \<and>
    (t = w_clock w (w_ntime w) \<or> w_trace w' = w_trace w)"
proof (cases "\<exists>s g. r_storage r = Some s \<and> st_get_pending s = Some g \<and> r_peer_count r > 0 \<and>
      BC_SF_REBROADCAST_SEC \<le> w_clock w (w_ntime w) - r_last_sf_tick r")
  case False
  with assms(2) store_forward_idle [of w] show ?thesis
    by (intro exI [of _ "r_last_sf_tick r"] exI [of _ "snd (c_time w)"]) (simp add: grows_same)
next
  case True
  then obtain s g where s: "r_storage r = Some s" "st_get_pending s = Some g" "r_peer_count r > 0"
      "BC_SF_REBROADCAST_SEC \<le> w_clock w (w_ntime w) - r_last_sf_tick r" by blast
  obtain rc ms w1 where g: "g None (snd (c_time w)) = Some (rc, ms, w1)" "J (ext w1)" "w_trace w1 = w_trace w"
    using storage_port.pending_ok [OF storage [OF s(1)] s(2), of None "snd (c_time w)"] assms(2) by auto
  show ?thesis
  proof (cases "rc = BC_OK")
    case True
    from store_forward_due [OF assms s g(1) [unfolded True]] obtain w' ess where
      "tick_store_forward r w = Some (r\<lparr>r_last_sf_tick := w_clock w (w_ntime w)\<rparr>, w')" "J (ext w')"
      "w_trace w' = w_trace w @ concat ess" "list_all2 (gossip_of (heap_ok w1) r) ms ess" by blast
    moreover from this have "grows w w'" using gossip_grows by blast
    ultimately show ?thesis by blast
  next
    case False
    with s g show ?thesis
      by (intro exI [of _ "w_clock w (w_ntime w)"] exI [of _ w1])
        (simp add: tick_store_forward_def c_time_def Let_def grows_same)
  qed
qed

lemma tick_evict_stored_ok:
  assumes "J (ext w)"
  shows "\<exists>w'. tick_evict_stored r w = Some w' \<and> quiet w w' \<and> J (ext w')"
proof (cases "\<exists>s e. r_storage r = Some s \<and> st_evict_expired s = Some e")
  case True
  then obtain s e where s: "r_storage r = Some s" "st_evict_expired s = Some e" by blast
  obtain rc w' where "e (72 * 3600) w = Some (rc, w')" "quiet w w'" "J (ext w')"
    using storage_port.evict_ok [OF storage [OF s(1)] s(2) assms] by blast
  with s show ?thesis by (simp add: tick_evict_stored_def)
qed (use assms in \<open>auto simp: tick_evict_stored_def split: option.split\<close>)

end

text \<open>A tick returns: eviction, the polling loop, store-and-forward and expiry all complete.\<close>

lemma tick_total:
  assumes dp: "draining_ports J r" and wf: "router_wf r" and J: "J k (ext w)"
  shows "\<exists>r' w' k'. bc_router_tick (Some r) w = Some (Some r', w') \<and> router_wf r' \<and> J k' (ext w') \<and> grows w w' \<and>
    draining_ports J r' \<and> known_peers r' = known_peers r \<and> r_local_pubkey r' = r_local_pubkey r \<and>
    r_transport r' = r_transport r \<and> r_storage r' = r_storage r \<and> r_on_message r' = r_on_message r"
proof -
  have dwf: "dedup_wf (r_dedup_table r) (r_dedup_cap r)" using wf by (simp add: router_wf_def)
  obtain tab w1 where ev: "dedup_evict (r_dedup_table r) (r_dedup_cap r)
      (cfg_dedup_max_age (r_config r)) w = Some (tab, w1)" "dedup_wf tab (r_dedup_cap r)" "ext w1 = ext w" "w_trace w1 = w_trace w"
    using dedup_evict_total [OF dwf] .
  let ?r = "r\<lparr>r_dedup_table := tab\<rparr>"
  have wf1: "router_wf ?r" using wf ev(2) by (simp add: router_wf_def known_peers_def)
  have dp1: "draining_ports J ?r" by (rule draining_ports_cong [OF dp]) simp_all
  have "\<exists>r' w' k'. tick_poll ?r w1 = Some (r', w') \<and> router_wf r' \<and> same_but_seen ?r r' \<and> J k' (ext w') \<and> grows w1 w'"
  proof (cases "\<exists>t g. r_transport r = Some t \<and> tr_recv t = Some g")
    case True
    then obtain t g where "r_transport ?r = Some t" "tr_recv t = Some g" by auto
    with recv_loop_total [OF dp1 wf1, of k w1 t g "replicate RECV_BUF_SIZE 0" "replicate BC_PUBKEY_SIZE 0"]
      J ev(3) show ?thesis by (simp add: tick_poll_def)
  next
    case False
    with wf1 J ev(3) show ?thesis
      by (auto simp: tick_poll_def grows_same split: option.split intro!: exI [of _ ?r])
  qed
  then obtain r2 w2 k2 where r2: "tick_poll ?r w1 = Some (r2, w2)" "router_wf r2"
      "same_but_seen ?r r2" "J k2 (ext w2)" "grows w1 w2" by blast
  note fr = same_but_seen_frame [OF r2(3)]
  have dp2: "draining_ports J r2" by (rule draining_ports_cong [OF dp1]) (simp_all add: fr)
  note p2 = draining_ports.ports [OF dp2, of k2]
  from router_ports.tick_store_forward_total [OF p2 r2(2,4)] obtain t w3 where
    r3: "tick_store_forward r2 w2 = Some (r2\<lparr>r_last_sf_tick := t\<rparr>, w3)" "J k2 (ext w3)" "grows w2 w3" by blast
  let ?r3 = "r2\<lparr>r_last_sf_tick := t\<rparr>"
  have dp3: "draining_ports J ?r3" by (rule draining_ports_cong [OF dp2]) simp_all
  from router_ports.tick_evict_stored_ok [OF draining_ports.ports [OF dp3, of k2] r3(2)]
  obtain w4 where w4: "tick_evict_stored ?r3 w3 = Some w4" "quiet w3 w4" "J k2 (ext w4)" by blast
  have "grows w w4"
    using grows_trans [OF grows_trans [OF grows_trans [OF grows_same [OF ev(4)] r2(5)] r3(3)] quiet_grows [OF w4(2)]] .
  have "bc_router_tick (Some r) w = Some (Some ?r3, w4)"
    using ev(1) r2(1) r3(1) w4(1) by (simp add: bc_router_tick_def)
  moreover note \<open>grows w w4\<close>
  moreover have "router_wf ?r3" using r2(2) by (simp add: router_wf_def known_peers_def)
  moreover have "known_peers ?r3 = known_peers r" "r_local_pubkey ?r3 = r_local_pubkey r"
      "r_transport ?r3 = r_transport r" "r_storage ?r3 = r_storage r" "r_on_message ?r3 = r_on_message r"
    using fr(1,2,4,5,7) by (simp_all add: known_peers_def)
  ultimately show ?thesis using w4(3) dp3 by blast
qed

end
