(* ===== verification/Discovery.thy ===== *)
theory Discovery
  imports Peer Ports
begin

text \<open>
  The peer discovery, \<^verbatim>\<open>src/usecase/node_discovery.c\<close>: it asks the transport for the peers in
  range, keeps a table of at most \<open>BC_MAX_PEERS\<close> and reports each new one once.
\<close>

definition sizeof_discovery :: nat where "sizeof_discovery = 3104"

type_synonym 'a on_found_fn = "nat \<Rightarrow> bc_peer \<Rightarrow> 'a world_scheme \<Rightarrow> 'a world_scheme option"

record 'a bc_discovery =
  d_transport :: "'a bc_transport option"
  d_peers :: "bc_peer list"
  d_peer_count :: nat
  d_on_found :: "'a on_found_fn option"
  d_userdata :: nat

definition bc_discovery_create ::
  "'a bc_transport option \<Rightarrow> 'a world_scheme \<Rightarrow> 'a bc_discovery option \<times> 'a world_scheme" where
  "bc_discovery_create transport w =
     (let (ok, w) = c_malloc sizeof_discovery w in
      if \<not> ok then (None, w)
      else (Some \<lparr>d_transport = transport, d_peers = replicate BC_MAX_PEERS peer_zero, d_peer_count = 0,
              d_on_found = None, d_userdata = 0\<rparr>, w))"

definition bc_discovery_on_peer_found ::
  "'a bc_discovery option \<Rightarrow> 'a on_found_fn option \<Rightarrow> nat \<Rightarrow> 'a bc_discovery option" where
  "bc_discovery_on_peer_found disc callback userdata =
     map_option (\<lambda>d. d\<lparr>d_on_found := callback, d_userdata := userdata\<rparr>) disc"

text \<open>One iteration of the scan's loop over the peers found.\<close>

definition scan_one ::
  "bc_peer \<Rightarrow> 'a bc_discovery \<Rightarrow> 'a world_scheme \<Rightarrow> ('a bc_discovery \<times> 'a world_scheme) option" where
  "scan_one p d w =
     do {
       found \<leftarrow> find_peer_from (d_peers d) (d_peer_count d) (peer_pubkey p) 0;
       (case found of
          Some j \<Rightarrow> do {
            q \<leftarrow> mem_get (d_peers d) j;
            let (q, w) = bc_peer_touch (Some q) w;
            q \<leftarrow> q;
            peers \<leftarrow> mem_set (d_peers d) j (q\<lparr>peer_rssi := peer_rssi p\<rparr>);
            Some (d\<lparr>d_peers := peers\<rparr>, w)
          }
        | None \<Rightarrow>
            if d_peer_count d < BC_MAX_PEERS then do {
              peers \<leftarrow> mem_set (d_peers d) (d_peer_count d) p;
              let d = d\<lparr>d_peers := peers, d_peer_count := Suc (d_peer_count d)\<rparr>;
              w \<leftarrow> (case d_on_found d of
                     None \<Rightarrow> Some w
                   | Some cb \<Rightarrow> cb (d_userdata d) p (emit (PeerFound p) w));
              Some (d, w)
            }
            else Some (d, w))
     }"

function scan_from ::
  "bc_peer list \<Rightarrow> nat \<Rightarrow> nat \<Rightarrow> 'a bc_discovery \<Rightarrow> 'a world_scheme \<Rightarrow>
   ('a bc_discovery \<times> 'a world_scheme) option" where
  "scan_from found found_count i d w =
     (if i < found_count then
        do {
          p \<leftarrow> mem_get found i;
          (d, w) \<leftarrow> scan_one p d w;
          scan_from found found_count (Suc i) d w
        }
      else Some (d, w))"
  by pat_completeness auto
termination
  by (relation "measure (\<lambda>(found, found_count, i, d, w). found_count - i)") auto

declare scan_from.simps [simp del]

text \<open>The uninitialised array \<open>found\<close> is modelled as zeros; only the part the transport filled is read.\<close>

definition bc_discovery_scan ::
  "'a bc_discovery option \<Rightarrow> 'a world_scheme \<Rightarrow> (bc_err \<times> 'a bc_discovery option \<times> 'a world_scheme) option" where
  "bc_discovery_scan disc w =
     (case disc of
        None \<Rightarrow> Some (BC_ERR_INVALID, disc, w)
      | Some d \<Rightarrow>
          (case d_transport d of
             None \<Rightarrow> Some (BC_ERR_INVALID, disc, w)
           | Some t \<Rightarrow>
               (case tr_discover_peers t of
                  None \<Rightarrow> Some (BC_ERR_INVALID, disc, w)
                | Some discover \<Rightarrow> do {
                    (rc, found, found_count, w) \<leftarrow>
                      discover (replicate BC_MAX_PEERS peer_zero) BC_MAX_PEERS 0 w;
                    (if rc \<noteq> BC_OK then Some (rc, disc, w)
                     else do {
                       (d, w) \<leftarrow> scan_from found found_count 0 d w;
                       Some (BC_OK, Some d, w)
                     })
                  })))"

definition bc_discovery_get_peers ::
  "'a bc_discovery option \<Rightarrow> bc_peer list option \<Rightarrow> nat \<Rightarrow> (nat \<times> bc_peer list option) option" where
  "bc_discovery_get_peers disc peers_out cap =
     (case (disc, peers_out) of
        (Some d, Some out) \<Rightarrow>
          if cap = 0 then Some (0, peers_out)
          else let n = (if d_peer_count d < cap then d_peer_count d else cap) in
            do { out \<leftarrow> memcpy out 0 (d_peers d) 0 n; Some (n, Some out) }
      | _ \<Rightarrow> Some (0, peers_out))"

definition bc_discovery_destroy :: "'a bc_discovery option \<Rightarrow> 'a world_scheme \<Rightarrow> 'a world_scheme" where
  "bc_discovery_destroy disc w = (case disc of None \<Rightarrow> w | Some _ \<Rightarrow> c_free w)"

section \<open>The discovery keeps a peer table\<close>

definition disc_known :: "'a bc_discovery \<Rightarrow> bc_peer list" where
  "disc_known d = take (d_peer_count d) (d_peers d)"

text \<open>The table is in order, and the callback, if there is one, returns.\<close>

definition disc_wf :: "'a bc_discovery \<Rightarrow> bool" where
  "disc_wf d \<longleftrightarrow> length (d_peers d) = 64 \<and> d_peer_count d \<le> 64 \<and> peers_wf (disc_known d) \<and>
     (\<forall>cb. d_on_found d = Some cb \<longrightarrow> (\<forall>ud p w. cb ud p w \<noteq> None))"

definition disc_refresh :: "bc_peer \<Rightarrow> bc_peer \<Rightarrow> 'a world_scheme \<Rightarrow> bc_peer" where
  "disc_refresh q p w = (touched q w)\<lparr>peer_rssi := peer_rssi p\<rparr>"

lemma disc_refresh_simps [simp]:
  "peer_pubkey (disc_refresh q p w) = peer_pubkey q" "peer_wf (disc_refresh q p w) = peer_wf q"
  by (simp_all add: disc_refresh_def peer_wf_def)

lemma scan_one_old:
  assumes wf: "disc_wf d" "peer_wf p" and i: "i < length (disc_known d)"
    "peer_pubkey (disc_known d ! i) = peer_pubkey p"
  shows "scan_one p d w =
    Some (d\<lparr>d_peers := (d_peers d)[i := disc_refresh (d_peers d ! i) p w]\<rparr>, snd (c_time w))"
proof -
  have c: "i < d_peer_count d" "length (d_peers d) = 64" "d_peer_count d \<le> 64"
    using wf(1) i(1) by (simp_all add: disc_wf_def disc_known_def)
  have "find (\<lambda>k. peer_pubkey (d_peers d ! k) = peer_pubkey p) [0..<d_peer_count d] = Some i"
  proof (rule find_upt_Some)
    show "peer_pubkey (d_peers d ! i) = peer_pubkey p" using i c by (simp add: disc_known_def)
    fix j assume "j < d_peer_count d" "peer_pubkey (d_peers d ! j) = peer_pubkey p"
    then show "j = i" using wf(1) i c
      by (intro nth_key_eq [of peer_pubkey "disc_known d"]) (auto simp: disc_known_def disc_wf_def peers_wf_def)
  qed (use c in simp)
  then show ?thesis
    using wf c find_peer_from_spec [of "d_peer_count d" "d_peers d" 0 "peer_pubkey p"]
    by (simp add: scan_one_def mem_simps disc_wf_def peers_wf_def disc_known_def peer_wf_def size_defs
        Let_def disc_refresh_def)
qed

text \<open>A peer that is not in the table: it is appended and reported while there is room.\<close>

lemma scan_one_unknown:
  assumes wf: "disc_wf d" "peer_wf p" and new: "peer_pubkey p \<notin> peer_keys (disc_known d)"
  shows "scan_one p d w = (if d_peer_count d < 64 then
      do { w \<leftarrow> (case d_on_found d of None \<Rightarrow> Some w | Some cb \<Rightarrow> cb (d_userdata d) p (emit (PeerFound p) w));
           Some (d\<lparr>d_peers := (d_peers d)[d_peer_count d := p], d_peer_count := Suc (d_peer_count d)\<rparr>, w) }
      else Some (d, w))"
proof -
  have c: "length (d_peers d) = 64" "d_peer_count d \<le> 64" using wf(1) by (simp_all add: disc_wf_def)
  have "find (\<lambda>k. peer_pubkey (d_peers d ! k) = peer_pubkey p) [0..<d_peer_count d] = None"
    using new c by (auto simp: find_None_iff peer_keys_def disc_known_def image_iff)
      (metis in_set_take_conv_nth min.absorb1)
  then have "find_peer_from (d_peers d) (d_peer_count d) (peer_pubkey p) 0 = Some None"
    using wf c find_peer_from_spec [of "d_peer_count d" "d_peers d" 0 "peer_pubkey p"]
    by (simp add: disc_wf_def peers_wf_def disc_known_def peer_wf_def size_defs)
  then show ?thesis
    using c by (simp add: scan_one_def mem_simps size_defs Let_def split: option.split)
qed

lemma scan_one_new:
  assumes wf: "disc_wf d" "peer_wf p" and new: "peer_pubkey p \<notin> peer_keys (disc_known d)"
  shows "\<exists>w'. scan_one p d w = Some (if d_peer_count d < 64
      then d\<lparr>d_peers := (d_peers d)[d_peer_count d := p], d_peer_count := Suc (d_peer_count d)\<rparr> else d, w')"
proof (cases "d_on_found d")
  case (Some cb)
  then obtain w' where "cb (d_userdata d) p (emit (PeerFound p) w) = Some w'"
    using wf(1) by (fastforce simp: disc_wf_def)
  with scan_one_unknown [OF assms] Some show ?thesis by simp
qed (simp add: scan_one_unknown [OF assms])

interpretation dt: peer_table disc_wf disc_known scan_one disc_refresh
proof unfold_locales
  fix d :: "'a bc_discovery" and p :: bc_peer and w :: "'a world_scheme" and i
  assume wf: "disc_wf d" and p: "peer_wf p"
  have c: "length (d_peers d) = 64" "d_peer_count d \<le> 64" using wf by (simp_all add: disc_wf_def)
  show "peer_pubkey p \<notin> peer_keys (disc_known d) \<Longrightarrow> \<exists>d' w'. scan_one p d w = Some (d', w') \<and>
      disc_wf d' \<and> disc_known d' = (if length (disc_known d) < 64 then disc_known d @ [p] else disc_known d)"
    using scan_one_new [OF wf p, of w] wf p c peers_wf_append [of "disc_known d" p]
    by (auto simp: disc_wf_def disc_known_def take_Suc_conv_app_nth)
  assume i: "i < length (disc_known d)" "peer_pubkey (disc_known d ! i) = peer_pubkey p"
  have nth: "d_peers d ! i = disc_known d ! i" using i(1) by (simp add: disc_known_def)
  let ?q = "disc_refresh (disc_known d ! i) p w"
  have "disc_known (d\<lparr>d_peers := (d_peers d)[i := ?q]\<rparr>) = (disc_known d)[i := ?q]"
    using i c by (simp add: disc_known_def take_update_swap)
  moreover have "peer_wf (disc_known d ! i)" using wf i by (simp add: disc_wf_def peers_wf_def)
  ultimately show "\<exists>d' w'. scan_one p d w = Some (d', w') \<and> disc_wf d' \<and>
      disc_known d' = (disc_known d)[i := disc_refresh (disc_known d ! i) p w]"
    using scan_one_old [OF wf p i, of w] wf i peers_wf_update [of "disc_known d" ?q i] nth
    by (auto simp: disc_wf_def)
qed (auto simp: disc_wf_def)

lemma scan_from_adds:
  assumes "n \<le> length ps" "i \<le> n"
  shows "scan_from ps n i d w = dt.adds (drop i (take n ps)) d w"
  using assms
proof (induction "n - i" arbitrary: i d w)
  case 0
  then show ?case by (subst scan_from.simps) simp
next
  case (Suc k)
  then have i: "i < n" "i < length (take n ps)" by simp_all
  then have "drop i (take n ps) = ps ! i # drop (Suc i) (take n ps)"
    using Cons_nth_drop_Suc [OF i(2)] by simp
  then show ?case
    using Suc i by (subst scan_from.simps) (auto simp: mem_simps intro!: Option.bind_cong)
qed

section \<open>Properties\<close>

lemma scan_ok:
  assumes "d_transport d = Some t" "tr_discover_peers t = Some h"
    "h (replicate 64 peer_zero) 64 0 w = Some (BC_OK, ps, n, w1)" "n \<le> length ps"
  shows "bc_discovery_scan (Some d) w = do { (d, w) \<leftarrow> dt.adds (take n ps) d w1; Some (BC_OK, Some d, w) }"
  using assms by (simp add: bc_discovery_scan_def size_defs scan_from_adds)

text \<open>A scan leaves no peer in range unknown: after it, the table holds exactly the keys it knew
  and the keys the transport reported, as long as they all fit in \<open>BC_MAX_PEERS\<close> slots; the table
  keeps distinct keys and its bound.\<close>

lemma discovery_scan_complete:
  assumes "disc_wf d" "d_transport d = Some t" "tr_discover_peers t = Some h"
    and "h (replicate 64 peer_zero) 64 0 w = Some (BC_OK, ps, n, w1)" "n \<le> length ps"
    and "\<forall>p\<in>set (take n ps). peer_wf p"
    and "card (peer_keys (disc_known d) \<union> peer_keys (take n ps)) \<le> 64"
  shows "\<exists>d' w'. bc_discovery_scan (Some d) w = Some (BC_OK, Some d', w') \<and> disc_wf d' \<and>
    peer_keys (disc_known d') = peer_keys (disc_known d) \<union> peer_keys (take n ps)"
  using dt.adds_complete [OF assms(1,6,7), of w1] scan_ok [OF assms(2-5)] by auto

text \<open>The copy handed out by \<open>bc_discovery_get_peers\<close> is the first \<open>min(count, max)\<close> known peers; the
  rest of the caller's array is untouched.\<close>

lemma discovery_get_peers_prefix:
  assumes "disc_wf d" "0 < cap" "length out = cap"
  shows "bc_discovery_get_peers (Some d) (Some out) cap =
    Some (min (length (disc_known d)) cap,
      Some (take cap (disc_known d) @ drop (length (disc_known d)) out))"
proof -
  define n where "n = (if d_peer_count d < cap then d_peer_count d else cap)"
  have n: "n \<le> length out" "n \<le> length (d_peers d)" "length (disc_known d) = d_peer_count d"
    using assms by (simp_all add: n_def disc_wf_def disc_known_def)
  then have "bc_discovery_get_peers (Some d) (Some out) cap = Some (n, Some (take n (d_peers d) @ drop n out))"
    using assms by (simp add: bc_discovery_get_peers_def n_def [symmetric] memcpy_def)
  moreover have "take n (d_peers d) @ drop n out = take cap (disc_known d) @ drop (length (disc_known d)) out"
    using assms(3) n(3) by (simp add: n_def disc_known_def min_def)
  ultimately show ?thesis using n(3) by (simp add: n_def min_def)
qed

end
