(* ===== verification/Store.thy ===== *)
theory Store
  imports Ports
begin

text \<open>
  The store-and-forward use case, \<^verbatim>\<open>src/usecase/message_store.c\<close>: a thin layer over the storage
  port that checks its arguments and supplies the retention time.
\<close>

definition BC_STORE_MAX_AGE_SEC :: u64 where "BC_STORE_MAX_AGE_SEC = 72 * 3600"
definition sizeof_msg_store :: nat where "sizeof_msg_store = 16"

record 'a bc_msg_store =
  ms_storage :: "'a bc_storage"
  ms_max_age_sec :: u64

definition bc_store_create ::
  "'a bc_storage option \<Rightarrow> u64 \<Rightarrow> 'a world_scheme \<Rightarrow> 'a bc_msg_store option \<times> 'a world_scheme" where
  "bc_store_create storage max_age_sec w =
     (case storage of
        None \<Rightarrow> (None, w)
      | Some s \<Rightarrow>
          (let (ok, w) = c_malloc sizeof_msg_store w in
           if \<not> ok then (None, w)
           else (Some \<lparr>ms_storage = s,
                   ms_max_age_sec = (if max_age_sec > 0 then max_age_sec else BC_STORE_MAX_AGE_SEC)\<rparr>, w)))"

definition bc_store_save ::
  "'a bc_msg_store option \<Rightarrow> bc_message option \<Rightarrow> 'a world_scheme \<Rightarrow> (bc_err \<times> 'a world_scheme) option" where
  "bc_store_save store msg w =
     (case (store, msg) of
        (Some st, Some m) \<Rightarrow>
          (case st_store_message (ms_storage st) of
             None \<Rightarrow> Some (BC_ERR_NOT_IMPLEMENTED, w)
           | Some f \<Rightarrow> f m w)
      | _ \<Rightarrow> Some (BC_ERR_INVALID, w))"

text \<open>The out parameters \<open>msgs_out\<close> and \<open>count\<close> are one list; \<open>None\<close> is a \<open>NULL\<close> of either.\<close>

definition bc_store_get_for_peer ::
  "'a bc_msg_store option \<Rightarrow> bytes option \<Rightarrow> bc_message list option \<Rightarrow> 'a world_scheme \<Rightarrow>
   (bc_err \<times> bc_message list option \<times> 'a world_scheme) option" where
  "bc_store_get_for_peer store pubkey msgs_out w =
     (case (store, pubkey, msgs_out) of
        (Some st, Some pk, Some _) \<Rightarrow>
          (case st_get_pending (ms_storage st) of
             None \<Rightarrow> Some (BC_ERR_NOT_IMPLEMENTED, msgs_out, w)
           | Some g \<Rightarrow> do { (rc, ms, w) \<leftarrow> g (Some pk) w; Some (rc, Some ms, w) })
      | _ \<Rightarrow> Some (BC_ERR_INVALID, msgs_out, w))"

definition bc_store_delete ::
  "'a bc_msg_store option \<Rightarrow> bytes option \<Rightarrow> 'a world_scheme \<Rightarrow> (bc_err \<times> 'a world_scheme) option" where
  "bc_store_delete store uuid w =
     (case (store, uuid) of
        (Some st, Some u) \<Rightarrow>
          (case st_delete_message (ms_storage st) of
             None \<Rightarrow> Some (BC_ERR_NOT_IMPLEMENTED, w)
           | Some d \<Rightarrow> d u w)
      | _ \<Rightarrow> Some (BC_ERR_INVALID, w))"

definition bc_store_cleanup ::
  "'a bc_msg_store option \<Rightarrow> 'a world_scheme \<Rightarrow> (bc_err \<times> 'a world_scheme) option" where
  "bc_store_cleanup store w =
     (case store of
        None \<Rightarrow> Some (BC_ERR_INVALID, w)
      | Some st \<Rightarrow>
          (case st_evict_expired (ms_storage st) of
             None \<Rightarrow> Some (BC_ERR_NOT_IMPLEMENTED, w)
           | Some e \<Rightarrow> e (ms_max_age_sec st) w))"

definition bc_store_destroy :: "'a bc_msg_store option \<Rightarrow> 'a world_scheme \<Rightarrow> 'a world_scheme" where
  "bc_store_destroy store w = (case store of None \<Rightarrow> w | Some _ \<Rightarrow> c_free w)"

text \<open>Over a storage that keeps its contract, no call of the layer faults, and each keeps the invariant.\<close>

context storage_port
begin

lemma save_ok:
  assumes "ms_storage st = s" "storable m" "J (ext w)"
  shows "\<exists>rc w'. bc_store_save (Some st) (Some m) w = Some (rc, w') \<and> quiet w w' \<and> J (ext w')"
  using assms store_ok by (cases "st_store_message s") (auto simp: bc_store_save_def)

lemma get_for_peer_ok:
  assumes "ms_storage st = s" "length pk = 32" "J (ext w)"
  shows "\<exists>rc ms w'. bc_store_get_for_peer (Some st) (Some pk) (Some ms0) w = Some (rc, Some ms, w') \<and>
    w_trace w' = w_trace w \<and> J (ext w') \<and>
    (rc = BC_OK \<longrightarrow> (\<forall>m\<in>set ms. storable m) \<and> w_live w' = w_live w + blocks_of ms)"
proof (cases "st_get_pending s")
  case None
  with assms show ?thesis by (simp add: bc_store_get_for_peer_def)
next
  case (Some g)
  then obtain rc ms w' where "g (Some pk) w = Some (rc, ms, w')" "w_trace w' = w_trace w" "J (ext w')"
      "rc = BC_OK \<longrightarrow> (\<forall>m\<in>set ms. storable m) \<and> w_live w' = w_live w + blocks_of ms"
    using pending_ok [OF Some, of "Some pk" w] assms(2,3) by auto
  with Some assms(1) show ?thesis by (simp add: bc_store_get_for_peer_def)
qed

lemma delete_total:
  assumes "ms_storage st = s" "length u = 16" "J (ext w)"
  shows "\<exists>rc w'. bc_store_delete (Some st) (Some u) w = Some (rc, w') \<and> quiet w w' \<and> J (ext w')"
  using assms delete_ok by (cases "st_delete_message s") (auto simp: bc_store_delete_def)

lemma cleanup_ok:
  assumes "ms_storage st = s" "J (ext w)"
  shows "\<exists>rc w'. bc_store_cleanup (Some st) w = Some (rc, w') \<and> quiet w w' \<and> J (ext w')"
  using assms evict_ok by (cases "st_evict_expired s") (auto simp: bc_store_cleanup_def)

end

end
