(* ===== verification/Sqlite.thy ===== *)
theory Sqlite
  imports Store
begin

text \<open>
  The storage adapter, \<^verbatim>\<open>src/infra/storage_sqlite.c\<close>, over the documented behaviour of the SQLite
  calls it makes. The database file is the table \<open>pending_messages\<close> as a list of rows in rowid order,
  the order in which both queries return them. Whether the \<open>n\<close>-th SQLite call succeeds is a free
  function \<open>q_answers\<close>; a statement that fails leaves the table as it was. \<open>q_handles\<close> is a ghost count
  of the connections and statements that are open.
\<close>

definition STORAGE_DEFAULT_RETENTION_SEC :: u64 where "STORAGE_DEFAULT_RETENTION_SEC = 72 * 3600"

text \<open>\<open>NULL\<close> is \<open>None\<close> in the one column that allows it; \<open>expires_at\<close> is compared as a signed number.\<close>

record pending_row =
  pr_uuid :: bytes
  pr_sender_pubkey :: bytes
  pr_receiver_pubkey :: bytes
  pr_payload :: "bytes option"
  pr_ttl :: int
  pr_expires_at :: u64

record sql_state =
  q_rows :: "pending_row list"
  q_answers :: "nat \<Rightarrow> bool"
  q_ncall :: nat
  q_handles :: int

type_synonym 'b sql_world = "'b sql_state_scheme world_scheme"

section \<open>SQLite\<close>

definition sql_call :: "'b sql_world \<Rightarrow> bool \<times> 'b sql_world" where
  "sql_call w = (q_answers (ext w) (q_ncall (ext w)), on_ext (q_ncall_update Suc) w)"

definition sql_handle :: "int \<Rightarrow> 'b sql_world \<Rightarrow> 'b sql_world" where
  "sql_handle d w = on_ext (q_handles_update (\<lambda>n. n + d)) w"

definition set_rows :: "pending_row list \<Rightarrow> 'b sql_world \<Rightarrow> 'b sql_world" where
  "set_rows rows w = on_ext (q_rows_update (\<lambda>_. rows)) w"

text \<open>
  \<open>sqlite3_bind_blob\<close>: a null pointer binds \<open>NULL\<close>, a negative length is undefined, and a value longer
  than the limit is refused, which leaves the cleared parameter \<open>NULL\<close>.
\<close>

definition SQLITE_MAX_LENGTH :: int where "SQLITE_MAX_LENGTH = 1000000000"

definition bind_blob :: "bytes option \<Rightarrow> int \<Rightarrow> bytes option option" where
  "bind_blob p n =
     (case p of
        None \<Rightarrow> Some None
      | Some b \<Rightarrow>
          if n < 0 then None
          else if n > SQLITE_MAX_LENGTH then Some None
          else do { v \<leftarrow> mem_read b 0 (nat n); Some (Some v) })"

definition sql_insert_or_ignore :: "pending_row \<Rightarrow> pending_row list \<Rightarrow> pending_row list" where
  "sql_insert_or_ignore row rows =
     (if list_ex (\<lambda>r. pr_uuid r = pr_uuid row) rows then rows else rows @ [row])"

definition sql_get_pending :: "bytes option \<Rightarrow> u64 \<Rightarrow> pending_row list \<Rightarrow> pending_row list" where
  "sql_get_pending pk now rows =
     filter (\<lambda>r. (case pk of None \<Rightarrow> True | Some k \<Rightarrow> pr_receiver_pubkey r = k) \<and> now \<le>s pr_expires_at r) rows"

definition sql_delete :: "bytes \<Rightarrow> pending_row list \<Rightarrow> pending_row list" where
  "sql_delete uuid rows = filter (\<lambda>r. pr_uuid r \<noteq> uuid) rows"

definition sql_evict :: "u64 \<Rightarrow> pending_row list \<Rightarrow> pending_row list" where
  "sql_evict now rows = filter (\<lambda>r. \<not> pr_expires_at r <s now) rows"

section \<open>The adapter\<close>

definition sqlite_store_message :: "bc_message \<Rightarrow> 'b sql_world \<Rightarrow> (bc_err \<times> 'b sql_world) option" where
  "sqlite_store_message msg w =
     do {
       uuid \<leftarrow> mem_read (msg_uuid msg) 0 BC_UUID_SIZE;
       sender \<leftarrow> mem_read (msg_sender_pubkey msg) 0 BC_PUBKEY_SIZE;
       receiver \<leftarrow> mem_read (msg_receiver_pubkey msg) 0 BC_PUBKEY_SIZE;
       payload \<leftarrow> bind_blob (msg_payload msg) (sint (of_nat (msg_payload_len msg) :: u32));
       let (now, w) = c_time w;
       let row = \<lparr>pr_uuid = uuid, pr_sender_pubkey = sender, pr_receiver_pubkey = receiver,
           pr_payload = payload, pr_ttl = uint (msg_ttl msg),
           pr_expires_at = now + STORAGE_DEFAULT_RETENTION_SEC\<rparr>;
       let (ok, w) = sql_call w;
       (if ok then Some (BC_OK, set_rows (sql_insert_or_ignore row (q_rows (ext w))) w)
        else Some (BC_ERR_STORAGE, w))
     }"

text \<open>A column read: \<open>sqlite3_column_blob\<close> gives a null pointer for \<open>NULL\<close> and for a blob of no bytes.\<close>

definition column_copy :: "bytes \<Rightarrow> nat \<Rightarrow> bytes option" where
  "column_copy blob n = (if blob = [] then Some (replicate n 0) else mem_read blob 0 n)"

definition realloc_arr :: "nat \<Rightarrow> nat \<Rightarrow> 'a world_scheme \<Rightarrow> bool \<times> 'a world_scheme" where
  "realloc_arr cap new_cap w =
     (let (ok, w) = c_malloc (new_cap * 8) w in (ok, if ok \<and> cap > 0 then c_free w else w))"

definition pending_oom :: "nat \<Rightarrow> bc_message list \<Rightarrow> 'a world_scheme \<Rightarrow> 'a world_scheme" where
  "pending_oom cap arr w =
     (let w = fold (\<lambda>m. bc_message_destroy (Some m)) arr w in if cap > 0 then c_free w else w)"

text \<open>
  The loop over the result rows; \<open>arr\<close> holds the messages read so far and \<open>cap\<close> is its capacity. A
  step that fails ends the loop like the end of the rows.
\<close>

fun read_rows ::
  "pending_row list \<Rightarrow> nat \<Rightarrow> bc_message list \<Rightarrow> 'b sql_world \<Rightarrow>
   (bc_err \<times> bc_message list \<times> 'b sql_world) option" where
  "read_rows [] cap arr w = Some (BC_OK, arr, snd (sql_call w))"
| "read_rows (row # rows) cap arr w =
     (let (step_row, w) = sql_call w in
      if \<not> step_row then Some (BC_OK, arr, w)
      else
        let new_cap = (if length arr \<ge> cap then (if cap = 0 then 8 else cap * 2) else cap);
            (grown, w) = (if length arr \<ge> cap then realloc_arr cap new_cap w else (True, w)) in
        if \<not> grown then Some (BC_ERR_NOMEM, [], pending_oom cap arr w)
        else
          let (ok, w) = c_malloc sizeof_message w in
          if \<not> ok then Some (BC_ERR_NOMEM, [], pending_oom new_cap arr w)
          else do {
            uuid \<leftarrow> column_copy (pr_uuid row) BC_UUID_SIZE;
            sender \<leftarrow> column_copy (pr_sender_pubkey row) BC_PUBKEY_SIZE;
            receiver \<leftarrow> column_copy (pr_receiver_pubkey row) BC_PUBKEY_SIZE;
            let m = \<lparr>msg_uuid = uuid, msg_ttl = word_of_int (pr_ttl row), msg_sender_pubkey = sender,
                msg_receiver_pubkey = receiver,
                msg_timestamp = pr_expires_at row - STORAGE_DEFAULT_RETENTION_SEC,
                msg_payload = None, msg_payload_len = 0\<rparr>;
            let blob = (case pr_payload row of None \<Rightarrow> [] | Some b \<Rightarrow> b);
            (if blob \<noteq> [] then
               let (ok, w) = c_malloc (length blob) w in
               if \<not> ok then Some (BC_ERR_NOMEM, [], pending_oom new_cap arr (c_free w))
               else read_rows rows new_cap
                 (arr @ [m\<lparr>msg_payload := Some blob, msg_payload_len := length blob\<rparr>]) w
             else read_rows rows new_cap (arr @ [m]) w)
          })"

definition sqlite_get_pending ::
  "bytes option \<Rightarrow> 'b sql_world \<Rightarrow> (bc_err \<times> bc_message list \<times> 'b sql_world) option" where
  "sqlite_get_pending pubkey w =
     do {
       pk \<leftarrow> (case pubkey of None \<Rightarrow> Some None
              | Some k \<Rightarrow> do { k \<leftarrow> mem_read k 0 BC_PUBKEY_SIZE; Some (Some k) });
       let (now, w) = c_time w;
       read_rows (sql_get_pending pk now (q_rows (ext w))) 0 [] w
     }"

definition sqlite_delete_message :: "bytes \<Rightarrow> 'b sql_world \<Rightarrow> (bc_err \<times> 'b sql_world) option" where
  "sqlite_delete_message uuid w =
     do {
       u \<leftarrow> mem_read uuid 0 BC_UUID_SIZE;
       let (ok, w) = sql_call w;
       (if ok then Some (BC_OK, set_rows (sql_delete u (q_rows (ext w))) w)
        else Some (BC_ERR_STORAGE, w))
     }"

definition sqlite_evict_expired :: "u64 \<Rightarrow> 'b sql_world \<Rightarrow> (bc_err \<times> 'b sql_world) option" where
  "sqlite_evict_expired max_age_sec w =
     (let (now, w) = c_time w; (ok, w) = sql_call w in
      if ok then Some (BC_OK, set_rows (sql_evict now (q_rows (ext w))) w)
      else Some (BC_ERR_STORAGE, w))"

text \<open>Five statements and the connection are released, then the context and the vtable.\<close>

definition sqlite_destroy :: "'b sql_world \<Rightarrow> 'b sql_world" where
  "sqlite_destroy w = c_free (c_free (sql_handle (-6) w))"

definition sqlite_storage :: "'b sql_state_scheme bc_storage" where
  "sqlite_storage = \<lparr>st_store_message = Some sqlite_store_message,
     st_get_pending = Some sqlite_get_pending, st_delete_message = Some sqlite_delete_message,
     st_evict_expired = Some sqlite_evict_expired, st_destroy = Some sqlite_destroy\<rparr>"

text \<open>
  Preparing the statements one after the other while each succeeds; the number prepared is returned.
\<close>

fun prepare_from :: "nat \<Rightarrow> nat \<Rightarrow> 'b sql_world \<Rightarrow> nat \<times> 'b sql_world" where
  "prepare_from 0 k w = (k, w)"
| "prepare_from (Suc n) k w =
     (let (ok, w) = sql_call w in
      if ok then prepare_from n (Suc k) (sql_handle 1 w) else (k, w))"

definition sizeof_sqlite_ctx :: nat where "sizeof_sqlite_ctx = 48"
definition sizeof_storage :: nat where "sizeof_storage = 48"

text \<open>
  \<open>sqlite3_open_v2\<close> may fail with or without having allocated a connection handle; each \<open>sql_handle\<close>
  below is one close or one finalize of the source, or a group of them.
\<close>

definition bc_storage_sqlite_create ::
  "string option \<Rightarrow> 'b sql_world \<Rightarrow> 'b sql_state_scheme bc_storage option \<times> 'b sql_world" where
  "bc_storage_sqlite_create db_path w =
     (if db_path = None then (None, w)
      else let (ok, w) = c_malloc sizeof_sqlite_ctx w in
      if \<not> ok then (None, w)
      else let (handle, w) = sql_call w;
               w = (if handle then sql_handle 1 w else w);
               (opened, w) = (if handle then sql_call w else (False, w)) in
      if \<not> opened then (None, c_free w)
      else let (_, w) = sql_call w;
               (table, w) = sql_call w in
      if \<not> table then (None, c_free (sql_handle (-1) w))
      else let (index, w) = sql_call w in
      if \<not> index then (None, c_free (sql_handle (-1) w))
      else let (k, w) = prepare_from 5 0 w in
      if k < 5 then (None, c_free (sql_handle (-1) (sql_handle (- int k) w)))
      else let (ok, w) = c_malloc sizeof_storage w in
      if \<not> ok then (None, c_free (sql_handle (-1) (sql_handle (-5) w)))
      else (Some sqlite_storage, w))"

section \<open>Frames\<close>

lemma sql_call_frame [simp]:
  "w_live (snd (sql_call w)) = w_live w" "w_trace (snd (sql_call w)) = w_trace w"
  "oracles (snd (sql_call w)) = oracles w" "q_rows (ext (snd (sql_call w))) = q_rows (ext w)"
  "q_answers (ext (snd (sql_call w))) = q_answers (ext w)"
  "q_handles (ext (snd (sql_call w))) = q_handles (ext w)"
  "fst (sql_call w) = q_answers (ext w) (q_ncall (ext w))"
  "ext (snd (sql_call w)) = q_ncall_update Suc (ext w)"
  by (simp_all add: sql_call_def)

lemma sql_handle_frame [simp]:
  "w_live (sql_handle d w) = w_live w" "w_trace (sql_handle d w) = w_trace w"
  "oracles (sql_handle d w) = oracles w" "ext (sql_handle d w) = q_handles_update (\<lambda>n. n + d) (ext w)"
  by (simp_all add: sql_handle_def)

lemma set_rows_frame [simp]:
  "w_live (set_rows rs w) = w_live w" "w_trace (set_rows rs w) = w_trace w"
  "oracles (set_rows rs w) = oracles w" "ext (set_rows rs w) = q_rows_update (\<lambda>_. rs) (ext w)"
  by (simp_all add: set_rows_def)

lemma realloc_arr_frame [simp]:
  "w_trace (snd (realloc_arr c n w)) = w_trace w" "ext (snd (realloc_arr c n w)) = ext w"
  "oracles (snd (realloc_arr c n w)) = oracles w"
  "w_live (snd (realloc_arr c n w)) = w_live w + (if fst (realloc_arr c n w) \<and> c = 0 then 1 else 0)"
  by (auto simp: realloc_arr_def case_prod_beta)

lemma pending_oom_frame [simp]:
  "w_trace (pending_oom c ms w) = w_trace w" "ext (pending_oom c ms w) = ext w"
  "oracles (pending_oom c ms w) = oracles w"
  "w_live (pending_oom c ms w) = w_live w - (\<Sum>m\<leftarrow>ms. msg_blocks m) - (if c = 0 then 0 else 1)"
proof -
  let ?f = "fold (\<lambda>m. bc_message_destroy (Some m)) ms"
  have "w_trace (?f w) = w_trace w \<and> ext (?f w) = ext w \<and> oracles (?f w) = oracles w \<and>
      w_live (?f w) = w_live w - (\<Sum>m\<leftarrow>ms. msg_blocks m)"
    by (induction ms arbitrary: w) simp_all
  then show "w_trace (pending_oom c ms w) = w_trace w" "ext (pending_oom c ms w) = ext w"
    "oracles (pending_oom c ms w) = oracles w"
    "w_live (pending_oom c ms w) = w_live w - (\<Sum>m\<leftarrow>ms. msg_blocks m) - (if c = 0 then 0 else 1)"
    by (simp_all add: pending_oom_def Let_def)
qed

section \<open>Reading rows\<close>

definition row_wf :: "pending_row \<Rightarrow> bool" where
  "row_wf row \<longleftrightarrow> length (pr_uuid row) = 16 \<and> length (pr_sender_pubkey row) = 32 \<and>
     length (pr_receiver_pubkey row) = 32 \<and> (\<forall>b. pr_payload row = Some b \<longrightarrow> length b < 2 ^ 31)"

definition row_blob :: "pending_row \<Rightarrow> bytes" where
  "row_blob row = (case pr_payload row of None \<Rightarrow> [] | Some b \<Rightarrow> b)"

text \<open>The message a row stands for.\<close>

definition row_msg :: "pending_row \<Rightarrow> bc_message" where
  "row_msg row = \<lparr>msg_uuid = pr_uuid row, msg_ttl = word_of_int (pr_ttl row),
     msg_sender_pubkey = pr_sender_pubkey row, msg_receiver_pubkey = pr_receiver_pubkey row,
     msg_timestamp = pr_expires_at row - STORAGE_DEFAULT_RETENTION_SEC,
     msg_payload = (if row_blob row = [] then None else Some (row_blob row)),
     msg_payload_len = length (row_blob row)\<rparr>"

lemma row_msg_storable: "row_wf row \<Longrightarrow> storable (row_msg row)"
  by (auto simp: row_wf_def row_msg_def row_blob_def storable_def message_wf_def size_defs split: option.splits)

lemma column_copy_ok: "length b = n \<Longrightarrow> column_copy b n = Some b"
  by (auto simp: column_copy_def mem_read_def)

text \<open>One row, in terms of \<open>row_msg\<close>: what a step of the loop does once the capacity is settled.\<close>

definition add_row :: "pending_row \<Rightarrow> 'b sql_world \<Rightarrow> bool \<times> 'b sql_world" where
  "add_row row w =
     (let (ok, w) = c_malloc sizeof_message w in
      if \<not> ok then (False, w)
      else if row_blob row = [] then (True, w)
      else let (ok, w) = c_malloc (length (row_blob row)) w in (ok, if ok then w else c_free w))"

lemma add_row_frame [simp]:
  "w_trace (snd (add_row row w)) = w_trace w" "ext (snd (add_row row w)) = ext w"
  "oracles (snd (add_row row w)) = oracles w"
  "w_live (snd (add_row row w)) = w_live w + (if fst (add_row row w) then msg_blocks (row_msg row) else 0)"
  by (auto simp: add_row_def case_prod_beta Let_def msg_blocks_def row_msg_def)

lemma read_rows_Cons:
  assumes "row_wf row"
  shows "read_rows (row # rows) cap arr w =
    (let (step_row, w) = sql_call w in
     if \<not> step_row then Some (BC_OK, arr, w)
     else
       let new_cap = (if length arr \<ge> cap then (if cap = 0 then 8 else cap * 2) else cap);
           (grown, w) = (if length arr \<ge> cap then realloc_arr cap new_cap w else (True, w)) in
       if \<not> grown then Some (BC_ERR_NOMEM, [], pending_oom cap arr w)
       else
         let (ok, w) = add_row row w in
         if \<not> ok then Some (BC_ERR_NOMEM, [], pending_oom new_cap arr w)
         else read_rows rows new_cap (arr @ [row_msg row]) w)"
  using assms
  by (simp add: Let_def case_prod_beta add_row_def column_copy_ok row_wf_def row_msg_def row_blob_def size_defs)

declare read_rows.simps(2) [simp del]

text \<open>What a loop over rows leaves alone: everything but the call counter and the heap.\<close>

definition rows_frame :: "'b sql_world \<Rightarrow> 'b sql_world \<Rightarrow> bool" where
  "rows_frame w w' \<longleftrightarrow> w_trace w' = w_trace w \<and> oracles w' = oracles w \<and> (\<exists>k. ext w' = (ext w)\<lparr>q_ncall := k\<rparr>)"

lemma rows_frame_call: "rows_frame w (snd (sql_call w))"
  by (auto simp: rows_frame_def intro!: exI [of _ "Suc (q_ncall (ext w))"])

lemma rows_frame_trans: "rows_frame w w1 \<Longrightarrow> rows_frame w1 w2 \<Longrightarrow> rows_frame w w2"
  by (auto simp: rows_frame_def)

text \<open>One round of the loop: it stops, runs out of memory and gives everything back, or takes over the row.\<close>

lemma read_rows_step:
  assumes wf: "row_wf row" and cap: "cap = 0 \<longleftrightarrow> arr = []"
  obtains (stop) w1 where "read_rows (row # rows) cap arr w = Some (BC_OK, arr, w1)" "rows_frame w w1" "w_live w1 = w_live w"
  | (oom) w1 where "read_rows (row # rows) cap arr w = Some (BC_ERR_NOMEM, [], w1)" "rows_frame w w1" "w_live w1 = w_live w - blocks_of arr"
  | (row) nc w1 where "read_rows (row # rows) cap arr w = read_rows rows nc (arr @ [row_msg row]) w1" "rows_frame w w1" "nc \<noteq> 0"
      "w_live w1 + blocks_of arr = w_live w + blocks_of (arr @ [row_msg row])"
proof (cases "fst (sql_call w)")
  case False
  then show thesis
    by (intro stop [of "snd (sql_call w)"]) (auto simp: read_rows_Cons [OF wf] case_prod_beta rows_frame_call)
next
  case step: True
  let ?w1 = "snd (sql_call w)"
  define nc where "nc = (if length arr \<ge> cap then (if cap = 0 then 8 else cap * 2) else cap)"
  define gw where "gw = (if length arr \<ge> cap then realloc_arr cap nc ?w1 else (True, ?w1))"
  have gl: "w_trace (snd gw) = w_trace w" "oracles (snd gw) = oracles w" "ext (snd gw) = ext ?w1"
      "w_live (snd gw) = w_live w + (if fst gw \<and> cap = 0 then 1 else 0)" "nc \<noteq> 0"
    using cap by (auto simp: gw_def nc_def simp del: sql_call_frame(8))
  have fr: "rows_frame w (snd gw)"
    using rows_frame_call [of w] gl(1-3) unfolding rows_frame_def by (simp del: sql_call_frame(8))
  have rr: "read_rows (row # rows) cap arr w =
    (if \<not> fst gw then Some (BC_ERR_NOMEM, [], pending_oom cap arr (snd gw))
     else if \<not> fst (add_row row (snd gw))
       then Some (BC_ERR_NOMEM, [], pending_oom nc arr (snd (add_row row (snd gw))))
     else read_rows rows nc (arr @ [row_msg row]) (snd (add_row row (snd gw))))"
    using step by (simp add: read_rows_Cons [OF wf] case_prod_beta Let_def gw_def nc_def)
  have b: "blocks_of arr = (\<Sum>m\<leftarrow>arr. msg_blocks m) + (if cap = 0 then 0 else 1)" using cap by (simp add: blocks_of_def)
  consider "\<not> fst gw" | "fst gw" "\<not> fst (add_row row (snd gw))" | "fst gw" "fst (add_row row (snd gw))" by blast
  then show thesis
  proof cases
    case 1
    with rr gl(4) b fr show thesis by (intro oom [of "pending_oom cap arr (snd gw)"]) (auto simp: rows_frame_def)
  next
    case 2
    with rr gl(4,5) b fr show thesis
      by (intro oom [of "pending_oom nc arr (snd (add_row row (snd gw)))"]) (auto simp: rows_frame_def)
  next
    case 3
    with rr gl(4,5) b fr show thesis
      by (intro row [of nc "snd (add_row row (snd gw))"]) (auto simp: rows_frame_def blocks_of_def)
  qed
qed

lemma read_rows_spec:
  assumes "\<forall>row\<in>set rows. row_wf row" "cap = 0 \<longleftrightarrow> arr = []"
  shows "\<exists>rc ms w'. read_rows rows cap arr w = Some (rc, ms, w') \<and> rows_frame w w' \<and>
    (if rc = BC_OK
     then \<exists>i\<le>length rows. ms = arr @ map row_msg (take i rows) \<and>
       w_live w' + blocks_of arr = w_live w + blocks_of ms
     else rc = BC_ERR_NOMEM \<and> ms = [] \<and> w_live w' = w_live w - blocks_of arr)"
  using assms
proof (induction rows arbitrary: cap arr w)
  case Nil
  then show ?case by (auto simp: rows_frame_call)
next
  case (Cons row rows)
  have "row_wf row" using Cons.prems(1) by simp
  then show ?case using Cons.prems(2)
  proof (cases rule: read_rows_step [where rows = rows and w = w])
    case (stop w1)
    then show ?thesis by (auto intro!: exI [of _ 0])
  next
    case (oom w1)
    then show ?thesis by simp
  next
    case (row nc w1)
    then obtain rc ms w' where IH: "read_rows rows nc (arr @ [row_msg row]) w1 = Some (rc, ms, w')" "rows_frame w1 w'"
        "if rc = BC_OK then \<exists>i\<le>length rows. ms = (arr @ [row_msg row]) @ map row_msg (take i rows) \<and>
           w_live w' + blocks_of (arr @ [row_msg row]) = w_live w1 + blocks_of ms
         else rc = BC_ERR_NOMEM \<and> ms = [] \<and> w_live w' = w_live w1 - blocks_of (arr @ [row_msg row])"
      using Cons.IH [of nc "arr @ [row_msg row]" w1] Cons.prems(1) by auto
    have "if rc = BC_OK then \<exists>i\<le>length (row # rows). ms = arr @ map row_msg (take i (row # rows)) \<and>
           w_live w' + blocks_of arr = w_live w + blocks_of ms
         else rc = BC_ERR_NOMEM \<and> ms = [] \<and> w_live w' = w_live w - blocks_of arr"
    proof (cases "rc = BC_OK")
      case True
      with IH(3) obtain i where "i \<le> length rows" "ms = (arr @ [row_msg row]) @ map row_msg (take i rows)"
          "w_live w' + blocks_of (arr @ [row_msg row]) = w_live w1 + blocks_of ms" by auto
      with True row(4) show ?thesis by (auto intro!: exI [of _ "Suc i"])
    qed (use IH(3) row(4) in auto)
    with IH(1,2) row(1,2) show ?thesis by (auto intro: rows_frame_trans)
  qed
qed

text \<open>With memory and without database errors every row is returned.\<close>

lemma read_rows_complete:
  assumes "\<forall>row\<in>set rows. row_wf row" "\<And>n. q_answers (ext w) n" "\<And>k n. w_heap w k n"
  shows "\<exists>w'. read_rows rows cap arr w = Some (BC_OK, arr @ map row_msg rows, w')"
  using assms
proof (induction rows arbitrary: cap arr w)
  case (Cons row rows)
  then have wf: "row_wf row" by simp
  have h: "fst (c_malloc n w') = True" if "oracles w' = oracles w" for n and w' :: "'a sql_world"
    using Cons.prems(3) oracles_heap [OF that] by (simp add: c_malloc_def)
  have ra: "fst (realloc_arr c n w')" if "oracles w' = oracles w" for c n and w' :: "'a sql_world"
    using h [OF that] by (simp add: realloc_arr_def case_prod_beta)
  have ar: "fst (add_row row w')" if "oracles w' = oracles w" for w' :: "'a sql_world"
    using h that by (simp add: add_row_def case_prod_beta Let_def)
  define nc where "nc = (if length arr \<ge> cap then (if cap = 0 then 8 else cap * 2) else cap)"
  define w1 where "w1 = (if length arr \<ge> cap then snd (realloc_arr cap nc (snd (sql_call w))) else snd (sql_call w))"
  have w1: "oracles w1 = oracles w" "q_answers (ext w1) = q_answers (ext w)" by (simp_all add: w1_def)
  let ?w2 = "snd (add_row row w1)"
  have heap: "w_heap ?w2 = w_heap w" by (rule oracles_heap) (simp add: w1)
  have "read_rows (row # rows) cap arr w = read_rows rows nc (arr @ [row_msg row]) ?w2"
    using Cons.prems(2) ra ar
    by (simp add: read_rows_Cons [OF wf] case_prod_beta Let_def nc_def w1_def)
  moreover have "\<exists>w'. read_rows rows nc (arr @ [row_msg row]) ?w2
      = Some (BC_OK, (arr @ [row_msg row]) @ map row_msg rows, w')"
    by (rule Cons.IH) (use Cons.prems w1 heap in auto)
  ultimately show ?case by simp
qed simp

section \<open>The storage contract\<close>

definition sql_inv :: "'b sql_state_scheme \<Rightarrow> bool" where
  "sql_inv x \<longleftrightarrow> (\<forall>row\<in>set (q_rows x). row_wf row) \<and> distinct (map pr_uuid (q_rows x))"

lemma sql_inv_ncall [simp]: "sql_inv (q_ncall_update f x) = sql_inv x"
  by (simp add: sql_inv_def)

lemma distinct_map_append1: "distinct (map f xs) \<Longrightarrow> f x \<notin> f ` set xs \<Longrightarrow> distinct (map f (xs @ [x]))"
  by simp

lemma sql_inv_insert:
  "sql_inv x \<Longrightarrow> row_wf row \<Longrightarrow> sql_inv (q_rows_update (\<lambda>_. sql_insert_or_ignore row (q_rows x)) x)"
  by (auto simp: sql_inv_def sql_insert_or_ignore_def list_ex_iff image_iff)

lemma sql_inv_filter: "sql_inv x \<Longrightarrow> sql_inv (q_rows_update (\<lambda>_. filter P (q_rows x)) x)"
  by (auto simp: sql_inv_def distinct_map_filter)

text \<open>The row a message is stored as, at time \<open>now\<close>.\<close>

definition stored_row :: "bc_message \<Rightarrow> u64 \<Rightarrow> pending_row" where
  "stored_row m now = \<lparr>pr_uuid = msg_uuid m, pr_sender_pubkey = msg_sender_pubkey m,
     pr_receiver_pubkey = msg_receiver_pubkey m,
     pr_payload = (if msg_payload_len m \<le> 1000000000 then msg_payload m else None),
     pr_ttl = uint (msg_ttl m), pr_expires_at = now + STORAGE_DEFAULT_RETENTION_SEC\<rparr>"

lemma payload_len_int:
  assumes "n < 2 ^ 31"
  shows "sint (of_nat n :: u32) = int n"
  using assms by (simp add: sint_uint signed_take_bit_int_eq_self take_bit_nat_eq_self_iff uint_nat unat_of_nat)

lemma store_message_eq:
  assumes "storable m"
  shows "sqlite_store_message m w =
    (let w1 = snd (sql_call (snd (c_time w))) in
     Some (if q_answers (ext w) (q_ncall (ext w))
       then (BC_OK, set_rows (sql_insert_or_ignore (stored_row m (w_clock w (w_ntime w))) (q_rows (ext w))) w1)
       else (BC_ERR_STORAGE, w1)))"
proof -
  have wf: "message_wf m" and len: "msg_payload_len m < 2 ^ 31" using assms by (simp_all add: storable_def)
  have "bind_blob (msg_payload m) (sint (of_nat (msg_payload_len m) :: u32)) = Some (pr_payload (stored_row m t))" for t
    using wf unfolding payload_len_int [OF len]
    by (auto simp: bind_blob_def stored_row_def message_wf_def SQLITE_MAX_LENGTH_def mem_read_def
        split: option.splits)
  then show ?thesis
    using wf
    by (simp add: sqlite_store_message_def mem_simps message_wf_def size_defs Let_def case_prod_beta
        stored_row_def c_time_def)
qed

lemma pr_uuid_stored [simp]: "pr_uuid (stored_row m now) = msg_uuid m"
  by (simp add: stored_row_def)

lemma stored_row_wf: "storable m \<Longrightarrow> row_wf (stored_row m now)"
  by (auto simp: storable_def message_wf_def row_wf_def stored_row_def size_defs split: option.splits)

lemma get_pending_eq:
  assumes "\<And>k. pk = Some k \<Longrightarrow> length k = 32"
  shows "sqlite_get_pending pk w =
    read_rows (sql_get_pending pk (w_clock w (w_ntime w)) (q_rows (ext w))) 0 [] (snd (c_time w))"
  using assms by (cases pk) (simp_all add: sqlite_get_pending_def c_time_def mem_simps size_defs)

lemma get_pending_spec:
  assumes "\<And>k. pk = Some k \<Longrightarrow> length k = 32" "sql_inv (ext w)"
  obtains rc ms w' k where "sqlite_get_pending pk w = Some (rc, ms, w')" "w_trace w' = w_trace w"
    "oracles w' = oracles w" "ext w' = (ext w)\<lparr>q_ncall := k\<rparr>"
    "if rc = BC_OK
     then \<exists>i. ms = map row_msg (take i (sql_get_pending pk (w_clock w (w_ntime w)) (q_rows (ext w)))) \<and>
       w_live w' = w_live w + blocks_of ms
     else rc = BC_ERR_NOMEM \<and> ms = [] \<and> w_live w' = w_live w"
proof -
  let ?rows = "sql_get_pending pk (w_clock w (w_ntime w)) (q_rows (ext w))"
  have "\<forall>row\<in>set ?rows. row_wf row" using assms(2) by (auto simp: sql_inv_def sql_get_pending_def)
  from read_rows_spec [OF this, of 0 "[]" "snd (c_time w)"]
  obtain rc ms w' k where r: "read_rows ?rows 0 [] (snd (c_time w)) = Some (rc, ms, w')"
      "w_trace w' = w_trace (snd (c_time w))" "oracles w' = oracles (snd (c_time w))"
      "ext w' = (ext (snd (c_time w)))\<lparr>q_ncall := k\<rparr>"
      "if rc = BC_OK then \<exists>i\<le>length ?rows. ms = [] @ map row_msg (take i ?rows) \<and>
         w_live w' + blocks_of [] = w_live (snd (c_time w)) + blocks_of ms
       else rc = BC_ERR_NOMEM \<and> ms = [] \<and> w_live w' = w_live (snd (c_time w)) - blocks_of []"
    unfolding rows_frame_def by blast
  moreover have "sqlite_get_pending pk w = Some (rc, ms, w')"
    using get_pending_eq [where pk = pk and w = w, OF assms(1)] r(1) by simp
  moreover have "blocks_of [] = 0" by (simp add: blocks_of_def)
  ultimately show ?thesis by (intro that) (auto split: if_splits)
qed

lemma delete_message_eq:
  assumes "length u = 16"
  shows "sqlite_delete_message u w =
    Some (if q_answers (ext w) (q_ncall (ext w))
      then (BC_OK, set_rows (sql_delete u (q_rows (ext w))) (snd (sql_call w)))
      else (BC_ERR_STORAGE, snd (sql_call w)))"
  using assms by (simp add: sqlite_delete_message_def mem_simps size_defs case_prod_beta)

lemma evict_expired_eq:
  "sqlite_evict_expired age w =
    (let w1 = snd (sql_call (snd (c_time w))) in
     Some (if q_answers (ext w) (q_ncall (ext w))
      then (BC_OK, set_rows (sql_evict (w_clock w (w_ntime w)) (q_rows (ext w))) w1)
      else (BC_ERR_STORAGE, w1)))"
  by (simp add: sqlite_evict_expired_def case_prod_beta Let_def c_time_def)

text \<open>
  The adapter keeps the contract, together with any property \<open>P\<close> of the surrounding state that its
  own fields do not matter to.
\<close>

lemma sqlite_storage_port:
  fixes P :: "'b sql_state_scheme \<Rightarrow> bool"
  assumes "\<And>f x. P (q_ncall_update f x) = P x" "\<And>f x. P (q_rows_update f x) = P x"
  shows "storage_port (\<lambda>x. sql_inv x \<and> P x) sqlite_storage"
proof
  fix f m and w :: "'b sql_world"
  assume "st_store_message (sqlite_storage :: 'b sql_state_scheme bc_storage) = Some f" "storable m" "sql_inv (ext w) \<and> P (ext w)"
  then show "\<exists>rc w'. f m w = Some (rc, w') \<and> quiet w w' \<and> sql_inv (ext w') \<and> P (ext w')"
    using sql_inv_insert [OF _ stored_row_wf, of "ext (snd (sql_call (snd (c_time w))))" m "w_clock w (w_ntime w)"]
    by (auto simp: sqlite_storage_def store_message_eq Let_def quiet_def assms)
next
  fix g and pk :: "bytes option" and w :: "'b sql_world"
  assume g: "st_get_pending (sqlite_storage :: 'b sql_state_scheme bc_storage) = Some g" and pk: "\<And>k. pk = Some k \<Longrightarrow> length k = 32"
    and inv: "sql_inv (ext w) \<and> P (ext w)"
  obtain rc ms w' k where r: "sqlite_get_pending pk w = Some (rc, ms, w')" "w_trace w' = w_trace w"
    "oracles w' = oracles w" "ext w' = (ext w)\<lparr>q_ncall := k\<rparr>"
    "if rc = BC_OK
     then \<exists>i. ms = map row_msg (take i (sql_get_pending pk (w_clock w (w_ntime w)) (q_rows (ext w)))) \<and>
       w_live w' = w_live w + blocks_of ms
     else rc = BC_ERR_NOMEM \<and> ms = [] \<and> w_live w' = w_live w"
    using get_pending_spec [OF pk conjunct1 [OF inv]] .
  have "\<forall>m\<in>set ms. storable m" if ok: "rc = BC_OK"
  proof
    fix m assume "m \<in> set ms"
    then obtain row where "m = row_msg row" "row \<in> set (q_rows (ext w))"
      using r(5) ok by (auto simp: sql_get_pending_def dest!: in_set_takeD)
    then show "storable m" using inv by (auto simp: sql_inv_def intro: row_msg_storable)
  qed
  then show "\<exists>rc ms w'. g pk w = Some (rc, ms, w') \<and> w_trace w' = w_trace w \<and>
      (sql_inv (ext w') \<and> P (ext w')) \<and>
      (rc = BC_OK \<longrightarrow> (\<forall>m\<in>set ms. storable m) \<and> w_live w' = w_live w + blocks_of ms) \<and>
      (rc \<noteq> BC_OK \<longrightarrow> w_live w' = w_live w)"
    using g inv r by (auto simp: sqlite_storage_def assms split: if_splits)
next
  fix d and u :: bytes and w :: "'b sql_world"
  assume "st_delete_message (sqlite_storage :: 'b sql_state_scheme bc_storage) = Some d" "length u = 16" "sql_inv (ext w) \<and> P (ext w)"
  then show "\<exists>rc w'. d u w = Some (rc, w') \<and> quiet w w' \<and> sql_inv (ext w') \<and> P (ext w')"
    using sql_inv_filter [of "ext (snd (sql_call w))" "\<lambda>r. pr_uuid r \<noteq> u"]
    by (auto simp: sqlite_storage_def delete_message_eq quiet_def assms sql_delete_def)
next
  fix e age and w :: "'b sql_world"
  assume "st_evict_expired (sqlite_storage :: 'b sql_state_scheme bc_storage) = Some e" "sql_inv (ext w) \<and> P (ext w)"
  then show "\<exists>rc w'. e age w = Some (rc, w') \<and> quiet w w' \<and> sql_inv (ext w') \<and> P (ext w')"
    using sql_inv_filter [of "ext (snd (sql_call (snd (c_time w))))" "\<lambda>r. \<not> pr_expires_at r <s w_clock w (w_ntime w)"]
    by (auto simp: sqlite_storage_def evict_expired_eq Let_def quiet_def assms sql_evict_def)
qed

interpretation sq: storage_port "\<lambda>x. sql_inv x \<and> True" sqlite_storage
  by (rule sqlite_storage_port) simp_all

section \<open>Properties\<close>

text \<open>A database connection of the witnesses: every call succeeds and the table is empty.\<close>

definition sql_empty :: "sql_state" where
  "sql_empty = \<lparr>q_rows = [], q_answers = (\<lambda>_. True), q_ncall = 0, q_handles = 0\<rparr>"

definition with_ext :: "'a \<Rightarrow> u64 \<Rightarrow> 'a world_scheme" where
  "with_ext x t = world.extend (calm t) x"

lemma with_ext_simps [simp]:
  "ext (with_ext x t) = x" "w_clock (with_ext x t) n = t" "w_heap (with_ext x t) k s"
  "w_live (with_ext x t) = 0" "w_trace (with_ext x t) = []"
  by (simp_all add: with_ext_def calm_def world.extend_def)

text \<open>
  C26. Store-and-forward round trip: a message saved through the store use case is returned by the
  next query for its receiver while it has not expired, with identifier, keys, hop count and payload
  unchanged; its timestamp comes back as the time of saving, not the time the sender wrote.
\<close>

theorem store_roundtrip:
  fixes w :: "'b sql_world"
  assumes inv: "sql_inv (ext w)" and m: "storable m" "msg_payload_len m \<le> 1000000000"
    and new: "\<forall>row\<in>set (q_rows (ext w)). pr_uuid row \<noteq> msg_uuid m"
    and up: "\<forall>n. q_answers (ext w) n" "\<forall>k n. w_heap w k n"
    and st: "ms_storage st = sqlite_storage"
    and valid: "w_clock w (Suc (w_ntime w)) \<le>s w_clock w (w_ntime w) + STORAGE_DEFAULT_RETENTION_SEC"
  shows "\<exists>w1. bc_store_save (Some st) (Some m) w = Some (BC_OK, w1) \<and>
    (\<exists>ms w2. bc_store_get_for_peer (Some st) (Some (msg_receiver_pubkey m)) (Some []) w1 = Some (BC_OK, Some ms, w2) \<and>
       m\<lparr>msg_timestamp := w_clock w (w_ntime w)\<rparr> \<in> set ms)"
proof -
  let ?t = "w_clock w (w_ntime w)" and ?row = "stored_row m (w_clock w (w_ntime w))"
  define w1 where "w1 = set_rows (q_rows (ext w) @ [?row]) (snd (sql_call (snd (c_time w))))"
  have saved: "bc_store_save (Some st) (Some m) w = Some (BC_OK, w1)"
    using new up st store_message_eq [OF m(1), of w]
    by (auto simp: bc_store_save_def sqlite_storage_def Let_def sql_insert_or_ignore_def list_ex_iff stored_row_def w1_def)
  have now: "w_clock w1 (w_ntime w1) = w_clock w (Suc (w_ntime w))"
    by (simp add: w1_def set_rows_def sql_call_def c_time_def)
  have wfm: "message_wf m" using m(1) by (simp add: storable_def)
  have row: "row_msg ?row = m\<lparr>msg_timestamp := ?t\<rparr>"
    using wfm m(2)
    by (auto simp: row_msg_def row_blob_def stored_row_def message_wf_def split: option.splits)
  let ?rows = "sql_get_pending (Some (msg_receiver_pubkey m)) (w_clock w1 (w_ntime w1)) (q_rows (ext w1))"
  have in_rows: "?row \<in> set ?rows" using valid unfolding now by (simp add: w1_def sql_get_pending_def stored_row_def)
  have "\<forall>row\<in>set ?rows. row_wf row"
    using inv stored_row_wf [OF m(1)] by (auto simp: w1_def sql_get_pending_def sql_inv_def)
  moreover have "oracles w1 = oracles w" by (simp add: w1_def)
  then have "w_heap (snd (c_time w1)) k n" for k n
    using up(2) oracles_heap [of "snd (c_time w1)" w] by simp
  ultimately obtain w2 where "read_rows ?rows 0 [] (snd (c_time w1)) = Some (BC_OK, map row_msg ?rows, w2)"
    using read_rows_complete [of ?rows "snd (c_time w1)" 0 "[]"] up(1) by (auto simp: w1_def)
  moreover have "length (msg_receiver_pubkey m) = 32" using wfm by (simp add: message_wf_def size_defs)
  ultimately have "sqlite_get_pending (Some (msg_receiver_pubkey m)) w1 = Some (BC_OK, map row_msg ?rows, w2)"
    using get_pending_eq [of "Some (msg_receiver_pubkey m)" w1] by simp
  moreover have "m\<lparr>msg_timestamp := ?t\<rparr> \<in> set (map row_msg ?rows)" using in_rows row by (metis image_eqI list.set_map)
  ultimately show ?thesis
    using saved st by (simp add: bc_store_get_for_peer_def sqlite_storage_def)
qed

lemma sql_empty_simps [simp]:
  "sql_inv sql_empty" "q_rows sql_empty = []" "q_answers sql_empty n" "q_handles sql_empty = 0"
  by (simp_all add: sql_empty_def sql_inv_def)

lemma sample_storable [simp]: "storable sample_msg"
  by (simp add: storable_def sample_msg_def message_wf_def size_defs)

definition sample_store :: "'b sql_state_scheme bc_msg_store" where
  "sample_store = \<lparr>ms_storage = sqlite_storage, ms_max_age_sec = BC_STORE_MAX_AGE_SEC\<rparr>"

theorem store_roundtrip_witness:
  "\<exists>w1. bc_store_save (Some sample_store) (Some sample_msg) (with_ext sql_empty 1000) = Some (BC_OK, w1) \<and>
    (\<exists>ms w2. bc_store_get_for_peer (Some sample_store) (Some (msg_receiver_pubkey sample_msg)) (Some []) w1
        = Some (BC_OK, Some ms, w2) \<and> sample_msg\<lparr>msg_timestamp := 1000\<rparr> \<in> set ms)"
  using store_roundtrip [of "with_ext sql_empty 1000" sample_msg "sample_store :: unit sql_state_scheme bc_msg_store"]
  by (simp add: sample_store_def sample_msg_def [THEN arg_cong, of msg_payload_len]
      STORAGE_DEFAULT_RETENTION_SEC_def word_sle_eq)

text \<open>The abstract view of the table: a map from message identifiers to rows.\<close>

definition pending_map :: "'b sql_state_scheme \<Rightarrow> (bytes \<rightharpoonup> pending_row)" where
  "pending_map x u = find (\<lambda>r. pr_uuid r = u) (q_rows x)"

lemma find_filter_key: "find (\<lambda>r. f r = u) (filter (\<lambda>r. f r \<noteq> v) rs) = (if u = v then None else find (\<lambda>r. f r = u) rs)"
  by (induction rs) auto

lemma find_filter_distinct:
  "distinct (map f rs) \<Longrightarrow> find (\<lambda>r. f r = u) (filter P rs) =
    (case find (\<lambda>r. f r = u) rs of None \<Rightarrow> None | Some r \<Rightarrow> if P r then Some r else None)"
proof (induction rs)
  case (Cons r rs)
  have "find (\<lambda>r. f r = u) (filter P rs) = None" if "f r = u"
    using Cons.prems that by (auto simp: find_None_iff) (metis imageI)
  with Cons show ?case by auto
qed simp

lemma find_append_key:
  "find P (xs @ [x]) = (case find P xs of Some y \<Rightarrow> Some y | None \<Rightarrow> if P x then Some x else None)"
  by (induction xs) auto

lemma find_insert:
  "find (\<lambda>r. pr_uuid r = u) (sql_insert_or_ignore row rs) =
    (if pr_uuid row \<notin> pr_uuid ` set rs \<and> u = pr_uuid row then Some row else find (\<lambda>r. pr_uuid r = u) rs)"
proof -
  have "find (\<lambda>r. pr_uuid r = pr_uuid row) rs = None" if "pr_uuid row \<notin> pr_uuid ` set rs"
    using that by (auto simp: find_None_iff) (metis imageI)
  then show ?thesis
    by (auto simp: sql_insert_or_ignore_def list_ex_iff find_append_key image_iff split: option.split)
      metis+
qed

lemma dom_pending_map: "dom (pending_map x) = pr_uuid ` set (q_rows x)"
  by (auto simp: pending_map_def dom_def find_Some_iff find_None_iff image_iff)

lemma map_store:
  fixes w :: "'b sql_world"
  assumes "storable m" "sqlite_store_message m w = Some (rc, w1)"
  shows "pending_map (ext w1) = (if rc = BC_OK \<and> msg_uuid m \<notin> dom (pending_map (ext w))
       then (pending_map (ext w))(msg_uuid m \<mapsto> stored_row m (w_clock w (w_ntime w))) else pending_map (ext w))"
  using assms(2)
  by (auto simp: store_message_eq [OF assms(1)] Let_def dom_pending_map pending_map_def fun_eq_iff find_insert
      pr_uuid_stored split: if_splits)

lemma map_delete:
  fixes w :: "'b sql_world"
  assumes "length u = 16" "sqlite_delete_message u w = Some (rc, w1)"
  shows "pending_map (ext w1) = (if rc = BC_OK then (pending_map (ext w))(u := None) else pending_map (ext w))"
  using assms(2)
  by (auto simp: delete_message_eq [OF assms(1)] pending_map_def sql_delete_def fun_eq_iff find_filter_key
      split: if_splits)

lemma map_evict:
  fixes w :: "'b sql_world"
  assumes "sql_inv (ext w)" "sqlite_evict_expired age w = Some (rc, w1)"
  shows "pending_map (ext w1) = (if rc = BC_OK
       then (\<lambda>u. case pending_map (ext w) u of None \<Rightarrow> None
              | Some r \<Rightarrow> if pr_expires_at r <s w_clock w (w_ntime w) then None else Some r)
       else pending_map (ext w))"
  using assms
  by (auto simp: evict_expired_eq Let_def pending_map_def sql_evict_def fun_eq_iff find_filter_distinct
      sql_inv_def split: if_splits option.split)

text \<open>
  C11. The database refines a map from identifiers to rows: saving binds the identifier only if it is
  free (the first copy of a message wins), deleting unbinds it, and eviction keeps exactly the rows
  whose expiry has not passed; a call that fails changes nothing.
\<close>

theorem sqlite_refines_map:
  fixes w :: "'b sql_world"
  assumes "sql_inv (ext w)" "storable m" "length u = 16"
  shows "(\<exists>rc w1. sqlite_store_message m w = Some (rc, w1) \<and>
      pending_map (ext w1) = (if rc = BC_OK \<and> msg_uuid m \<notin> dom (pending_map (ext w))
       then (pending_map (ext w))(msg_uuid m \<mapsto> stored_row m (w_clock w (w_ntime w))) else pending_map (ext w))) \<and>
    (\<exists>rc w1. sqlite_delete_message u w = Some (rc, w1) \<and>
      pending_map (ext w1) = (if rc = BC_OK then (pending_map (ext w))(u := None) else pending_map (ext w))) \<and>
    (\<exists>rc w1. sqlite_evict_expired age w = Some (rc, w1) \<and> pending_map (ext w1) = (if rc = BC_OK
       then (\<lambda>u. case pending_map (ext w) u of None \<Rightarrow> None
              | Some r \<Rightarrow> if pr_expires_at r <s w_clock w (w_ntime w) then None else Some r)
       else pending_map (ext w)))"
proof -
  obtain rc1 w1 rc2 w2 rc3 w3 where "sqlite_store_message m w = Some (rc1, w1)" "sqlite_delete_message u w = Some (rc2, w2)"
      "sqlite_evict_expired age w = Some (rc3, w3)"
    using store_message_eq [OF assms(2), of w] delete_message_eq [OF assms(3), of w] evict_expired_eq [of age w]
    by (metis prod.exhaust)
  then show ?thesis
    using map_store [OF assms(2), of w rc1 w1] map_delete [OF assms(3), of w rc2 w2] map_evict [OF assms(1), of age rc3 w3]
    by blast
qed

theorem sqlite_refines_map_witness:
  "\<exists>rc w1. sqlite_store_message sample_msg (with_ext sql_empty 1000) = Some (rc, w1) \<and>
     (rc = BC_OK \<longrightarrow> pending_map (ext w1) = [msg_uuid sample_msg \<mapsto> stored_row sample_msg 1000])"
proof -
  have e: "pending_map sql_empty = Map.empty" by (simp add: pending_map_def fun_eq_iff)
  show ?thesis
    using sqlite_refines_map [of "with_ext sql_empty 1000" sample_msg "replicate 16 7" 0] by (auto simp: e)
qed

lemma pending_message:
  assumes "sql_inv x" "m \<in> row_msg ` set (sql_get_pending pk now (q_rows x))"
  shows "storable m" "pk = Some k \<Longrightarrow> msg_receiver_pubkey m = k"
    "now \<le>s msg_timestamp m + STORAGE_DEFAULT_RETENTION_SEC"
proof -
  obtain row where row: "row \<in> set (q_rows x)" "m = row_msg row" "now \<le>s pr_expires_at row"
      "case pk of None \<Rightarrow> True | Some k \<Rightarrow> pr_receiver_pubkey row = k"
    using assms(2) by (auto simp: sql_get_pending_def)
  show "storable m" using row assms(1) by (simp add: row_msg_storable sql_inv_def)
  show "pk = Some k \<Longrightarrow> msg_receiver_pubkey m = k" "now \<le>s msg_timestamp m + STORAGE_DEFAULT_RETENTION_SEC"
    using row by (simp_all add: row_msg_def)
qed

text \<open>
  C29. What a query returns: on success the messages of the first rows, in the order of the table,
  that match the receiver (or of all receivers) and have not expired, each well-formed, in as many
  fresh heap blocks as the caller will free; all of them when the database and the heap answer; on
  lack of memory nothing, with every block released again. The table is not changed.
\<close>

theorem sqlite_pending_sound:
  fixes w :: "'b sql_world"
  assumes inv: "sql_inv (ext w)" and pk: "\<And>k. pk = Some k \<Longrightarrow> length k = 32"
  defines "rows \<equiv> sql_get_pending pk (w_clock w (w_ntime w)) (q_rows (ext w))"
  shows "\<exists>rc ms w'. sqlite_get_pending pk w = Some (rc, ms, w') \<and> q_rows (ext w') = q_rows (ext w) \<and>
    (if rc = BC_OK then \<exists>i. ms = map row_msg (take i rows) \<and> w_live w' = w_live w + blocks_of ms
     else rc = BC_ERR_NOMEM \<and> ms = [] \<and> w_live w' = w_live w) \<and>
    ((\<forall>n. q_answers (ext w) n) \<and> (\<forall>k n. w_heap w k n) \<longrightarrow> rc = BC_OK \<and> ms = map row_msg rows) \<and>
    (\<forall>m\<in>set ms. storable m \<and> (\<forall>k. pk = Some k \<longrightarrow> msg_receiver_pubkey m = k) \<and>
      w_clock w (w_ntime w) \<le>s msg_timestamp m + STORAGE_DEFAULT_RETENTION_SEC)"
proof -
  obtain rc ms w' k where r: "sqlite_get_pending pk w = Some (rc, ms, w')" "ext w' = (ext w)\<lparr>q_ncall := k\<rparr>"
    "if rc = BC_OK then \<exists>i. ms = map row_msg (take i rows) \<and> w_live w' = w_live w + blocks_of ms
     else rc = BC_ERR_NOMEM \<and> ms = [] \<and> w_live w' = w_live w"
    using get_pending_spec [OF pk inv] unfolding rows_def .
  have wf: "\<forall>row\<in>set rows. row_wf row" using inv by (auto simp: rows_def sql_get_pending_def sql_inv_def)
  have "rc = BC_OK \<and> ms = map row_msg rows" if up: "\<forall>n. q_answers (ext w) n" "\<forall>k n. w_heap w k n"
  proof -
    have "w_heap (snd (c_time w)) k n" for k n using up(2) oracles_heap [of "snd (c_time w)" w] by simp
    then obtain w2 where "read_rows rows 0 [] (snd (c_time w)) = Some (BC_OK, map row_msg rows, w2)"
      using read_rows_complete [of rows "snd (c_time w)" 0 "[]"] wf up(1) by auto
    then show ?thesis using r(1) get_pending_eq [of pk w, OF pk] by (simp add: rows_def)
  qed
  moreover have "m \<in> row_msg ` set rows" if m: "m \<in> set ms" for m
  proof -
    obtain i where "ms = map row_msg (take i rows)" using r(3) m by (auto split: if_splits)
    with m show ?thesis by (auto dest: in_set_takeD)
  qed
  then have "storable m \<and> (\<forall>k. pk = Some k \<longrightarrow> msg_receiver_pubkey m = k) \<and>
      w_clock w (w_ntime w) \<le>s msg_timestamp m + STORAGE_DEFAULT_RETENTION_SEC" if "m \<in> set ms" for m
    using that pending_message [OF inv, of m pk] unfolding rows_def by blast
  ultimately show ?thesis using r by auto
qed

theorem sqlite_pending_sound_witness:
  "\<exists>w'. sqlite_get_pending None (with_ext sql_empty 1000) = Some (BC_OK, [], w') \<and> w_live w' = 0"
  using sqlite_pending_sound [of "with_ext sql_empty 1000" None] by (auto simp: sql_get_pending_def blocks_of_def)

section \<open>Opening and closing\<close>

lemma prepare_from_spec:
  "\<exists>j\<le>n. fst (prepare_from n k w) = k + j \<and> w_live (snd (prepare_from n k w)) = w_live w \<and>
    w_trace (snd (prepare_from n k w)) = w_trace w \<and>
    q_rows (ext (snd (prepare_from n k w))) = q_rows (ext w) \<and>
    q_handles (ext (snd (prepare_from n k w))) = q_handles (ext w) + int j"
proof (induction n arbitrary: k w)
  case (Suc n)
  let ?w = "sql_handle 1 (snd (sql_call w))"
  obtain j where "j \<le> n" "fst (prepare_from n (Suc k) ?w) = Suc k + j"
    "w_live (snd (prepare_from n (Suc k) ?w)) = w_live ?w"
    "w_trace (snd (prepare_from n (Suc k) ?w)) = w_trace ?w"
    "q_rows (ext (snd (prepare_from n (Suc k) ?w))) = q_rows (ext ?w)"
    "q_handles (ext (snd (prepare_from n (Suc k) ?w))) = q_handles (ext ?w) + int j"
    using Suc.IH [of "Suc k" ?w] by blast
  then show ?case
    by (cases "fst (sql_call w)")
      (auto simp: case_prod_beta intro: exI [of _ "Suc j"] exI [of _ 0])
qed simp

text \<open>Opening touches nothing of the surrounding state but the call counter and the handle count.\<close>

lemma prepare_from_frame:
  assumes "\<And>g x. f (q_ncall_update g x) = f x" "\<And>g x. f (q_handles_update g x) = f x"
  shows "f (ext (snd (prepare_from n k w))) = f (ext w)"
  using assms by (induction n arbitrary: k w) (simp_all add: case_prod_beta)

lemma sqlite_create_frame:
  assumes "\<And>g x. f (q_ncall_update g x) = f x" "\<And>g x. f (q_handles_update g x) = f x"
  shows "f (ext (snd (bc_storage_sqlite_create path w))) = f (ext w)"
  using prepare_from_frame [of f, OF assms] assms
  by (simp add: bc_storage_sqlite_create_def Let_def case_prod_beta)

lemma sqlite_create_spec:
  fixes w :: "'b sql_world"
  assumes "bc_storage_sqlite_create path w = (so, w')"
  shows "q_rows (ext w') = q_rows (ext w) \<and> w_trace w' = w_trace w \<and>
    (case so of
       Some s \<Rightarrow> s = sqlite_storage \<and> w_live (sqlite_destroy w') = w_live w \<and>
         q_handles (ext (sqlite_destroy w')) = q_handles (ext w)
     | None \<Rightarrow> w_live w' = w_live w \<and>
         q_handles (ext w') = q_handles (ext w) +
           (if path \<noteq> None \<and> fst (c_malloc sizeof_sqlite_ctx w) \<and> q_answers (ext w) (q_ncall (ext w)) \<and>
               \<not> q_answers (ext w) (Suc (q_ncall (ext w))) then 1 else 0))"
proof -
  define w3 where "w3 = sql_handle 1 (snd (sql_call (snd (c_malloc sizeof_sqlite_ctx w))))"
  define w7 where "w7 = snd (sql_call (snd (sql_call (snd (sql_call (snd (sql_call w3)))))))"
  obtain j where j: "j \<le> 5" "fst (prepare_from 5 0 w7) = j" "w_live (snd (prepare_from 5 0 w7)) = w_live w7"
    "w_trace (snd (prepare_from 5 0 w7)) = w_trace w7"
    "q_rows (ext (snd (prepare_from 5 0 w7))) = q_rows (ext w7)"
    "q_handles (ext (snd (prepare_from 5 0 w7))) = q_handles (ext w7) + int j"
    using prepare_from_spec [of 5 0 w7] by auto
  have w3: "w_trace w3 = w_trace w" "w_live w3 = w_live w + (if fst (c_malloc sizeof_sqlite_ctx w) then 1 else 0)"
      "q_rows (ext w3) = q_rows (ext w)" "q_handles (ext w3) = q_handles (ext w) + 1"
      "q_answers (ext w3) = q_answers (ext w)" "q_ncall (ext w3) = Suc (q_ncall (ext w))"
    by (simp_all add: w3_def)
  have w7: "w_trace w7 = w_trace w3" "w_live w7 = w_live w3" "q_rows (ext w7) = q_rows (ext w3)"
      "q_handles (ext w7) = q_handles (ext w3)"
    by (simp_all add: w7_def)
  show ?thesis
    using assms j
    by (auto simp: w3 w7 sqlite_destroy_def bc_storage_sqlite_create_def Let_def case_prod_beta w3_def [symmetric] w7_def [symmetric]
        split: if_splits)
qed

text \<open>
  Opening the database never touches the stored messages; if it succeeds, destroying the adapter
  returns every heap block, statement and connection; if it fails, no heap block is left behind, and
  neither is any handle unless \<open>sqlite3_open_v2\<close> itself failed after allocating the connection, which
  the code does not close.
\<close>

lemma sqlite_create_destroy:
  fixes w :: "'b sql_world"
  assumes "bc_storage_sqlite_create path w = (so, w')"
  shows "q_rows (ext w') = q_rows (ext w) \<and> w_trace w' = w_trace w \<and>
    (case so of
       Some s \<Rightarrow> s = sqlite_storage \<and> w_live (sqlite_destroy w') = w_live w \<and>
         q_handles (ext (sqlite_destroy w')) = q_handles (ext w)
     | None \<Rightarrow> w_live w' = w_live w \<and>
         q_handles (ext w') = q_handles (ext w) +
           (if path \<noteq> None \<and> fst (c_malloc sizeof_sqlite_ctx w) \<and> q_answers (ext w) (q_ncall (ext w)) \<and>
               \<not> q_answers (ext w) (Suc (q_ncall (ext w))) then 1 else 0))"
  using sqlite_create_spec [OF assms] .

end
