(* ===== verification/Transport_Udp.thy ===== *)
theory Transport_Udp
  imports Router_Correct Discovery Sqlite
begin

text \<open>
  The transport of the simulator, \<^verbatim>\<open>src/infra/transport_udp_sim.c\<close>, over the documented behaviour of
  the socket calls. The answer of the \<open>n\<close>-th \<open>recvfrom\<close> is a free function \<open>u_incoming\<close> (\<open>None\<close> when nothing
  is waiting), and so is the success of the \<open>n\<close>-th other call. \<open>u_outgoing\<close> records, as a ghost, the
  datagrams the kernel accepted, and \<open>u_sockets\<close> counts the open sockets.

  The private context does not change after the constructor, so the vtable carries it as a value.
\<close>

record udp_ctx =
  uc_sockfd :: int
  uc_my_port :: u16
  uc_peer_ports :: "u16 list option"
  uc_peer_count :: nat

record udp_state = sql_state +
  u_incoming :: "nat \<Rightarrow> bytes option"
  u_nrecv :: nat
  u_answers :: "nat \<Rightarrow> bool"
  u_ncall :: nat
  u_outgoing :: "(u16 \<times> bytes) list"
  u_sockets :: int

type_synonym 'b udp_world = "'b udp_state_scheme world_scheme"

section \<open>Sockets\<close>

definition udp_call :: "'b udp_world \<Rightarrow> bool \<times> 'b udp_world" where
  "udp_call w = (u_answers (ext w) (u_ncall (ext w)), on_ext (u_ncall_update Suc) w)"

text \<open>\<open>sendto\<close> of a whole datagram to a port of the loopback interface.\<close>

definition c_sendto :: "u16 \<Rightarrow> bytes \<Rightarrow> 'b udp_world \<Rightarrow> bool \<times> 'b udp_world" where
  "c_sendto port d w =
     (let (ok, w) = udp_call w in
      (ok, if ok then on_ext (u_outgoing_update (\<lambda>ds. ds @ [(port, d)])) w else w))"

text \<open>\<open>recvfrom\<close> writes at most the buffer's size; the rest of a longer datagram is lost.\<close>

definition c_recvfrom :: "bytes \<Rightarrow> nat \<Rightarrow> 'b udp_world \<Rightarrow> (int \<times> bytes \<times> 'b udp_world) option" where
  "c_recvfrom buf buf_len w =
     (let w' = on_ext (u_nrecv_update Suc) w in
      case u_incoming (ext w) (u_nrecv (ext w)) of
        None \<Rightarrow> Some (-1, buf, w')
      | Some d \<Rightarrow>
          (let n = min (length d) buf_len in
           do { buf \<leftarrow> memcpy buf 0 d 0 n; Some (int n, buf, w') }))"

definition c_close :: "'b udp_world \<Rightarrow> 'b udp_world" where
  "c_close w = on_ext (u_sockets_update (\<lambda>n. n - 1)) w"

section \<open>The adapter\<close>

definition udp_init :: "'b udp_world \<Rightarrow> bc_err \<times> 'b udp_world" where
  "udp_init w = (BC_OK, w)"

function send_to_ports ::
  "udp_ctx \<Rightarrow> bytes \<Rightarrow> nat \<Rightarrow> bool \<Rightarrow> 'b udp_world \<Rightarrow> (bool \<times> 'b udp_world) option" where
  "send_to_ports ctx d i sent_any w =
     (if i < uc_peer_count ctx then
        do {
          ports \<leftarrow> uc_peer_ports ctx;
          port \<leftarrow> mem_get ports i;
          let (ok, w) = c_sendto port d w;
          send_to_ports ctx d (Suc i) (sent_any \<or> ok) w
        }
      else Some (sent_any, w))"
  by pat_completeness auto
termination
  by (relation "measure (\<lambda>(ctx, d, i, sent_any, w). uc_peer_count ctx - i)") auto

declare send_to_ports.simps [simp del]

definition udp_send :: "udp_ctx \<Rightarrow> 'b udp_state_scheme send_fn" where
  "udp_send ctx pubkey data len w =
     (if len = 0 then Some (BC_ERR_INVALID, w)
      else do {
        d \<leftarrow> mem_read data 0 len;
        (sent_any, w) \<leftarrow> send_to_ports ctx d 0 False w;
        Some (if sent_any then BC_OK else BC_ERR_TRANSPORT, w)
      })"

definition udp_recv :: "udp_ctx \<Rightarrow> 'b udp_state_scheme recv_fn" where
  "udp_recv ctx buf buf_len out_len pubkey_out w =
     do {
       (n, buf, w) \<leftarrow> c_recvfrom buf buf_len w;
       (if n \<le> 0 then Some (BC_ERR, buf, 0, pubkey_out, w)
        else Some (BC_OK, buf, nat n, replicate BC_PUBKEY_SIZE 0, w))
     }"

text \<open>The synthetic peer of a port: its number in the first two bytes of the key, low byte first.\<close>

definition port_peer :: "u16 \<Rightarrow> bc_peer" where
  "port_peer port = peer_zero\<lparr>
     peer_pubkey := (peer_pubkey peer_zero)[0 := ucast (port AND 0xFF),
                                            1 := ucast (drop_bit 8 port AND 0xFF)],
     peer_transport := BC_TRANSPORT_WIFI_DIRECT\<rparr>"

function fill_peers :: "udp_ctx \<Rightarrow> nat \<Rightarrow> nat \<Rightarrow> bc_peer list \<Rightarrow> bc_peer list option" where
  "fill_peers ctx n i out =
     (if i < n then
        do {
          ports \<leftarrow> uc_peer_ports ctx;
          port \<leftarrow> mem_get ports i;
          out \<leftarrow> mem_set out i (port_peer port);
          fill_peers ctx n (Suc i) out
        }
      else Some out)"
  by pat_completeness auto
termination
  by (relation "measure (\<lambda>(ctx, n, i, out). n - i)") auto

declare fill_peers.simps [simp del]

definition udp_discover_peers :: "udp_ctx \<Rightarrow> 'b udp_state_scheme discover_fn" where
  "udp_discover_peers ctx peers_out max_peers found w =
     (let n = (if uc_peer_count ctx > max_peers then max_peers else uc_peer_count ctx) in
      do { out \<leftarrow> fill_peers ctx n 0 peers_out; Some (BC_OK, out, n, w) })"

definition udp_destroy :: "udp_ctx \<Rightarrow> 'b udp_world \<Rightarrow> 'b udp_world" where
  "udp_destroy ctx w =
     (let w = (if uc_sockfd ctx \<ge> 0 then c_close w else w);
          w = (if uc_peer_ports ctx \<noteq> None then c_free w else w) in
      c_free w)"

definition udp_transport :: "udp_ctx \<Rightarrow> 'b udp_state_scheme bc_transport" where
  "udp_transport ctx = \<lparr>tr_init = Some udp_init, tr_send = Some (udp_send ctx),
     tr_recv = Some (udp_recv ctx), tr_discover_peers = Some (udp_discover_peers ctx),
     tr_destroy = Some (udp_destroy ctx)\<rparr>"

definition sizeof_udp_ctx :: nat where "sizeof_udp_ctx = 24"

text \<open>
  The constructor. \<open>free_ctx\<close> is the clean-up its error paths share; \<open>fd\<close> is the descriptor the
  kernel would hand out, and \<open>bind\<close> and \<open>socket\<close> succeed or fail as the kernel decides.
\<close>

definition free_ctx :: "udp_ctx \<Rightarrow> 'b udp_world \<Rightarrow> 'b udp_world" where
  "free_ctx ctx w = c_free (if uc_peer_ports ctx \<noteq> None then c_free w else w)"

definition bc_transport_udp_create ::
  "nat \<Rightarrow> u16 \<Rightarrow> u16 list option \<Rightarrow> nat \<Rightarrow> 'b udp_world \<Rightarrow>
   ((udp_ctx \<times> 'b udp_state_scheme bc_transport) option \<times> 'b udp_world) option" where
  "bc_transport_udp_create fd my_port peer_ports peer_count w =
     (let (ok, w) = c_malloc sizeof_udp_ctx w in
      if \<not> ok then Some (None, w)
      else do {
        let ctx = \<lparr>uc_sockfd = -1, uc_my_port = my_port, uc_peer_ports = None, uc_peer_count = 0\<rparr>;
        (ctx, w) \<leftarrow>
          (case peer_ports of
             Some ports \<Rightarrow>
               if peer_count > 0 then
                 let (ok, w) = c_malloc (peer_count * 2) w in
                 if \<not> ok then Some (None, c_free w)
                 else do {
                   ps \<leftarrow> mem_read ports 0 peer_count;
                   Some (Some (ctx\<lparr>uc_peer_ports := Some ps, uc_peer_count := peer_count\<rparr>), w)
                 }
               else Some (Some ctx, w)
           | None \<Rightarrow> Some (Some ctx, w));
        (case ctx of
           None \<Rightarrow> Some (None, w)
         | Some ctx \<Rightarrow>
             let (ok, w) = udp_call w in
             if \<not> ok then Some (None, free_ctx ctx w)
             else
               let ctx = ctx\<lparr>uc_sockfd := int fd\<rparr>;
                   w = on_ext (u_sockets_update (\<lambda>n. n + 1)) w;
                   (_, w) = udp_call w;
                   (bound, w) = udp_call w in
               if \<not> bound then Some (None, free_ctx ctx (c_close w))
               else
                 let (ok, w) = c_malloc 48 w in
                 if \<not> ok then Some (None, free_ctx ctx (c_close w))
                 else Some (Some (ctx, udp_transport ctx), w))
      })"

section \<open>What the adapter does\<close>

definition ports_of :: "udp_ctx \<Rightarrow> u16 list" where
  "ports_of ctx = (case uc_peer_ports ctx of None \<Rightarrow> [] | Some ps \<Rightarrow> ps)"

definition udp_ctx_wf :: "udp_ctx \<Rightarrow> bool" where
  "udp_ctx_wf ctx \<longleftrightarrow> uc_peer_count ctx = length (ports_of ctx)"

text \<open>The adapter's own fields, apart from the reading position.\<close>

definition udp_out :: "nat \<Rightarrow> (u16 \<times> bytes) list \<Rightarrow> 'b udp_world \<Rightarrow> 'b udp_world" where
  "udp_out n ds w = on_ext (u_ncall_update (\<lambda>_. n) \<circ> u_outgoing_update (\<lambda>os. os @ ds)) w"

lemma udp_out_frame [simp]:
  "w_trace (udp_out n ds w) = w_trace w" "w_live (udp_out n ds w) = w_live w" "oracles (udp_out n ds w) = oracles w"
  "ext (udp_out n ds w) = u_ncall_update (\<lambda>_. n) (u_outgoing_update (\<lambda>os. os @ ds) (ext w))"
  by (simp_all add: udp_out_def)

lemma ports_nth: "udp_ctx_wf ctx \<Longrightarrow> i < uc_peer_count ctx \<Longrightarrow>
    uc_peer_ports ctx = Some (ports_of ctx) \<and> i < length (ports_of ctx)"
  by (cases "uc_peer_ports ctx") (auto simp: udp_ctx_wf_def ports_of_def)

lemma udp_world_eqI:
  "world.truncate w = world.truncate w' \<Longrightarrow> ext w = ext w' \<Longrightarrow> w = (w' :: 'a world_scheme)"
  by (cases w, cases w') (simp add: world.truncate_def)

lemma udp_out_nothing [simp]: "udp_out (u_ncall (ext w)) [] w = w"
  by (rule udp_world_eqI) (simp_all add: udp_out_def on_ext_def world.truncate_def)

lemma udp_out_out: "udp_out n ds (udp_out m es w) = udp_out n (es @ ds) w"
  by (rule udp_world_eqI) (simp_all add: udp_out_def on_ext_def world.truncate_def)

text \<open>
  A send makes one \<open>sendto\<close> per configured port, in order; the datagrams accepted are those of the
  ports whose call succeeded.
\<close>

lemma send_to_ports_spec:
  assumes "udp_ctx_wf ctx" "i \<le> uc_peer_count ctx"
  shows "\<exists>ds. send_to_ports ctx d i any w =
      Some (any \<or> ds \<noteq> [], udp_out (u_ncall (ext w) + (uc_peer_count ctx - i)) ds w) \<and>
    ds = map (\<lambda>j. (ports_of ctx ! j, d))
      (filter (\<lambda>j. u_answers (ext w) (u_ncall (ext w) + (j - i))) [i..<uc_peer_count ctx])"
  using assms
proof (induction "uc_peer_count ctx - i" arbitrary: i any w)
  case 0
  then show ?case
    by (subst send_to_ports.simps) auto
next
  case (Suc k)
  have i: "i < uc_peer_count ctx" using Suc.hyps(2) by simp
  note p = ports_nth [OF Suc.prems(1) i]
  let ?w1 = "snd (c_sendto (ports_of ctx ! i) d w)" and ?ok = "u_answers (ext w) (u_ncall (ext w))"
  have step: "send_to_ports ctx d i any w = send_to_ports ctx d (Suc i) (any \<or> ?ok) ?w1"
    using i p by (subst send_to_ports.simps)
      (simp add: mem_simps c_sendto_def udp_call_def case_prod_beta Let_def)
  have w1: "?w1 = udp_out (Suc (u_ncall (ext w))) (if ?ok then [(ports_of ctx ! i, d)] else []) w"
    by (rule udp_world_eqI)
      (simp_all add: c_sendto_def udp_call_def udp_out_def on_ext_def world.truncate_def)
  obtain ds where IH: "send_to_ports ctx d (Suc i) (any \<or> ?ok) ?w1 =
        Some ((any \<or> ?ok) \<or> ds \<noteq> [], udp_out (u_ncall (ext ?w1) + (uc_peer_count ctx - Suc i)) ds ?w1)"
      "ds = map (\<lambda>j. (ports_of ctx ! j, d))
        (filter (\<lambda>j. u_answers (ext ?w1) (u_ncall (ext ?w1) + (j - Suc i))) [Suc i..<uc_peer_count ctx])"
    using Suc.hyps(1) [of "Suc i" "any \<or> ?ok" ?w1] Suc.hyps(2) Suc.prems i by auto
  have n1: "u_ncall (ext ?w1) = Suc (u_ncall (ext w))" by (simp add: w1)
  have up: "[i..<uc_peer_count ctx] = i # [Suc i..<uc_peer_count ctx]" using i by (rule upt_conv_Cons)
  have "filter (\<lambda>j. u_answers (ext ?w1) (u_ncall (ext ?w1) + (j - Suc i))) [Suc i..<uc_peer_count ctx]
      = filter (\<lambda>j. u_answers (ext w) (u_ncall (ext w) + (j - i))) [Suc i..<uc_peer_count ctx]"
  proof (rule filter_cong)
    fix j assume "j \<in> set [Suc i..<uc_peer_count ctx]"
    then have "Suc i \<le> j" by simp
    then have "u_ncall (ext ?w1) + (j - Suc i) = u_ncall (ext w) + (j - i)"
      using n1 by arith
    moreover have "u_answers (ext ?w1) = u_answers (ext w)" by (simp add: w1)
    ultimately show "u_answers (ext ?w1) (u_ncall (ext ?w1) + (j - Suc i))
        = u_answers (ext w) (u_ncall (ext w) + (j - i))" by (simp only:)
  qed simp
  moreover have "udp_out (u_ncall (ext ?w1) + (uc_peer_count ctx - Suc i)) ds ?w1
      = udp_out (u_ncall (ext w) + (uc_peer_count ctx - i)) ((if ?ok then [(ports_of ctx ! i, d)] else []) @ ds) w"
  proof -
    have "u_ncall (ext ?w1) + (uc_peer_count ctx - Suc i) = u_ncall (ext w) + (uc_peer_count ctx - i)"
      using n1 i by arith
    then show ?thesis by (simp only: w1 udp_out_out)
  qed
  ultimately show ?case using step IH up by (auto simp del: udp_out_frame)
qed

lemma udp_send_spec:
  assumes "udp_ctx_wf ctx" "0 < n" "n \<le> length d"
  shows "udp_send ctx pk d n w = (let ds = map (\<lambda>j. (ports_of ctx ! j, take n d))
      (filter (\<lambda>j. u_answers (ext w) (u_ncall (ext w) + j)) [0..<uc_peer_count ctx]) in
    Some (if ds \<noteq> [] then BC_OK else BC_ERR_TRANSPORT, udp_out (u_ncall (ext w) + uc_peer_count ctx) ds w))"
  using send_to_ports_spec [OF assms(1), of 0 "take n d" False w] assms
  by (auto simp: udp_send_def mem_read_def Let_def)

lemma fill_peers_spec:
  assumes "udp_ctx_wf ctx" "n \<le> uc_peer_count ctx" "n \<le> length out" "i \<le> n"
  shows "fill_peers ctx n i out =
    Some (take i out @ map port_peer (drop i (take n (ports_of ctx))) @ drop n out)"
  using assms
proof (induction "n - i" arbitrary: i out)
  case 0
  then show ?case by (subst fill_peers.simps) simp
next
  case (Suc k)
  then have i: "i < n" "i < uc_peer_count ctx" "i < length out" by simp_all
  note p = ports_nth [OF Suc.prems(1) i(2)]
  let ?out = "out[i := port_peer (ports_of ctx ! i)]"
  have "fill_peers ctx n i out = fill_peers ctx n (Suc i) ?out"
    using i p by (subst fill_peers.simps) (simp add: mem_simps)
  also have "\<dots> = Some (take (Suc i) ?out @ map port_peer (drop (Suc i) (take n (ports_of ctx))) @ drop n ?out)"
    using Suc i by (intro Suc.hyps(1)) simp_all
  also have "take (Suc i) ?out = take i out @ [port_peer (ports_of ctx ! i)]"
    using i by (simp add: take_Suc_conv_app_nth)
  also have "drop n ?out = drop n out" using i by simp
  also have "drop i (take n (ports_of ctx)) = ports_of ctx ! i # drop (Suc i) (take n (ports_of ctx))"
    using i p Cons_nth_drop_Suc [of i "take n (ports_of ctx)"] by simp
  then have "take i out @ [port_peer (ports_of ctx ! i)] @ map port_peer (drop (Suc i) (take n (ports_of ctx)))
      = take i out @ map port_peer (drop i (take n (ports_of ctx)))" by simp
  ultimately show ?case by simp
qed

section \<open>The transport contract\<close>

lemma recvfrom_ok:
  "\<exists>n b'. c_recvfrom b (length b) w = Some (n, b', on_ext (u_nrecv_update Suc) w) \<and> length b' = length b \<and>
    n \<le> int (length b) \<and> (0 < n \<longrightarrow> (\<exists>d. u_incoming (ext w) (u_nrecv (ext w)) = Some d \<and> d \<noteq> [] \<and>
      take (nat n) b' = take (length b) d))"
  by (auto simp: c_recvfrom_def memcpy_def Let_def min_def split: option.split)

lemma port_peer_wf [simp]: "peer_wf (port_peer p)"
  by (simp add: port_peer_def peer_wf_def peer_zero_def)

text \<open>
  As for the database, the contract is kept together with any property \<open>P\<close> of the state to which the
  adapter's bookkeeping does not matter.
\<close>

lemma udp_transport_port:
  fixes P :: "'b udp_state_scheme \<Rightarrow> bool"
  assumes wf: "udp_ctx_wf ctx"
    and P: "\<And>f x. P (u_ncall_update f x) = P x" "\<And>f x. P (u_outgoing_update f x) = P x"
  shows "transport_port P (udp_transport ctx)"
proof
  fix f and pk d :: bytes and n and w :: "'b udp_world"
  assume "tr_send (udp_transport ctx :: 'b udp_state_scheme bc_transport) = Some f" "n \<le> length d" "P (ext w)"
  then show "\<exists>rc w'. f pk d n w = Some (rc, w') \<and> quiet w w' \<and> P (ext w')"
    using udp_send_spec [OF wf, of n d pk w]
    by (cases "n = 0") (auto simp: udp_transport_def udp_send_def quiet_def P Let_def)
next
  fix h and ps :: "bc_peer list" and mx k and w :: "'b udp_world"
  assume "tr_discover_peers (udp_transport ctx :: 'b udp_state_scheme bc_transport) = Some h"
    "length ps = mx" "P (ext w)"
  then show "\<exists>rc ps' k' w'. h ps mx k w = Some (rc, ps', k', w') \<and> length ps' = mx \<and>
      (rc = BC_OK \<longrightarrow> k' \<le> mx \<and> (\<forall>p\<in>set (take k' ps'). peer_wf p)) \<and> quiet w w' \<and> P (ext w')"
    using wf fill_peers_spec [OF wf, of "if uc_peer_count ctx > mx then mx else uc_peer_count ctx" ps 0]
    by (auto simp: udp_transport_def udp_discover_peers_def Let_def udp_ctx_wf_def)
qed

text \<open>
  The environment's side of the contract: the socket is empty again and again, and no datagram has a
  length field that overflows the 32-bit check. \<open>udp_quota k\<close> adds that at most \<open>k\<close> datagrams come
  before the socket is next empty.
\<close>

definition udp_live :: "'b udp_state_scheme \<Rightarrow> bool" where
  "udp_live x \<longleftrightarrow> (\<forall>n. \<exists>k\<ge>n. u_incoming x k = None) \<and>
     (\<forall>i d. u_incoming x i = Some d \<longrightarrow> 93 \<le> length d \<longrightarrow> 93 + wire_plen d < 2 ^ 32)"

definition udp_quota :: "nat \<Rightarrow> 'b udp_state_scheme \<Rightarrow> bool" where
  "udp_quota k x \<longleftrightarrow> udp_live x \<and> (\<exists>j\<le>k. u_incoming x (u_nrecv x + j) = None)"

lemma udp_live_frame [simp]:
  "udp_live (u_ncall_update f x) = udp_live x" "udp_live (u_outgoing_update g x) = udp_live x"
  "udp_live (q_ncall_update h x) = udp_live x" "udp_live (q_rows_update i x) = udp_live x"
  "udp_live (u_nrecv_update j x) = udp_live x"
  by (simp_all add: udp_live_def)

lemma udp_quota_frame [simp]:
  "udp_quota k (u_ncall_update f x) = udp_quota k x" "udp_quota k (u_outgoing_update g x) = udp_quota k x"
  "udp_quota k (q_ncall_update h x) = udp_quota k x" "udp_quota k (q_rows_update i x) = udp_quota k x"
  by (simp_all add: udp_quota_def)

lemma udp_quota_ex: "udp_live x \<Longrightarrow> \<exists>k. udp_quota k x"
  unfolding udp_quota_def by (metis le_add_diff_inverse order_refl udp_live_def)

lemma wire_plen_prefix:
  assumes "take n b = take n d" "93 \<le> n"
  shows "wire_plen b = wire_plen d"
proof -
  have "take 4 (drop 89 x) = take 4 (drop 89 (take n x))" for x :: bytes
    using assms(2) by (simp add: drop_take)
  then have "take 4 (drop 89 b) = take 4 (drop 89 d)" using assms(1) by metis
  then show ?thesis by (simp add: wire_plen_def)
qed

lemma udp_draining:
  fixes Q :: "'b udp_state_scheme \<Rightarrow> bool"
  assumes Q: "\<And>f x. Q (u_nrecv_update f x) = Q x"
  shows "draining_transport (\<lambda>k x. udp_quota k x \<and> Q x) (udp_transport ctx)"
proof
  fix g k and b pk :: bytes and n and w :: "'b udp_world"
  assume g: "tr_recv (udp_transport ctx :: 'b udp_state_scheme bc_transport) = Some g"
    and J: "udp_quota k (ext w) \<and> Q (ext w)"
  let ?x = "u_nrecv_update Suc (ext w)"
  obtain m b' where r: "c_recvfrom b (length b) w = Some (m, b', on_ext (u_nrecv_update Suc) w)"
      "length b' = length b" "m \<le> int (length b)"
      "0 < m \<longrightarrow> (\<exists>d. u_incoming (ext w) (u_nrecv (ext w)) = Some d \<and> d \<noteq> [] \<and> take (nat m) b' = take (length b) d)"
    using recvfrom_ok [of b w] by blast
  have lv: "udp_live ?x" and Qx: "Q ?x" using J Q by (simp_all add: udp_quota_def)
  show "\<exists>rc b' n' pk' w' k'. g b (length b) n pk w = Some (rc, b', n', pk', w') \<and> length b' = length b \<and>
      (rc = BC_OK \<longrightarrow> n' \<le> length b) \<and> quiet w w' \<and> (udp_quota k' (ext w') \<and> Q (ext w')) \<and>
      (rc = BC_OK \<and> 0 < n' \<longrightarrow> k' < k \<and> (93 \<le> n' \<longrightarrow> 93 + wire_plen b' < 2 ^ 32))"
  proof (cases "0 < m")
    case False
    obtain k' where "udp_quota k' ?x" using udp_quota_ex [OF lv] by blast
    moreover have "g b (length b) n pk w = Some (BC_ERR, b', 0, pk, on_ext (u_nrecv_update Suc) w)"
      using g r(1) False by (auto simp: udp_transport_def udp_recv_def)
    ultimately show ?thesis using r(2) Qx by (fastforce simp: quiet_def)
  next
    case True
    then obtain d where d: "u_incoming (ext w) (u_nrecv (ext w)) = Some d" "take (nat m) b' = take (length b) d"
      using r(4) by blast
    from J obtain j where j: "j \<le> k" "u_incoming (ext w) (u_nrecv (ext w) + j) = None"
      by (auto simp: udp_quota_def)
    with d have "0 < j" by (cases j) auto
    then have q: "udp_quota (k - 1) ?x" "k - 1 < k"
      using j lv by (auto simp: udp_quota_def intro!: exI [of _ "j - 1"])
    have "93 + wire_plen b' < 2 ^ 32" if "93 \<le> nat m"
    proof -
      have m: "nat m \<le> length b'" using r by simp
      have "length (take (length b) d) = nat m" using d(2) m by (metis length_take min.absorb2)
      then have "take (nat m) b' = take (nat m) d" "93 \<le> length d"
        using d(2) that by (metis min.cobounded1 take_all_iff take_take length_take min.absorb1 nat_le_linear, simp)
      then show ?thesis using wire_plen_prefix [of "nat m" b' d] that lv d(1) by (auto simp: udp_live_def)
    qed
    moreover have "g b (length b) n pk w
        = Some (BC_OK, b', nat m, replicate BC_PUBKEY_SIZE 0, on_ext (u_nrecv_update Suc) w)"
      using g r(1) True by (auto simp: udp_transport_def udp_recv_def)
    ultimately show ?thesis using r(2,3) Qx q by (fastforce simp: quiet_def)
  qed
qed

text \<open>The contexts the constructor builds from a list of ports.\<close>

definition udp_ctx_of :: "int \<Rightarrow> u16 \<Rightarrow> u16 list \<Rightarrow> udp_ctx" where
  "udp_ctx_of fd my_port ports = \<lparr>uc_sockfd = fd, uc_my_port = my_port,
     uc_peer_ports = (if ports = [] then None else Some ports), uc_peer_count = length ports\<rparr>"

lemma udp_ctx_of_simps [simp]:
  "udp_ctx_wf (udp_ctx_of fd p ports)" "ports_of (udp_ctx_of fd p ports) = ports"
  "uc_peer_count (udp_ctx_of fd p ports) = length ports"
  by (auto simp: udp_ctx_of_def udp_ctx_wf_def ports_of_def)

definition udp_inv :: "nat \<Rightarrow> 'b udp_state_scheme \<Rightarrow> bool" where
  "udp_inv k x \<longleftrightarrow> udp_quota k x \<and> sql_inv x"

lemma sql_inv_udp [simp]:
  "sql_inv (u_ncall_update f x) = sql_inv x" "sql_inv (u_outgoing_update g x) = sql_inv x"
  "sql_inv (u_nrecv_update h x) = sql_inv x"
  by (simp_all add: sql_inv_def)

interpretation ud: transport_port "udp_inv k" "udp_transport (udp_ctx_of fd my_port ports)"
  for k fd my_port ports
  by (rule udp_transport_port) (simp_all add: udp_inv_def)

interpretation ud_poll: draining_transport udp_inv "udp_transport (udp_ctx_of fd my_port ports)"
  for fd my_port ports
  using udp_draining [of sql_inv "udp_ctx_of fd my_port ports"] by (simp add: udp_inv_def [abs_def])

interpretation ud_sq: storage_port "udp_inv k" sqlite_storage for k
  using sqlite_storage_port [of "udp_quota k"] by (simp add: udp_inv_def [abs_def] conj_commute)

section \<open>Properties\<close>

definition udp_idle :: "bool \<Rightarrow> udp_state" where
  "udp_idle ok = sql_state.extend sql_empty (udp_state.fields (\<lambda>_. None) 0 (\<lambda>_. ok) 0 [] 0)"

lemma udp_idle_simps [simp]:
  "u_incoming (udp_idle ok) n = None" "u_answers (udp_idle ok) n = ok" "u_outgoing (udp_idle ok) = []"
  "u_nrecv (udp_idle ok) = 0" "u_ncall (udp_idle ok) = 0" "u_sockets (udp_idle ok) = 0"
  "q_rows (udp_idle ok) = []" "q_answers (udp_idle ok) n" "q_ncall (udp_idle ok) = 0"
  by (simp_all add: udp_idle_def sql_state.extend_def udp_state.fields_def sql_empty_def)

lemma udp_idle_inv [simp]: "udp_live (udp_idle ok)" "udp_inv 0 (udp_idle ok)"
  by (auto simp: udp_live_def udp_inv_def udp_quota_def sql_inv_def)

lemma udp_create_spec:
  fixes w :: "'b udp_world"
  assumes "bc_transport_udp_create fd my_port po n w = Some (res, w')"
  shows "case res of
      None \<Rightarrow> w_live w' = w_live w \<and> u_sockets (ext w') = u_sockets (ext w)
    | Some (ctx, t) \<Rightarrow> t = udp_transport ctx \<and>
        ctx = udp_ctx_of (int fd) my_port (case po of None \<Rightarrow> [] | Some ps \<Rightarrow> take n ps) \<and>
        (\<forall>ps. po = Some ps \<longrightarrow> n \<le> length ps) \<and> w_live (c_free (udp_destroy ctx w')) = w_live w \<and>
        u_sockets (ext (udp_destroy ctx w')) = u_sockets (ext w)"
  using assms
  by (auto simp: bc_transport_udp_create_def Let_def case_prod_beta udp_ctx_of_def mem_read_def bind_Some_iff
      udp_destroy_def free_ctx_def c_close_def udp_call_def split: if_splits option.splits)

lemma udp_create_frame:
  fixes w :: "'b udp_world"
  assumes "bc_transport_udp_create fd my_port po n w = Some (res, w')"
    and "\<And>g x. f (u_ncall_update g x) = f x" "\<And>g x. f (u_sockets_update g x) = f x"
  shows "f (ext w') = f (ext w) \<and> w_trace w' = w_trace w \<and> oracles w' = oracles w"
  using assms
  by (auto simp: bc_transport_udp_create_def Let_def case_prod_beta mem_read_def bind_Some_iff free_ctx_def c_close_def
      udp_call_def split: if_splits option.splits)

lemma udp_create_total:
  assumes "\<And>ps. po = Some ps \<Longrightarrow> n \<le> length ps"
  obtains res w' where "bc_transport_udp_create fd my_port po n w = Some (res, w')"
proof -
  have "bc_transport_udp_create fd my_port po n w \<noteq> None"
    using assms by (cases po) (auto simp: bc_transport_udp_create_def Let_def case_prod_beta mem_simps)
  then show ?thesis using that by fast
qed

text \<open>
  The UDP transport owns what it allocates: a constructor that fails leaves no heap block and no
  open socket behind; one that succeeds copies the first \<open>peer_count\<close> ports, and destroying the
  transport and freeing its struct gives back every block and the socket.
\<close>

lemma udp_create_destroy:
  fixes w :: "'b udp_world"
  assumes "bc_transport_udp_create fd my_port (Some ports) n w = Some (res, w')"
  shows "case res of
      None \<Rightarrow> w_live w' = w_live w \<and> u_sockets (ext w') = u_sockets (ext w)
    | Some (ctx, t) \<Rightarrow> t = udp_transport ctx \<and> ctx = udp_ctx_of (int fd) my_port (take n ports) \<and>
        n \<le> length ports \<and> w_live (c_free (udp_destroy ctx w')) = w_live w \<and>
        u_sockets (ext (udp_destroy ctx w')) = u_sockets (ext w)"
  using udp_create_spec [OF assms] by (simp split: option.splits prod.splits)

lemma ucast_low_byte: "(ucast (x AND 0xFF) :: u8) = ucast (x :: u16)"
proof -
  have "(0xFF :: u16) = mask 8" by (simp add: mask_eq_exp_minus_1)
  then have "x AND 0xFF = take_bit 8 x" by (simp only: take_bit_eq_mask)
  then show ?thesis by (simp only:) (rule bit_word_eqI, simp add: bit_ucast_iff bit_take_bit_iff)
qed

lemma two_bytes_inj:
  assumes e: "(ucast (p :: u16) :: u8) = ucast q" "(ucast (drop_bit 8 p) :: u8) = ucast (drop_bit 8 q)"
  shows "p = q"
proof (rule bit_word_eqI)
  fix n assume n: "n < LENGTH(16)"
  show "bit p n = bit q n"
  proof (cases "n < 8")
    case True
    with arg_cong [OF e(1), of "\<lambda>x. bit x n"] show ?thesis by (simp add: bit_ucast_iff)
  next
    case False
    then have "n - 8 < 8" using n by simp
    with False n arg_cong [OF e(2), of "\<lambda>x. bit x (n - 8)"] show ?thesis
      by (simp add: bit_ucast_iff bit_drop_bit_eq)
  qed
qed

lemma port_key_inj: "peer_pubkey (port_peer p) = peer_pubkey (port_peer q) \<Longrightarrow> p = q"
  by (rule two_bytes_inj) (simp_all add: port_peer_def peer_zero_def size_defs numeral_eq_Suc ucast_low_byte)

lemma udp_discover_ok:
  assumes "udp_ctx_wf ctx" "length (ports_of ctx) \<le> 64"
  shows "udp_discover_peers ctx (replicate 64 peer_zero) 64 0 w =
    Some (BC_OK, map port_peer (ports_of ctx) @ replicate (64 - length (ports_of ctx)) peer_zero,
      length (ports_of ctx), w)"
  using assms fill_peers_spec [OF assms(1), of "length (ports_of ctx)" "replicate 64 peer_zero" 0]
  by (simp add: udp_discover_peers_def udp_ctx_wf_def Let_def)

text \<open>
  Discovery over UDP finds the configured mesh: a first scan ends with exactly one peer per
  configured port, under the key that encodes that port, for up to 64 distinct ports.
\<close>

lemma udp_discovery_complete:
  fixes w :: "'b udp_world"
  assumes "udp_ctx_wf ctx" "distinct (ports_of ctx)" "length (ports_of ctx) \<le> 64"
    and "disc_wf d" "disc_known d = []" "d_transport d = Some (udp_transport ctx)"
  shows "\<exists>d' w'. bc_discovery_scan (Some d) w = Some (BC_OK, Some d', w') \<and> disc_wf d' \<and>
    peer_keys (disc_known d') = (\<lambda>p. peer_pubkey (port_peer p)) ` set (ports_of ctx) \<and>
    length (disc_known d') = length (ports_of ctx)"
proof -
  let ?ps = "map port_peer (ports_of ctx) @ replicate (64 - length (ports_of ctx)) peer_zero"
  let ?n = "length (ports_of ctx)"
  have t: "take ?n ?ps = map port_peer (ports_of ctx)" by simp
  have keys: "peer_keys (take ?n ?ps) = (\<lambda>p. peer_pubkey (port_peer p)) ` set (ports_of ctx)"
    unfolding t by (auto simp: peer_keys_def)
  have inj: "inj_on (\<lambda>p. peer_pubkey (port_peer p)) (set (ports_of ctx))"
    by (rule inj_onI) (rule port_key_inj)
  have card: "card (peer_keys (take ?n ?ps)) = ?n"
    unfolding keys using card_image [OF inj] assms(2) by (simp add: distinct_card)
  have "\<exists>d' w'. dt.adds (take ?n ?ps) d w = Some (d', w') \<and> disc_wf d' \<and>
      peer_keys (disc_known d') = peer_keys (disc_known d) \<union> peer_keys (take ?n ?ps)"
    by (rule dt.adds_complete) (use assms(3,4,5) card in \<open>auto simp: peer_keys_def\<close>)
  then obtain d' w' where d': "dt.adds (take ?n ?ps) d w = Some (d', w')" "disc_wf d'"
      "peer_keys (disc_known d') = peer_keys (take ?n ?ps)"
    using assms(5) by (auto simp: peer_keys_def)
  have "length (disc_known d') = ?n"
    using card card_peer_keys [of "disc_known d'"] d'(2,3) by (simp add: disc_wf_def)
  moreover have "bc_discovery_scan (Some d) w = Some (BC_OK, Some d', w')"
    using scan_ok [OF assms(6), of "udp_discover_peers ctx" w ?ps ?n w] udp_discover_ok [OF assms(1,3), of w] d'(1)
    by (simp add: udp_transport_def)
  ultimately show ?thesis using d'(2,3) keys by auto
qed

definition fresh_discovery :: "'a bc_transport \<Rightarrow> 'a bc_discovery" where
  "fresh_discovery t = \<lparr>d_transport = Some t, d_peers = replicate 64 peer_zero, d_peer_count = 0,
     d_on_found = None, d_userdata = 0\<rparr>"

lemma fresh_discovery_simps [simp]:
  "disc_wf (fresh_discovery t)" "disc_known (fresh_discovery t) = []" "d_transport (fresh_discovery t) = Some t"
  by (simp_all add: fresh_discovery_def disc_wf_def disc_known_def peers_wf_def)

section \<open>Fanout over a broadcast medium\<close>

definition to_all_ports :: "udp_ctx \<Rightarrow> bytes \<Rightarrow> (u16 \<times> bytes) list" where
  "to_all_ports ctx d = map (\<lambda>p. (p, d)) (ports_of ctx)"

lemma udp_send_all:
  assumes "udp_ctx_wf ctx" "ports_of ctx \<noteq> []" "0 < n" "n \<le> length d" "\<forall>k. u_answers (ext w) k"
  shows "udp_send ctx pk d n w = Some (BC_OK, udp_out (u_ncall (ext w) + uc_peer_count ctx) (to_all_ports ctx (take n d)) w)"
proof -
  have "map (\<lambda>j. (ports_of ctx ! j, take n d)) [0..<length (ports_of ctx)] = to_all_ports ctx (take n d)"
    by (rule nth_equalityI) (simp_all add: to_all_ports_def)
  with udp_send_spec [OF assms(1,3,4), of pk w] assms show ?thesis
    by (simp add: udp_ctx_wf_def Let_def to_all_ports_def)
qed

lemma forward_from_udp:
  fixes w :: "'b udp_world"
  assumes ctx: "udp_ctx_wf ctx" "ports_of ctx \<noteq> []" and n: "0 < n" "n \<le> length d"
    and "cnt \<le> length ps" "i \<le> cnt" "sent \<le> fo" "\<forall>k. u_answers (ext w) k"
  shows "\<exists>w'. forward_from (udp_send ctx) ps cnt fo d n i sent w = Some (sent + min (fo - sent) (cnt - i), w') \<and>
    u_outgoing (ext w') = u_outgoing (ext w) @
      concat (replicate (min (fo - sent) (cnt - i)) (to_all_ports ctx (take n d)))"
  using assms(5-8)
proof (induction "cnt - i" arbitrary: i sent w)
  case 0
  then show ?case by (subst forward_from.simps) simp
next
  case (Suc k)
  show ?case
  proof (cases "sent < fo")
    case False
    with Suc.prems show ?thesis by (subst forward_from.simps) simp
  next
    case True
    have i: "i < cnt" "i < length ps" using Suc.hyps(2) Suc.prems by simp_all
    let ?pk = "peer_pubkey (ps ! i)"
    define w1 where "w1 = emit (Sent ?pk (take n d) BC_OK)
      (udp_out (u_ncall (ext w) + uc_peer_count ctx) (to_all_ports ctx (take n d)) w)"
    have x: "u_outgoing (ext w1) = u_outgoing (ext w) @ to_all_ports ctx (take n d)"
      "u_answers (ext w1) = u_answers (ext w)" by (simp_all add: w1_def)
    have "forward_from (udp_send ctx) ps cnt fo d n i sent w
        = forward_from (udp_send ctx) ps cnt fo d n (Suc i) (Suc sent) w1"
      using True i udp_send_all [OF ctx n Suc.prems(4)]
      by (subst forward_from.simps) (simp add: mem_simps w1_def)
    moreover have "\<exists>w'. forward_from (udp_send ctx) ps cnt fo d n (Suc i) (Suc sent) w1
        = Some (Suc sent + min (fo - Suc sent) (cnt - Suc i), w') \<and>
      u_outgoing (ext w') = u_outgoing (ext w1) @
        concat (replicate (min (fo - Suc sent) (cnt - Suc i)) (to_all_ports ctx (take n d)))"
      using Suc.hyps(2) Suc.prems i True x by (intro Suc.hyps(1)) auto
    moreover have "min (fo - sent) (cnt - i) = Suc (min (fo - Suc sent) (cnt - Suc i))" using True i by simp
    ultimately show ?thesis using x by auto
  qed
qed

text \<open>
  C37. The fanout bounds the calls of \<open>send\<close>, not the datagrams: over UDP, where every call already
  reaches every configured port, forwarding one message delivers as many copies of it to each port
  as there are peers within the fanout.
\<close>

theorem udp_fanout_amplified:
  fixes w :: "'b udp_world"
  assumes "router_wf r" "r_transport r = Some (udp_transport ctx)"
    and "udp_ctx_wf ctx" "ports_of ctx \<noteq> []" "\<forall>k. u_answers (ext w) k" "0 < n" "n \<le> length d"
  shows "\<exists>rc w'. forward_to_peers r d n w = Some (rc, w') \<and>
    u_outgoing (ext w') = u_outgoing (ext w) @
      concat (replicate (min (unat (cfg_fanout (r_config r))) (r_peer_count r))
        (map (\<lambda>p. (p, take n d)) (ports_of ctx)))"
proof -
  have "r_peer_count r \<le> length (r_peers r)" using assms(1) by (simp add: router_wf_def)
  from forward_from_udp [OF assms(3,4,6,7) this, of 0 0 "unat (cfg_fanout (r_config r))" w] assms(5)
  obtain w' where "forward_from (udp_send ctx) (r_peers r) (r_peer_count r) (unat (cfg_fanout (r_config r))) d n 0 0 w
        = Some (min (unat (cfg_fanout (r_config r))) (r_peer_count r), w')"
      "u_outgoing (ext w') = u_outgoing (ext w) @
        concat (replicate (min (unat (cfg_fanout (r_config r))) (r_peer_count r)) (to_all_ports ctx (take n d)))"
    by auto
  with assms(2) show ?thesis by (simp add: forward_to_peers_def udp_transport_def to_all_ports_def)
qed

end
