(* ===== verification/Sodium.thy ===== *)
theory Sodium
  imports World
begin

text \<open>
  libsodium is not part of the repository: its primitives are a parameter of the model, the record
  \<open>sodium\<close>, passed to every definition that calls one. \<open>None\<close> is a non-zero return code. What the
  code relies on is stated by \<open>sodium_ok\<close>, which lists documented behaviour of the library:
  authenticated encryption opens what it sealed and adds a 16-byte tag, keys have their documented
  sizes, the two sides of a Diffie-Hellman exchange agree, and the base-point multiplication recovers
  the public key of a generated secret key.
\<close>

record sodium =
  sd_init :: int
  sd_box_keypair :: "bytes \<Rightarrow> (bytes \<times> bytes) option"
  sd_box_beforenm :: "bytes \<Rightarrow> bytes \<Rightarrow> bytes option"
  sd_scalarmult_base :: "bytes \<Rightarrow> bytes option"
  sd_aead_encrypt :: "bytes \<Rightarrow> bytes \<Rightarrow> bytes \<Rightarrow> bytes option"
  sd_aead_decrypt :: "bytes \<Rightarrow> bytes \<Rightarrow> bytes \<Rightarrow> bytes option"

text \<open>Sizes of \<^verbatim>\<open>crypto_manager.h\<close>.\<close>

definition BC_SHARED_KEY_SIZE :: nat where "BC_SHARED_KEY_SIZE = 32"
definition BC_NONCE_SIZE :: nat where "BC_NONCE_SIZE = 24"
definition BC_TAG_SIZE :: nat where "BC_TAG_SIZE = 16"

lemmas crypto_sizes = BC_SHARED_KEY_SIZE_def BC_NONCE_SIZE_def BC_TAG_SIZE_def

definition sodium_ok :: "sodium \<Rightarrow> bool" where
  "sodium_ok S \<longleftrightarrow>
     (\<forall>p n k c. sd_aead_encrypt S p n k = Some c \<longrightarrow>
        length c = length p + 16 \<and> sd_aead_decrypt S c n k = Some p) \<and>
     (\<forall>c n k p. sd_aead_decrypt S c n k = Some p \<longrightarrow> length c = length p + 16) \<and>
     (\<forall>r pk sk. sd_box_keypair S r = Some (pk, sk) \<longrightarrow> length pk = 32 \<and> length sk = 32) \<and>
     (\<forall>pk sk k. sd_box_beforenm S pk sk = Some k \<longrightarrow> length k = 32) \<and>
     (\<forall>r1 pk1 sk1 r2 pk2 sk2. sd_box_keypair S r1 = Some (pk1, sk1) \<longrightarrow>
        sd_box_keypair S r2 = Some (pk2, sk2) \<longrightarrow>
        sd_box_beforenm S pk2 sk1 = sd_box_beforenm S pk1 sk2) \<and>
     (\<forall>sk pk. length sk = 32 \<longrightarrow> sd_scalarmult_base S sk = Some pk \<longrightarrow> length pk = 32) \<and>
     (\<forall>r pk sk. sd_box_keypair S r = Some (pk, sk) \<longrightarrow> sd_scalarmult_base S sk = Some pk)"

lemma sodium_encrypt:
  "sodium_ok S \<Longrightarrow> sd_aead_encrypt S p n k = Some c \<Longrightarrow>
   length c = length p + 16 \<and> sd_aead_decrypt S c n k = Some p"
  by (simp add: sodium_ok_def)

lemma sodium_decrypt_length:
  "sodium_ok S \<Longrightarrow> sd_aead_decrypt S c n k = Some p \<Longrightarrow> length c = length p + 16"
  by (simp add: sodium_ok_def)

lemma sodium_keypair:
  "sodium_ok S \<Longrightarrow> sd_box_keypair S r = Some (pk, sk) \<Longrightarrow> length pk = 32 \<and> length sk = 32"
  by (simp add: sodium_ok_def)

lemma sodium_shared:
  "sodium_ok S \<Longrightarrow> sd_box_beforenm S pk sk = Some k \<Longrightarrow> length k = 32"
  by (simp add: sodium_ok_def)

lemma sodium_agree:
  "sodium_ok S \<Longrightarrow> sd_box_keypair S r1 = Some (pk1, sk1) \<Longrightarrow>
   sd_box_keypair S r2 = Some (pk2, sk2) \<Longrightarrow> sd_box_beforenm S pk2 sk1 = sd_box_beforenm S pk1 sk2"
  unfolding sodium_ok_def by blast

lemma sodium_base:
  "sodium_ok S \<Longrightarrow> length sk = 32 \<Longrightarrow> sd_scalarmult_base S sk = Some pk \<Longrightarrow> length pk = 32"
  "sodium_ok S \<Longrightarrow> sd_box_keypair S r = Some (pk, sk) \<Longrightarrow> sd_scalarmult_base S sk = Some pk"
  unfolding sodium_ok_def by blast+

text \<open>
  A concrete instance that satisfies the laws, for the witnesses: a tag of sixteen zero bytes, keys
  that are copies of the random bytes, a commutative key agreement.
\<close>

definition toy_sodium :: sodium where
  "toy_sodium = \<lparr>sd_init = 0,
     sd_box_keypair = (\<lambda>r. if length r = 32 then Some (r, r) else None),
     sd_box_beforenm = (\<lambda>pk sk. if length pk = 32 \<and> length sk = 32
        then Some (map2 (+) pk sk) else None),
     sd_scalarmult_base = (\<lambda>sk. Some sk),
     sd_aead_encrypt = (\<lambda>p n k. Some (p @ replicate 16 0)),
     sd_aead_decrypt = (\<lambda>c n k. if 16 \<le> length c \<and> drop (length c - 16) c = replicate 16 0
        then Some (take (length c - 16) c) else None)\<rparr>"

lemma map2_add_commute: "map2 (+) xs ys = map2 (+) ys (xs :: bytes)"
  by (rule nth_equalityI) (simp_all add: min.commute add.commute)

lemma toy_sodium_ok [simp]: "sodium_ok toy_sodium"
  by (auto simp: sodium_ok_def toy_sodium_def map2_add_commute split: if_splits)

end
