(* ===== verification/Identity.thy ===== *)
theory Identity
  imports Sodium
begin

text \<open>
  The local identity, \<^verbatim>\<open>src/domain/identity.c\<close>: a key pair, its 64-byte serialised form and the
  wiping of the secret.
\<close>

definition BC_IDENTITY_SERIALIZED_SIZE :: nat where
  "BC_IDENTITY_SERIALIZED_SIZE = BC_PUBKEY_SIZE + BC_SECRET_KEY_SIZE"

definition bc_identity_generate ::
  "sodium \<Rightarrow> bc_identity option \<Rightarrow> 'a world_scheme \<Rightarrow> bc_err \<times> bc_identity option \<times> 'a world_scheme" where
  "bc_identity_generate S i w =
     (case i of
        None \<Rightarrow> (BC_ERR_INVALID, None, w)
      | Some _ \<Rightarrow>
          let (seed, w) = randombytes_buf BC_SECRET_KEY_SIZE w in
          (case sd_box_keypair S seed of
             None \<Rightarrow> (BC_ERR_CRYPTO, i, w)
           | Some (pk, sk) \<Rightarrow> (BC_OK, Some \<lparr>id_pubkey = pk, id_secret_key = sk\<rparr>, w)))"

definition bc_identity_serialize ::
  "bc_identity option \<Rightarrow> bytes option \<Rightarrow> nat \<Rightarrow> (bc_err \<times> bytes option) option" where
  "bc_identity_serialize i buf buf_len =
     (case (i, buf) of
        (Some i, Some b) \<Rightarrow>
          if buf_len < BC_IDENTITY_SERIALIZED_SIZE then Some (BC_ERR_BUFFER_TOO_SMALL, Some b)
          else do {
            b \<leftarrow> memcpy b 0 (id_pubkey i) 0 BC_PUBKEY_SIZE;
            b \<leftarrow> memcpy b BC_PUBKEY_SIZE (id_secret_key i) 0 BC_SECRET_KEY_SIZE;
            Some (BC_OK, Some b)
          }
      | _ \<Rightarrow> Some (BC_ERR_INVALID, buf))"

definition bc_identity_deserialize ::
  "bc_identity option \<Rightarrow> bytes option \<Rightarrow> nat \<Rightarrow> (bc_err \<times> bc_identity option) option" where
  "bc_identity_deserialize i data data_len =
     (case (i, data) of
        (Some _, Some d) \<Rightarrow>
          if data_len < BC_IDENTITY_SERIALIZED_SIZE then Some (BC_ERR_INVALID, i)
          else do {
            pk \<leftarrow> mem_read d 0 BC_PUBKEY_SIZE;
            sk \<leftarrow> mem_read d BC_PUBKEY_SIZE BC_SECRET_KEY_SIZE;
            Some (BC_OK, Some \<lparr>id_pubkey = pk, id_secret_key = sk\<rparr>)
          }
      | _ \<Rightarrow> Some (BC_ERR_INVALID, i))"

definition bc_identity_wipe :: "bc_identity option \<Rightarrow> bc_identity option" where
  "bc_identity_wipe i =
     map_option (\<lambda>i. i\<lparr>id_secret_key := replicate BC_SECRET_KEY_SIZE 0\<rparr>) i"

lemma identity_generate_wf:
  assumes "sodium_ok S" and "bc_identity_generate S (Some i) w = (BC_OK, j, w')"
  shows "\<exists>i'. j = Some i' \<and> identity_wf i' \<and> w_trace w' = w_trace w \<and> w_live w' = w_live w \<and>
    sd_box_keypair S (fst (randombytes_buf 32 w)) = Some (id_pubkey i', id_secret_key i')"
  using assms sodium_keypair [OF assms(1)]
  by (auto simp: bc_identity_generate_def identity_wf_def size_defs randombytes_buf_def
    split: option.splits)

lemma identity_serialize_ok:
  assumes "identity_wf i" "64 \<le> n" "n \<le> length b"
  shows "bc_identity_serialize (Some i) (Some b) n =
    Some (BC_OK, Some ((id_pubkey i @ id_secret_key i) @ drop 64 b))"
  using assms
  by (simp add: bc_identity_serialize_def BC_IDENTITY_SERIALIZED_SIZE_def identity_wf_def
      size_defs mem_simps del: append_assoc)

lemma identity_deserialize_ok:
  assumes "64 \<le> n" "n \<le> length d"
  shows "bc_identity_deserialize (Some j) (Some d) n =
    Some (BC_OK, Some \<lparr>id_pubkey = take 32 d, id_secret_key = take 32 (drop 32 d)\<rparr>)"
  using assms
  by (simp add: bc_identity_deserialize_def BC_IDENTITY_SERIALIZED_SIZE_def size_defs mem_simps)

lemma identity_deserialize_short:
  "n < 64 \<Longrightarrow> bc_identity_deserialize i data n = Some (BC_ERR_INVALID, i)"
  by (simp add: bc_identity_deserialize_def BC_IDENTITY_SERIALIZED_SIZE_def size_defs
      split: option.split)

lemma identity_wipe_wf: "identity_wf i \<Longrightarrow> identity_wf (the (bc_identity_wipe (Some i)))"
  by (simp add: bc_identity_wipe_def identity_wf_def)

text \<open>An identity survives storage: what \<open>bc_identity_serialize\<close> writes into any buffer of at
  least 64 bytes, \<open>bc_identity_deserialize\<close> reads back as the same key pair.\<close>

lemma identity_roundtrip:
  assumes "identity_wf i" and "64 \<le> n" and "n \<le> length b"
  shows "\<exists>b'. bc_identity_serialize (Some i) (Some b) n = Some (BC_OK, Some b') \<and>
    bc_identity_deserialize (Some j) (Some b') n = Some (BC_OK, Some i)"
proof -
  have "length (id_pubkey i) = 32" "length (id_secret_key i) = 32"
    using assms(1) by (simp_all add: identity_wf_def size_defs)
  with assms show ?thesis by (simp add: identity_serialize_ok identity_deserialize_ok)
qed

end
