(* ===== verification/Crypto.thy ===== *)
theory Crypto
  imports Identity
begin

text \<open>
  The crypto manager, \<^verbatim>\<open>src/usecase/crypto_manager.c\<close>: the guards and buffer sizes around the
  libsodium calls. Output arrays are passed in and returned with their new contents; when a
  primitive fails the contents of its output array stay as they were, since no caller reads them.
\<close>

definition bc_crypto_init :: "sodium \<Rightarrow> bc_err" where
  "bc_crypto_init S = (if sd_init S < 0 then BC_ERR_CRYPTO else BC_OK)"

text \<open>The return code of \<open>crypto_box_keypair\<close> is ignored here, unlike in \<open>bc_identity_generate\<close>.\<close>

definition bc_crypto_generate_keypair ::
  "sodium \<Rightarrow> bytes option \<Rightarrow> bytes option \<Rightarrow> 'a world_scheme \<Rightarrow>
   bc_err \<times> bytes option \<times> bytes option \<times> 'a world_scheme" where
  "bc_crypto_generate_keypair S pubkey_out secret_out w =
     (case (pubkey_out, secret_out) of
        (Some _, Some _) \<Rightarrow>
          let (seed, w) = randombytes_buf BC_SECRET_KEY_SIZE w in
          (case sd_box_keypair S seed of
             None \<Rightarrow> (BC_OK, pubkey_out, secret_out, w)
           | Some (pk, sk) \<Rightarrow> (BC_OK, Some pk, Some sk, w))
      | _ \<Rightarrow> (BC_ERR_INVALID, pubkey_out, secret_out, w))"

definition bc_crypto_derive_shared ::
  "sodium \<Rightarrow> bytes option \<Rightarrow> bytes option \<Rightarrow> bytes option \<Rightarrow> (bc_err \<times> bytes option) option" where
  "bc_crypto_derive_shared S my_secret peer_key shared_out =
     (case (my_secret, peer_key, shared_out) of
        (Some sk, Some pk, Some out) \<Rightarrow>
          do {
            pk \<leftarrow> mem_read pk 0 BC_PUBKEY_SIZE;
            sk \<leftarrow> mem_read sk 0 BC_SECRET_KEY_SIZE;
            case sd_box_beforenm S pk sk of
              None \<Rightarrow> Some (BC_ERR_CRYPTO, Some out)
            | Some k \<Rightarrow> do {
                out \<leftarrow> memcpy out 0 k 0 BC_SHARED_KEY_SIZE;
                Some (BC_OK, Some out)
              }
          }
      | _ \<Rightarrow> Some (BC_ERR_INVALID, shared_out))"

definition bc_crypto_encrypt ::
  "sodium \<Rightarrow> bytes option \<Rightarrow> nat \<Rightarrow> bytes option \<Rightarrow> bytes option \<Rightarrow> bytes option \<Rightarrow> 'a world_scheme \<Rightarrow>
   (bc_err \<times> bytes option \<times> bytes option \<times> 'a world_scheme) option" where
  "bc_crypto_encrypt S plaintext plaintext_len shared_key ciphertext_out nonce_out w =
     (case (plaintext, shared_key, ciphertext_out, nonce_out) of
        (Some p, Some k, Some ct, Some nonce) \<Rightarrow>
          (let (rnd, w) = randombytes_buf BC_NONCE_SIZE w in
           do {
             nonce \<leftarrow> memcpy nonce 0 rnd 0 BC_NONCE_SIZE;
             p \<leftarrow> mem_read p 0 plaintext_len;
             n \<leftarrow> mem_read nonce 0 BC_NONCE_SIZE;
             k \<leftarrow> mem_read k 0 BC_SHARED_KEY_SIZE;
             case sd_aead_encrypt S p n k of
               None \<Rightarrow> Some (BC_ERR_CRYPTO, Some ct, Some nonce, w)
             | Some c \<Rightarrow> do {
                 ct \<leftarrow> memcpy ct 0 c 0 (length c);
                 Some (BC_OK, Some ct, Some nonce, w)
               }
           })
      | _ \<Rightarrow> Some (BC_ERR_INVALID, ciphertext_out, nonce_out, w))"

definition bc_crypto_decrypt ::
  "sodium \<Rightarrow> bytes option \<Rightarrow> nat \<Rightarrow> bytes option \<Rightarrow> bytes option \<Rightarrow> bytes option \<Rightarrow>
   (bc_err \<times> bytes option) option" where
  "bc_crypto_decrypt S ciphertext ciphertext_len shared_key nonce plaintext_out =
     (case (ciphertext, shared_key, nonce, plaintext_out) of
        (Some c, Some k, Some n, Some out) \<Rightarrow>
          if ciphertext_len < BC_TAG_SIZE then Some (BC_ERR_INVALID, Some out)
          else do {
            c \<leftarrow> mem_read c 0 ciphertext_len;
            n \<leftarrow> mem_read n 0 BC_NONCE_SIZE;
            k \<leftarrow> mem_read k 0 BC_SHARED_KEY_SIZE;
            case sd_aead_decrypt S c n k of
              None \<Rightarrow> Some (BC_ERR_CRYPTO, Some out)
            | Some p \<Rightarrow> do {
                out \<leftarrow> memcpy out 0 p 0 (length p);
                Some (BC_OK, Some out)
              }
          }
      | _ \<Rightarrow> Some (BC_ERR_INVALID, plaintext_out))"

section \<open>The calls on arrays of the declared sizes\<close>

lemma derive_shared_eq:
  assumes "sodium_ok S" "length sk = 32" "length pk = 32" "length out = 32"
  shows "bc_crypto_derive_shared S (Some sk) (Some pk) (Some out) =
    Some (case sd_box_beforenm S pk sk of None \<Rightarrow> (BC_ERR_CRYPTO, Some out) | Some k \<Rightarrow> (BC_OK, Some k))"
  using assms sodium_shared [OF assms(1), of pk sk]
  by (simp add: bc_crypto_derive_shared_def size_defs crypto_sizes mem_simps split: option.split)

lemma encrypt_eq:
  assumes "sodium_ok S" "length p = n" "length k = 32" "length ct = n + 16" "length nonce = 24"
  shows "bc_crypto_encrypt S (Some p) n (Some k) (Some ct) (Some nonce) w =
    (let (rnd, w') = randombytes_buf 24 w in
     Some (case sd_aead_encrypt S p rnd k of
       None \<Rightarrow> (BC_ERR_CRYPTO, Some ct, Some rnd, w') | Some c \<Rightarrow> (BC_OK, Some c, Some rnd, w')))"
proof -
  have c: "length c = n + 16" if "sd_aead_encrypt S p rnd k = Some c" for rnd c
    using sodium_encrypt [OF assms(1) that] assms(2) by simp
  show ?thesis
    using assms randombytes_length [of 24 w]
    by (auto simp: bc_crypto_encrypt_def crypto_sizes mem_simps c simp del: randombytes_length
      split: prod.splits option.split)
qed

lemma decrypt_eq:
  assumes "sodium_ok S" "length c = n" "16 \<le> n" "length k = 32" "length nonce = 24"
    "length out = n - 16"
  shows "bc_crypto_decrypt S (Some c) n (Some k) (Some nonce) (Some out) =
    Some (case sd_aead_decrypt S c nonce k of
      None \<Rightarrow> (BC_ERR_CRYPTO, Some out) | Some p \<Rightarrow> (BC_OK, Some p))"
proof -
  have p: "length p = n - 16" if "sd_aead_decrypt S c nonce k = Some p" for p
    using sodium_decrypt_length [OF assms(1) that] assms(2,3) by simp
  show ?thesis
    using assms
    by (auto simp: bc_crypto_decrypt_def crypto_sizes mem_simps p split: option.split)
qed

text \<open>The same for arrays that are longer than needed, as when nonce and ciphertext share one buffer.\<close>

lemma decrypt_prefix:
  assumes "sodium_ok S" "n \<le> length c" "16 \<le> n" "length k = 32" "24 \<le> length nonce" "n - 16 \<le> length out"
  shows "bc_crypto_decrypt S (Some c) n (Some k) (Some nonce) (Some out) =
    Some (case sd_aead_decrypt S (take n c) (take 24 nonce) k of
      None \<Rightarrow> (BC_ERR_CRYPTO, Some out) | Some p \<Rightarrow> (BC_OK, Some (p @ drop (n - 16) out)))"
proof -
  have "bc_crypto_decrypt S (Some c) n (Some k) (Some nonce) (Some out) =
      (case sd_aead_decrypt S (take n c) (take 24 nonce) k of
         None \<Rightarrow> Some (BC_ERR_CRYPTO, Some out)
       | Some p \<Rightarrow> do { out \<leftarrow> memcpy out 0 p 0 (length p); Some (BC_OK, Some out) })"
    using assms(2-5) by (simp add: bc_crypto_decrypt_def crypto_sizes mem_read_def)
  then show ?thesis
  proof (cases "sd_aead_decrypt S (take n c) (take 24 nonce) k")
    case (Some p)
    then have "length p = n - 16" using sodium_decrypt_length [OF assms(1) Some] assms(2,3) by simp
    with Some assms(6) \<open>bc_crypto_decrypt S (Some c) n (Some k) (Some nonce) (Some out) = _\<close>
    show ?thesis by (simp add: memcpy_def)
  qed simp
qed

lemma decrypt_short:
  "n < 16 \<Longrightarrow> bc_crypto_decrypt S (Some c) n (Some k) (Some nonce) (Some out)
     = Some (BC_ERR_INVALID, Some out)"
  by (simp add: bc_crypto_decrypt_def crypto_sizes)

text \<open>End-to-end encryption works between two generated identities: if Alice's key derivation
  and encryption succeed, then Bob, deriving the key from his secret and Alice's public key, derives
  the same key, and decrypting her ciphertext with her nonce gives her plaintext back.\<close>

lemma e2e_roundtrip:
  assumes S: "sodium_ok S"
    and a: "sd_box_keypair S ra = Some (pka, ska)" and b: "sd_box_keypair S rb = Some (pkb, skb)"
    and da: "bc_crypto_derive_shared S (Some ska) (Some pkb) (Some (replicate 32 0))
          = Some (BC_OK, Some ka)"
    and len: "length ct = length p + 16" "length nonce = 24" "length out = length p"
    and enc: "bc_crypto_encrypt S (Some p) (length p) (Some ka) (Some ct) (Some nonce) w
          = Some (BC_OK, Some c, Some n, w')"
  shows "bc_crypto_derive_shared S (Some skb) (Some pka) (Some (replicate 32 0)) = Some (BC_OK, Some ka) \<and>
    bc_crypto_decrypt S (Some c) (length c) (Some ka) (Some n) (Some out) = Some (BC_OK, Some p)"
proof -
  have keys: "length ska = 32" "length pkb = 32" "length skb = 32" "length pka = 32"
    using sodium_keypair [OF S a] sodium_keypair [OF S b] by simp_all
  then have ka: "sd_box_beforenm S pkb ska = Some ka"
    using da derive_shared_eq [OF S, of ska pkb "replicate 32 0"] by (auto split: option.splits)
  then have bob: "sd_box_beforenm S pka skb = Some ka"
    using sodium_agree [OF S a b] by simp
  have lk: "length ka = 32" using sodium_shared [OF S ka] .
  obtain rnd where rnd: "randombytes_buf 24 w = (rnd, w')" "n = rnd" "length rnd = 24"
      "sd_aead_encrypt S p rnd ka = Some c"
    using enc encrypt_eq [OF S, of p "length p" ka ct nonce w] len lk
    by (auto split: prod.splits option.splits dest: randombytes_pair)
  have dec: "length c = length p + 16" "sd_aead_decrypt S c rnd ka = Some p"
    using sodium_encrypt [OF S rnd(4)] by simp_all
  have "bc_crypto_derive_shared S (Some skb) (Some pka) (Some (replicate 32 0)) = Some (BC_OK, Some ka)"
    using derive_shared_eq [OF S keys(3) keys(4), of "replicate 32 0"] bob by simp
  moreover have "bc_crypto_decrypt S (Some c) (length c) (Some ka) (Some n) (Some out) = Some (BC_OK, Some p)"
    using decrypt_eq [OF S refl, of c ka rnd out] dec lk rnd len by simp
  ultimately show ?thesis by simp
qed

end
