(* ===== verification/Sealing.thy ===== *)
theory Sealing
  imports Crypto Ports
begin

text \<open>
  Sealed messages, as both front ends build and open them: the payload is a fresh nonce followed by
  the authenticated ciphertext under the key shared by sender and receiver.
\<close>

text \<open>What a receiver with secret key \<open>sk\<close> reads from a message: nonce and ciphertext share the payload.\<close>

definition open_message :: "sodium \<Rightarrow> bytes \<Rightarrow> bc_message \<Rightarrow> bytes option" where
  "open_message S sk m =
     (case msg_payload m of
        None \<Rightarrow> None
      | Some p \<Rightarrow>
          if length p < 40 then None
          else Option.bind (sd_box_beforenm S (msg_sender_pubkey m) sk)
            (sd_aead_decrypt S (drop 24 p) (take 24 p)))"

lemma open_message_length:
  assumes "sodium_ok S" "message_wf m" "open_message S sk m = Some pt"
  shows "msg_payload_len m = 40 + length pt"
proof -
  from assms(3) obtain p k where p: "msg_payload m = Some p" "40 \<le> length p"
      "sd_aead_decrypt S (drop 24 p) (take 24 p) k = Some pt"
    by (auto simp: open_message_def bind_Some_iff split: option.splits if_splits)
  have "msg_payload_len m = length p" using assms(2) p(1) by (simp add: message_wf_def)
  then show ?thesis using sodium_decrypt_length [OF assms(1) p(3)] p(2) by simp
qed

lemma open_message_ttl [simp]: "open_message S sk (m\<lparr>msg_ttl := t\<rparr>) = open_message S sk m"
  by (simp add: open_message_def split: option.split)

text \<open>
  Opening, as both front ends do it: derive the key, then decrypt the rest of the payload with its
  first 24 bytes as the nonce into a buffer that may be longer than the text.
\<close>

lemma open_steps:
  assumes S: "sodium_ok S" and m: "message_wf m" and sk: "length sk = 32" and p: "msg_payload m = Some p" "40 \<le> length p"
  shows "bc_crypto_derive_shared S (Some sk) (Some (msg_sender_pubkey m)) (Some (replicate 32 0)) =
      Some (case sd_box_beforenm S (msg_sender_pubkey m) sk of
        None \<Rightarrow> (BC_ERR_CRYPTO, Some (replicate 32 0)) | Some k \<Rightarrow> (BC_OK, Some k))"
    and "sd_box_beforenm S (msg_sender_pubkey m) sk = None \<Longrightarrow> open_message S sk m = None"
    and "sd_box_beforenm S (msg_sender_pubkey m) sk = Some k \<Longrightarrow> length p - 40 \<le> length out \<Longrightarrow>
      bc_crypto_decrypt S (Some (drop 24 p)) (length p - 24) (Some k) (Some p) (Some out) =
        Some (case open_message S sk m of None \<Rightarrow> (BC_ERR_CRYPTO, Some out)
          | Some pt \<Rightarrow> (BC_OK, Some (pt @ drop (length p - 40) out)))"
    and "open_message S sk m = Some pt \<Longrightarrow> length pt = length p - 40"
proof -
  have l: "length (msg_sender_pubkey m) = 32" "msg_payload_len m = length p" using m p by (simp_all add: message_wf_def size_defs)
  show "bc_crypto_derive_shared S (Some sk) (Some (msg_sender_pubkey m)) (Some (replicate 32 0)) =
      Some (case sd_box_beforenm S (msg_sender_pubkey m) sk of
        None \<Rightarrow> (BC_ERR_CRYPTO, Some (replicate 32 0)) | Some k \<Rightarrow> (BC_OK, Some k))"
    by (rule derive_shared_eq [OF S sk l(1)]) simp
  show "sd_box_beforenm S (msg_sender_pubkey m) sk = None \<Longrightarrow> open_message S sk m = None"
    using p by (simp add: open_message_def)
  show "open_message S sk m = Some pt \<Longrightarrow> length pt = length p - 40" using open_message_length [OF S m] l(2) by fastforce
  assume k: "sd_box_beforenm S (msg_sender_pubkey m) sk = Some k" "length p - 40 \<le> length out"
  have "open_message S sk m = sd_aead_decrypt S (drop 24 p) (take 24 p) k" using p k(1) by (simp add: open_message_def)
  then show "bc_crypto_decrypt S (Some (drop 24 p)) (length p - 24) (Some k) (Some p) (Some out) =
        Some (case open_message S sk m of None \<Rightarrow> (BC_ERR_CRYPTO, Some out)
          | Some pt \<Rightarrow> (BC_OK, Some (pt @ drop (length p - 40) out)))"
    using decrypt_prefix [OF S, of "length p - 24" "drop 24 p" k p out] p(2) sodium_shared [OF S k(1)] k(2)
    by (simp split: option.split)
qed

section \<open>Sealing\<close>

text \<open>
  The common part of \<open>bitchat_send_message\<close> and \<open>cmd_msg\<close>: key, buffer, encryption, message; the buffer is
  freed again.
\<close>

datatype sealed = No_Key | No_Buffer | No_Cipher | No_Message | Sealed bc_message

definition seal :: "sodium \<Rightarrow> bc_identity \<Rightarrow> bytes \<Rightarrow> bytes \<Rightarrow> 'a world_scheme \<Rightarrow> sealed \<times> 'a world_scheme" where
  "seal S i rcpt pt w =
     (case sd_box_beforenm S rcpt (id_secret_key i) of
        None \<Rightarrow> (No_Key, w)
      | Some k \<Rightarrow>
          let (ok, w) = c_malloc (40 + length pt) w in
          if \<not> ok then (No_Buffer, w)
          else
            let (rnd, w) = randombytes_buf 24 w in
            case sd_aead_encrypt S pt rnd k of
              None \<Rightarrow> (No_Cipher, c_free w)
            | Some ct \<Rightarrow>
                (case bc_message_create (Some (id_pubkey i)) (Some rcpt) (Some (rnd @ ct)) (40 + length pt) w of
                   Some (Some m, w) \<Rightarrow> (Sealed m, c_free w)
                 | Some (None, w) \<Rightarrow> (No_Message, c_free w)
                 | None \<Rightarrow> (No_Message, w)))"

text \<open>
  The program text that both front ends share, with what they do at each exit as parameters
  (\<open>idf\<close> reads the identity from the front end's state), computes \<open>seal\<close>.
\<close>

lemma seal_steps:
  fixes w :: "'a world_scheme" and idf :: "'a \<Rightarrow> bc_identity"
  assumes S: "sodium_ok S" and i: "identity_wf (idf (ext w))" and rcpt: "length rcpt = 32" and n: "length pt < 2 ^ 30"
  shows "do {
      (rc, key) \<leftarrow> bc_crypto_derive_shared S (Some (id_secret_key (idf (ext w)))) (Some rcpt) (Some (replicate BC_SHARED_KEY_SIZE 0));
      (if rc \<noteq> BC_OK then no_key rc w
       else do {
         let ct_len = size_add (length pt) BC_TAG_SIZE;
         let total = size_add BC_NONCE_SIZE ct_len;
         let (ok, w) = c_malloc total w;
         (if \<not> ok then no_buffer w
          else do {
            let ciphertext = replicate total 0;
            (rc, ct, nonce, w) \<leftarrow> bc_crypto_encrypt S (Some pt) (length pt) key
              (Some (drop BC_NONCE_SIZE ciphertext)) (Some (take BC_NONCE_SIZE ciphertext)) w;
            (if rc \<noteq> BC_OK then no_cipher rc (c_free w)
             else do {
               nonce \<leftarrow> nonce; ct \<leftarrow> ct;
               (msg, w) \<leftarrow> bc_message_create (Some (id_pubkey (idf (ext w)))) (Some rcpt) (Some (nonce @ ct)) total w;
               let w = c_free w;
               (if msg = None then no_message w else send msg w) }) }) }) } =
    (case seal S (idf (ext w)) rcpt pt w of
       (No_Key, w) \<Rightarrow> no_key BC_ERR_CRYPTO w | (No_Buffer, w) \<Rightarrow> no_buffer w
     | (No_Cipher, w) \<Rightarrow> no_cipher BC_ERR_CRYPTO w | (No_Message, w) \<Rightarrow> no_message w
     | (Sealed m, w) \<Rightarrow> send (Some m) w)"
proof -
  let ?i = "idf (ext w)" and ?n = "length pt"
  have l: "length (id_secret_key ?i) = 32" "length (id_pubkey ?i) = 32" using i by (simp_all add: identity_wf_def size_defs)
  have dk: "bc_crypto_derive_shared S (Some (id_secret_key ?i)) (Some rcpt) (Some (replicate 32 0)) =
      Some (case sd_box_beforenm S rcpt (id_secret_key ?i) of None \<Rightarrow> (BC_ERR_CRYPTO, Some (replicate 32 0))
        | Some k \<Rightarrow> (BC_OK, Some k))"
    by (rule derive_shared_eq [OF S l(1) rcpt]) simp
  note simps = seal_def dk crypto_sizes Let_def add.commute
  show ?thesis
  proof (cases "sd_box_beforenm S rcpt (id_secret_key ?i)")
    case None
    then show ?thesis by (simp add: simps)
  next
    case (Some k)
    obtain ok1 w1 where m1: "c_malloc (40 + ?n) w = (ok1, w1)" by force
    obtain rnd w2 where rnd: "randombytes_buf 24 w1 = (rnd, w2)" by force
    have e: "ext w2 = ext w" using c_malloc_frame [of "40 + ?n" w] randombytes_frame [of 24 w1] m1 rnd by simp
    have en: "bc_crypto_encrypt S (Some pt) ?n (Some k) (Some (replicate (?n + 16) 0)) (Some (replicate 24 0)) w1
      = Some (case sd_aead_encrypt S pt rnd k of
          None \<Rightarrow> (BC_ERR_CRYPTO, Some (replicate (?n + 16) 0), Some rnd, w2) | Some c \<Rightarrow> (BC_OK, Some c, Some rnd, w2))"
      using encrypt_eq [OF S refl sodium_shared [OF S Some], of "replicate (?n + 16) 0" pt "replicate 24 0" w1] rnd by simp
    show ?thesis
    proof (cases "ok1 \<and> sd_aead_encrypt S pt rnd k \<noteq> None")
      case False
      with Some m1 rnd en n show ?thesis by (cases ok1) (simp_all add: simps)
    next
      case True
      then obtain ct where ct: "sd_aead_encrypt S pt rnd k = Some ct" by blast
      have "?n + 40 \<le> length (rnd @ ct)" using sodium_encrypt [OF S ct] randombytes_pair [OF rnd] by simp
      then obtain mo w3 where "bc_message_create (Some (id_pubkey ?i)) (Some rcpt) (Some (rnd @ ct)) (?n + 40) w2 = Some (mo, w3)"
        by (rule create_spec [OF l(2) rcpt, of _ _ w2]) auto
      with Some m1 rnd en n True ct e show ?thesis by (cases mo) (simp_all add: simps cong: if_cong)
    qed
  qed
qed

text \<open>The receiver's view: any secret key that agrees with the sender's on the shared key opens the message.\<close>

definition sealed_for :: "sodium \<Rightarrow> bc_identity \<Rightarrow> bytes \<Rightarrow> bytes \<Rightarrow> bc_message \<Rightarrow> bool" where
  "sealed_for S i rcpt pt m \<longleftrightarrow> storable m \<and> msg_ttl m = BC_DEFAULT_TTL \<and> msg_sender_pubkey m = id_pubkey i \<and>
     msg_receiver_pubkey m = rcpt \<and> msg_payload_len m = 40 + length pt \<and>
     (\<forall>k sk. sd_box_beforenm S rcpt (id_secret_key i) = Some k \<and> sd_box_beforenm S (id_pubkey i) sk = Some k \<longrightarrow>
       open_message S sk m = Some pt)"

lemma sealed_sizes:
  assumes "sealed_for S i rcpt pt m" "length pt < 2 ^ 30"
  shows "storable m" "length (msg_uuid m) = 16" "93 + msg_payload_len m < 2 ^ 31"
proof -
  show "storable m" "93 + msg_payload_len m < 2 ^ 31" using assms by (simp_all add: sealed_for_def)
  then show "length (msg_uuid m) = 16" by (simp add: storable_def message_wf_def size_defs)
qed

definition can_seal :: "sodium \<Rightarrow> bc_identity \<Rightarrow> bytes \<Rightarrow> bytes \<Rightarrow> bool" where
  "can_seal S i rcpt pt \<longleftrightarrow> (\<exists>k. sd_box_beforenm S rcpt (id_secret_key i) = Some k \<and>
     (\<forall>nonce. length nonce = 24 \<longrightarrow> sd_aead_encrypt S pt nonce k \<noteq> None))"

text \<open>
  A sealed message carries the sender's key and the default hop count, and the receiver can open it;
  with memory, a key and a cipher it comes about. Nothing is left on the heap but the message.
\<close>

lemma seal_spec:
  assumes S: "sodium_ok S" and i: "identity_wf i" and rcpt: "length rcpt = 32" and n: "length pt < 2 ^ 30"
  shows "\<exists>res w'. seal S i rcpt pt w = (res, w') \<and> ext w' = ext w \<and> w_trace w' = w_trace w \<and> oracles w' = oracles w \<and>
    w_live w' = w_live w + (case res of Sealed m \<Rightarrow> msg_blocks m | _ \<Rightarrow> 0) \<and>
    (\<forall>m. res = Sealed m \<longrightarrow> sealed_for S i rcpt pt m) \<and>
    ((\<forall>k s. w_heap w k s) \<and> can_seal S i rcpt pt \<longrightarrow> (\<exists>m. res = Sealed m))"
proof (cases "sd_box_beforenm S rcpt (id_secret_key i)")
  case None
  then show ?thesis by (simp add: seal_def can_seal_def)
next
  case (Some k)
  obtain ok w1 where m1: "c_malloc (40 + length pt) w = (ok, w1)" by force
  have w1: "w_live w1 = w_live w + (if ok then 1 else 0)" "ext w1 = ext w" "w_trace w1 = w_trace w" "oracles w1 = oracles w"
    using c_malloc_frame [of "40 + length pt" w] oracles_frame(2) [of "40 + length pt" w] m1 by simp_all
  have ok: "(\<forall>k s. w_heap w k s) \<Longrightarrow> ok" using m1 by (auto simp: c_malloc_def split: if_splits)
  obtain rnd w2 where rnd: "randombytes_buf 24 w1 = (rnd, w2)" by force
  have w2: "length rnd = 24" "w_live w2 = w_live w1" "ext w2 = ext w" "w_trace w2 = w_trace w" "oracles w2 = oracles w"
    using randombytes_pair [OF rnd] randombytes_frame [of 24 w1] oracles_frame(5) [of 24 w1] rnd w1 by simp_all
  show ?thesis
  proof (cases "ok \<and> sd_aead_encrypt S pt rnd k \<noteq> None")
    case False
    then have "seal S i rcpt pt w = (if ok then (No_Cipher, c_free w2) else (No_Buffer, w1))"
      using Some m1 rnd by (auto simp: seal_def)
    moreover have "\<not> ((\<forall>k s. w_heap w k s) \<and> can_seal S i rcpt pt)" using False Some ok w2(1) by (auto simp: can_seal_def)
    ultimately show ?thesis using w1 w2 by (cases ok) simp_all
  next
    case True
    then obtain ct where ct: "sd_aead_encrypt S pt rnd k = Some ct" by blast
    have dec: "length ct = length pt + 16" "sd_aead_decrypt S ct rnd k = Some pt" using sodium_encrypt [OF S ct] by simp_all
    have l: "length (id_pubkey i) = 32" "40 + length pt \<le> length (rnd @ ct)" "take (40 + length pt) (rnd @ ct) = rnd @ ct"
      using i w2(1) dec(1) by (simp_all add: identity_wf_def size_defs)
    have h: "(\<forall>k s. w_heap w k s) = (\<forall>k s. w_heap w2 k s)" using oracles_heap [OF w2(5)] by simp
    have z: "0 < 40 + length pt" by simp
    from l(1) rcpt l(2) z show ?thesis
    proof (cases rule: create_spec [where w = w2])
      case (nomem w3)
      then have "seal S i rcpt pt w = (No_Message, c_free w3)" using Some m1 True rnd ct by (simp add: seal_def)
      with nomem w1 w2 True h show ?thesis by auto
    next
      case (ok m w3)
      then have "seal S i rcpt pt w = (Sealed m, c_free w3)" using Some m1 True rnd ct by (simp add: seal_def)
      moreover have "storable m" using ok(2,7) n by (simp add: storable_def)
      moreover have "open_message S sk m = Some pt" if "sd_box_beforenm S (id_pubkey i) sk = Some k" for sk
        using that ok(4,6) l(3) w2(1) dec by (simp add: open_message_def)
      ultimately show ?thesis using ok Some w1 w2 True by (simp add: sealed_for_def)
    qed
  qed
qed

end
