(* ===== verification/Cli.thy ===== *)
theory Cli
  imports Transport_Udp Sealing
begin

text \<open>
  The command-line simulator, \<^verbatim>\<open>src/cli/main.c\<close>: it assembles a node over UDP and SQLite, runs a
  background thread that ticks the router, and reads commands from standard input.

  The globals that the delivery callback and the signal handler reach are part of the world
  (\<open>cli_state\<close>), together with what the program prints and its key files; the handles \<open>g_transport\<close>,
  \<open>g_storage\<close> and \<open>g_router\<close> are the record \<open>cli\<close>. A C string is a \<open>string\<close> without the terminating zero; a
  character array is a \<open>string\<close> of the array's size.

  The two threads are interleaved at the granularity of a whole tick and a whole input line; the code
  itself has no lock that would guarantee this.
\<close>

datatype console_output = Stdout string | Stderr string

record cli_state = udp_state +
  c_running :: bool
  c_identity :: bc_identity
  c_console :: "console_output list"
  c_files :: "string \<rightharpoonup> bytes"
  c_answers :: "nat \<Rightarrow> bool"
  c_ncall :: nat

type_synonym 'b cli_world = "'b cli_state_scheme world_scheme"

record 'a cli =
  cl_transport :: "'a bc_transport option"
  cl_storage :: "'a bc_storage option"
  cl_router :: "'a bc_router option"

section \<open>Strings\<close>

definition NUL :: char where "NUL = CHR 0x00"
definition NL :: char where "NL = CHR 0x0A"

definition cstr :: "string \<Rightarrow> string" where
  "cstr a = takeWhile (\<lambda>c. c \<noteq> NUL) a"

definition chars_of :: "bytes \<Rightarrow> string" where
  "chars_of b = map (\<lambda>x. char_of (unat x)) b"

definition bytes_of :: "string \<Rightarrow> bytes" where
  "bytes_of s = map (\<lambda>c. of_nat (of_char c)) s"

fun decimal :: "nat \<Rightarrow> string" where
  "decimal n = (if n < 10 then [char_of (48 + n)] else decimal (n div 10) @ [char_of (48 + n mod 10)])"

declare decimal.simps [simp del]

definition decimal_int :: "int \<Rightarrow> string" where
  "decimal_int i = (if i < 0 then CHR ''-'' # decimal (nat (- i)) else decimal (nat i))"

definition say :: "string \<Rightarrow> 'b cli_world \<Rightarrow> 'b cli_world" where
  "say s w = on_ext (c_console_update (\<lambda>out. out @ [Stdout s])) w"

definition complain :: "string \<Rightarrow> 'b cli_world \<Rightarrow> 'b cli_world" where
  "complain s w = on_ext (c_console_update (\<lambda>out. out @ [Stderr s])) w"

section \<open>Hexadecimal\<close>

definition hex_chars :: string where "hex_chars = ''0123456789abcdef''"

function hex_from :: "bytes \<Rightarrow> nat \<Rightarrow> nat \<Rightarrow> string \<Rightarrow> string option" where
  "hex_from data len i out =
     (if i < len then do {
        b \<leftarrow> mem_get data i;
        hi \<leftarrow> mem_get hex_chars (unat (drop_bit 4 b AND 0x0F));
        lo \<leftarrow> mem_get hex_chars (unat (b AND 0x0F));
        out \<leftarrow> mem_set out (i * 2) hi;
        out \<leftarrow> mem_set out (i * 2 + 1) lo;
        hex_from data len (Suc i) out
      }
      else mem_set out (len * 2) NUL)"
  by pat_completeness auto
termination
  by (relation "measure (\<lambda>(data, len, i, out). len - i)") auto

declare hex_from.simps [simp del]

definition bytes_to_hex :: "bytes \<Rightarrow> nat \<Rightarrow> string \<Rightarrow> string option" where
  "bytes_to_hex data len out = hex_from data len 0 out"

definition in_range :: "nat \<Rightarrow> nat \<Rightarrow> char \<Rightarrow> bool" where
  "in_range lo hi c \<longleftrightarrow> lo \<le> of_char c \<and> of_char c \<le> hi"

definition is_hex :: "char \<Rightarrow> bool" where
  "is_hex c \<longleftrightarrow> in_range 48 57 c \<or> in_range 97 102 c \<or> in_range 65 70 c"

text \<open>The value \<open>sscanf\<close> gives a hexadecimal digit.\<close>

definition hex_val :: "char \<Rightarrow> nat" where
  "hex_val c = (if in_range 48 57 c then of_char c - 48
     else if in_range 97 102 c then of_char c - 87 else of_char c - 55)"

function parse_hex :: "string \<Rightarrow> bytes \<Rightarrow> nat \<Rightarrow> nat \<Rightarrow> (int \<times> bytes) option" where
  "parse_hex hex out out_len i =
     (if i < out_len then do {
        c0 \<leftarrow> mem_get hex (i * 2);
        c1 \<leftarrow> mem_get hex (i * 2 + 1);
        (if \<not> is_hex c0 \<or> \<not> is_hex c1 then Some (-1, out)
         else do {
           out \<leftarrow> mem_set out i (of_nat (hex_val c0 * 16 + hex_val c1));
           parse_hex hex out out_len (Suc i)
         })
      }
      else Some (0, out))"
  by pat_completeness auto
termination
  by (relation "measure (\<lambda>(hex, out, out_len, i). out_len - i)") auto

declare parse_hex.simps [simp del]

definition hex_to_bytes :: "string \<Rightarrow> bytes \<Rightarrow> nat \<Rightarrow> (int \<times> bytes) option" where
  "hex_to_bytes hex out out_len =
     (if length hex \<noteq> out_len * 2 then Some (-1, out) else parse_hex hex out out_len 0)"

section \<open>Callback, thread and signal\<close>

definition cli_on_message_received :: "sodium \<Rightarrow> 'b cli_state_scheme on_message_fn" where
  "cli_on_message_received S userdata msg w =
     (case msg_payload msg of
        None \<Rightarrow> Some w
      | Some payload \<Rightarrow>
          if msg_payload_len msg < BC_NONCE_SIZE + BC_TAG_SIZE then Some w
          else do {
            (rc, key) \<leftarrow> bc_crypto_derive_shared S (Some (id_secret_key (c_identity (ext w))))
              (Some (msg_sender_pubkey msg)) (Some (replicate BC_SHARED_KEY_SIZE 0));
            (if rc \<noteq> BC_OK then Some w
             else do {
               let ct_len = msg_payload_len msg - BC_NONCE_SIZE;
               let pt_len = ct_len - BC_TAG_SIZE;
               let (ok, w) = c_malloc (pt_len + 1) w;
               (if \<not> ok then Some w
                else do {
                  (rc, plaintext) \<leftarrow> bc_crypto_decrypt S (Some (drop BC_NONCE_SIZE payload)) ct_len key
                    (Some payload) (Some (replicate (pt_len + 1) 0));
                  w \<leftarrow> (if rc = BC_OK then do {
                         plaintext \<leftarrow> plaintext;
                         plaintext \<leftarrow> mem_set plaintext pt_len 0;
                         sender_hex \<leftarrow> bytes_to_hex (msg_sender_pubkey msg) BC_PUBKEY_SIZE
                           (replicate (BC_PUBKEY_SIZE * 2 + 1) NUL);
                         Some (say ([NL] @ ''[PESAN MASUK dari '' @ cstr sender_hex @ '']:'' @ [NL] @ ''  ''
                           @ cstr (chars_of plaintext) @ [NL] @ ''> '') w)
                       }
                       else Some (complain (''[WARN] Decryption failed (rc='' @ decimal_int (err_code rc) @ '')'' @ [NL]) w));
                  Some (c_free w)
                })
             })
          })"

text \<open>One round of the thread's loop; the result says whether the loop goes on.\<close>

definition tick_thread_func ::
  "'b cli_state_scheme cli \<Rightarrow> 'b cli_world \<Rightarrow> (bool \<times> 'b cli_state_scheme cli \<times> 'b cli_world) option" where
  "tick_thread_func g w =
     (if c_running (ext w) then do {
        (r, w) \<leftarrow> bc_router_tick (cl_router g) w;
        Some (True, g\<lparr>cl_router := r\<rparr>, w)
      }
      else Some (False, g, w))"

definition signal_handler :: "'b cli_world \<Rightarrow> 'b cli_world" where
  "signal_handler w = on_ext (c_running_update (\<lambda>_. False)) w"

section \<open>Commands\<close>

definition cmd_info :: "'b cli_world \<Rightarrow> 'b cli_world option" where
  "cmd_info w =
     do {
       hex \<leftarrow> bytes_to_hex (id_pubkey (c_identity (ext w))) BC_PUBKEY_SIZE (replicate (BC_PUBKEY_SIZE * 2 + 1) NUL);
       Some (say (''Public Key: '' @ cstr hex @ [NL]) w)
     }"

function print_peers :: "'a bc_router \<Rightarrow> nat \<Rightarrow> 'b cli_world \<Rightarrow> 'b cli_world option" where
  "print_peers r i w =
     (if i < r_peer_count r then do {
        p \<leftarrow> mem_get (r_peers r) i;
        hex \<leftarrow> bytes_to_hex (peer_pubkey p) BC_PUBKEY_SIZE (replicate (BC_PUBKEY_SIZE * 2 + 1) NUL);
        print_peers r (Suc i) (say (''  ['' @ decimal i @ ''] '' @ cstr hex @ [NL]) w)
      }
      else Some w)"
  by pat_completeness auto
termination
  by (relation "measure (\<lambda>(r, i, w). r_peer_count r - i)") auto

declare print_peers.simps [simp del]

definition cmd_peers :: "'b cli_state_scheme cli \<Rightarrow> 'b cli_world \<Rightarrow> 'b cli_world option" where
  "cmd_peers g w =
     do {
       r \<leftarrow> cl_router g;
       (if r_peer_count r = 0 then Some (say (''(no peers)'' @ [NL]) w) else print_peers r 0 w)
     }"

text \<open>Encrypting and broadcasting a text, the second half of \<open>cmd_msg\<close>.\<close>

definition send_text ::
  "sodium \<Rightarrow> bytes \<Rightarrow> string \<Rightarrow> 'b cli_state_scheme cli \<Rightarrow> 'b cli_world \<Rightarrow>
   ('b cli_state_scheme cli \<times> 'b cli_world) option" where
  "send_text S recipient text g w =
     do {
       let text_len = length text;
       (rc, key) \<leftarrow> bc_crypto_derive_shared S (Some (id_secret_key (c_identity (ext w)))) (Some recipient)
         (Some (replicate BC_SHARED_KEY_SIZE 0));
       (if rc \<noteq> BC_OK
        then Some (g, say (''Error: failed to derive shared key (rc='' @ decimal_int (err_code rc) @ '')'' @ [NL]) w)
        else do {
          let ct_len = size_add text_len BC_TAG_SIZE;
          let total = size_add BC_NONCE_SIZE ct_len;
          let (ok, w) = c_malloc total w;
          (if \<not> ok then Some (g, say (''Error: out of memory'' @ [NL]) w)
           else do {
             let ciphertext = replicate total 0;
             (rc, ct, nonce, w) \<leftarrow> bc_crypto_encrypt S (Some (bytes_of text)) text_len key
               (Some (drop BC_NONCE_SIZE ciphertext)) (Some (take BC_NONCE_SIZE ciphertext)) w;
             (if rc \<noteq> BC_OK
              then Some (g, say (''Error: encryption failed (rc='' @ decimal_int (err_code rc) @ '')'' @ [NL]) (c_free w))
              else do {
                nonce \<leftarrow> nonce; ct \<leftarrow> ct;
                (msg, w) \<leftarrow> bc_message_create (Some (id_pubkey (c_identity (ext w)))) (Some recipient)
                  (Some (nonce @ ct)) total w;
                let w = c_free w;
                (if msg = None then Some (g, say (''Error: failed to create message'' @ [NL]) w)
                 else do {
                   (rc, r, w) \<leftarrow> bc_router_broadcast (cl_router g) msg w;
                   let w = bc_message_destroy msg w;
                   Some (g\<lparr>cl_router := r\<rparr>,
                     say (if rc = BC_OK then ''Message sent.'' @ [NL]
                          else ''Error: broadcast failed (rc='' @ decimal_int (err_code rc) @ '')'' @ [NL]) w)
                 })
              })
           })
        })
     }"

definition cmd_msg ::
  "sodium \<Rightarrow> string \<Rightarrow> 'b cli_state_scheme cli \<Rightarrow> 'b cli_world \<Rightarrow>
   ('b cli_state_scheme cli \<times> 'b cli_world) option" where
  "cmd_msg S args g w =
     (if length args < BC_PUBKEY_SIZE * 2 + 2
      then Some (g, say (''Usage: /msg <64-char hex pubkey> <message text>'' @ [NL]) w)
      else do {
        hex_str \<leftarrow> mem_read args 0 (BC_PUBKEY_SIZE * 2);
        (ok, recipient) \<leftarrow> hex_to_bytes hex_str (replicate BC_PUBKEY_SIZE 0) BC_PUBKEY_SIZE;
        (if ok \<noteq> 0 then Some (g, say (''Error: invalid hex public key'' @ [NL]) w)
         else
           let text = dropWhile (\<lambda>c. c = CHR '' '') (drop (BC_PUBKEY_SIZE * 2) args) in
           if text = [] then Some (g, say (''Error: message text is empty'' @ [NL]) w)
           else send_text S recipient text g w)
      })"

section \<open>The input loop\<close>

text \<open>\<open>fgets\<close>: up to and including a newline, at most \<open>n - 1\<close> characters; \<open>None\<close> at the end of the input.\<close>

definition c_fgets :: "nat \<Rightarrow> string \<Rightarrow> (string \<times> string) option" where
  "c_fgets n input =
     (if input = [] then None
      else let k = min (n - 1) (Suc (length (takeWhile (\<lambda>c. c \<noteq> NL) input))) in
        Some (take k input, drop k input))"

definition LINE_SIZE :: nat where "LINE_SIZE = 4096"

definition strip_newline :: "string \<Rightarrow> string" where
  "strip_newline s = (if s \<noteq> [] \<and> last s = NL then butlast s else s)"

definition handle_line ::
  "sodium \<Rightarrow> string \<Rightarrow> 'b cli_state_scheme cli \<Rightarrow> 'b cli_world \<Rightarrow>
   ('b cli_state_scheme cli \<times> 'b cli_world) option" where
  "handle_line S buf g w =
     (let line = strip_newline (cstr buf) in
      if line = [] then Some (g, w)
      else if line = ''/info'' then do { w \<leftarrow> cmd_info w; Some (g, w) }
      else if line = ''/peers'' then do { w \<leftarrow> cmd_peers g w; Some (g, w) }
      else if take 5 line = ''/msg '' then cmd_msg S (drop 5 line) g w
      else if line = ''/quit'' then Some (g, on_ext (c_running_update (\<lambda>_. False)) w)
      else Some (g, say (''Unknown command. Type /info, /peers, /msg, or /quit.'' @ [NL]) w))"

section \<open>Start-up\<close>

definition is_space :: "char \<Rightarrow> bool" where
  "is_space c \<longleftrightarrow> c = CHR '' '' \<or> in_range 9 13 c"

definition digits_val :: "string \<Rightarrow> int" where
  "digits_val ds = fold (\<lambda>c v. 10 * v + int (of_char c - 48)) ds 0"

text \<open>\<open>atoi\<close>, which is undefined when the value does not fit an \<open>int\<close>.\<close>

definition c_atoi :: "string \<Rightarrow> int option" where
  "c_atoi str =
     (let s = dropWhile is_space str;
          neg = (s \<noteq> [] \<and> hd s = CHR ''-'');
          s = (if s \<noteq> [] \<and> (hd s = CHR ''-'' \<or> hd s = CHR ''+'') then tl s else s);
          v = digits_val (takeWhile (in_range 48 57) s);
          v = (if neg then - v else v) in
      if - (2 ^ 31) \<le> v \<and> v < 2 ^ 31 then Some v else None)"

definition parse_port :: "string \<Rightarrow> u16 option" where
  "parse_port s = map_option of_int (c_atoi s)"

fun parse_ports :: "string list \<Rightarrow> u16 list option" where
  "parse_ports [] = Some []"
| "parse_ports (s # ss) = do { p \<leftarrow> parse_port s; ps \<leftarrow> parse_ports ss; Some (p # ps) }"

text \<open>
  The arguments: the own port and the array of peer ports, \<open>None\<close> for the null pointer that stands for
  no peers. An inner \<open>None\<close> is \<open>return 1\<close>.
\<close>

definition main_args ::
  "string list \<Rightarrow> 'b cli_world \<Rightarrow> ((u16 \<times> u16 list option) option \<times> 'b cli_world) option" where
  "main_args argv w =
     (if length argv < 2 then do {
        name \<leftarrow> mem_get argv 0;
        Some (None, complain (''Usage: '' @ name @ '' <my_port> [peer_port1 peer_port2 ...]'' @ [NL]) w)
      }
      else do {
        a1 \<leftarrow> mem_get argv 1;
        my_port \<leftarrow> parse_port a1;
        (if my_port = 0 then Some (None, complain (''Error: invalid port '' @ [CHR 0x27] @ a1 @ [CHR 0x27, NL]) w)
         else if length argv > 2 then
           let (ok, w) = c_malloc ((length argv - 2) * 2) w in
           if \<not> ok then Some (None, complain (''Error: out of memory'' @ [NL]) w)
           else do { ports \<leftarrow> parse_ports (drop 2 argv); Some (Some (my_port, Some ports), w) }
         else Some (Some (my_port, None), w))
      })"

definition free_ports :: "u16 list option \<Rightarrow> 'a world_scheme \<Rightarrow> 'a world_scheme" where
  "free_ports ports w = (if ports = None then w else c_free w)"

definition key_path :: "u16 \<Rightarrow> string" where
  "key_path port = ''node_'' @ decimal (unat port) @ ''.key''"

definition db_path :: "u16 \<Rightarrow> string" where
  "db_path port = ''node_'' @ decimal (unat port) @ ''.db''"

definition c_call :: "'b cli_world \<Rightarrow> bool \<times> 'b cli_world" where
  "c_call w = (c_answers (ext w) (c_ncall (ext w)), on_ext (c_ncall_update Suc) w)"

definition set_identity :: "bc_identity \<Rightarrow> 'b cli_world \<Rightarrow> 'b cli_world" where
  "set_identity i w = on_ext (c_identity_update (\<lambda>_. i)) w"

text \<open>The key file exists and could be opened: read the secret key and derive the public key.\<close>

definition load_identity :: "sodium \<Rightarrow> string \<Rightarrow> bytes \<Rightarrow> 'b cli_world \<Rightarrow> bool \<times> 'b cli_world" where
  "load_identity S path content w =
     (let n = min BC_SECRET_KEY_SIZE (length content);
          i = c_identity (ext w);
          sk = take n content @ drop n (id_secret_key i);
          w = set_identity (i\<lparr>id_secret_key := sk\<rparr>) w in
      if n \<noteq> BC_SECRET_KEY_SIZE
      then (False, complain (''Error: key file '' @ [CHR 0x27] @ path @ [CHR 0x27] @ '' is corrupted (''
        @ decimal n @ '' bytes)'' @ [NL]) w)
      else
        case sd_scalarmult_base S sk of
          None \<Rightarrow> (False, set_identity (i\<lparr>id_secret_key := replicate BC_SECRET_KEY_SIZE 0\<rparr>)
            (complain (''Error: failed to derive public key'' @ [NL]) w))
        | Some pk \<Rightarrow> (True, complain (''Identity loaded from '' @ path @ [NL])
            (set_identity \<lparr>id_pubkey = pk, id_secret_key = sk\<rparr> w)))"

text \<open>
  No key file: generate a key pair and save the secret key. The result of \<open>fwrite\<close> is not looked at: a
  write that fails leaves the truncated file behind.
\<close>

definition create_identity :: "sodium \<Rightarrow> string \<Rightarrow> 'b cli_world \<Rightarrow> bool \<times> 'b cli_world" where
  "create_identity S path w =
     (case bc_identity_generate S (Some (c_identity (ext w))) w of (rc, i, w) \<Rightarrow>
      let w = (case i of None \<Rightarrow> w | Some i \<Rightarrow> set_identity i w) in
      if rc \<noteq> BC_OK then (False, complain (''Error: failed to generate identity'' @ [NL]) w)
      else
        let (opened, w) = c_call w in
        if \<not> opened
        then (False, complain (''Error: cannot write key file '' @ [CHR 0x27] @ path @ [CHR 0x27, NL]) w)
        else
          let (written, w) = c_call w;
              content = (if written then id_secret_key (c_identity (ext w)) else []) in
          (True, complain (''New identity saved to '' @ path @ [NL])
            (on_ext (c_files_update (\<lambda>fs. fs(path \<mapsto> content))) w)))"

definition main_identity :: "sodium \<Rightarrow> u16 \<Rightarrow> 'b cli_world \<Rightarrow> bool \<times> 'b cli_world" where
  "main_identity S my_port w =
     (let path = key_path my_port;
          (readable, w) = c_call w in
      case (if readable then c_files (ext w) path else None) of
        Some content \<Rightarrow> load_identity S path content w
      | None \<Rightarrow> create_identity S path w)"

text \<open>The database and the socket; \<open>fd\<close> is the descriptor the kernel would hand out.\<close>

definition main_adapters ::
  "nat \<Rightarrow> u16 \<Rightarrow> u16 list option \<Rightarrow> 'b cli_world \<Rightarrow>
   (('b cli_state_scheme bc_storage \<times> 'b cli_state_scheme bc_transport) option \<times> 'b cli_world) option" where
  "main_adapters fd my_port ports w =
     (let path = db_path my_port;
          (st, w) = bc_storage_sqlite_create (Some path) w in
      case st of
        None \<Rightarrow> Some (None, free_ports ports
          (complain (''Error: failed to open database '' @ [CHR 0x27] @ path @ [CHR 0x27, NL]) w))
      | Some s \<Rightarrow> do {
          let peer_count = (case ports of None \<Rightarrow> 0 | Some ps \<Rightarrow> length ps);
          (tr, w) \<leftarrow> bc_transport_udp_create fd my_port ports peer_count w;
          let w = free_ports ports w;
          (case tr of
             None \<Rightarrow> do {
               destroy \<leftarrow> st_destroy s;
               Some (None, destroy (complain (''Error: failed to bind UDP port '' @ decimal (unat my_port) @ [NL]) w))
             }
           | Some (_, t) \<Rightarrow> Some (Some (s, t), w))
        })"

definition release_adapters ::
  "'b cli_state_scheme bc_transport \<Rightarrow> 'b cli_state_scheme bc_storage \<Rightarrow> 'b cli_world \<Rightarrow> 'b cli_world option" where
  "release_adapters t s w =
     do {
       destroy \<leftarrow> tr_destroy t;
       let w = c_free (destroy w);
       destroy \<leftarrow> st_destroy s;
       Some (destroy w)
     }"

function add_discovered ::
  "bc_peer list \<Rightarrow> nat \<Rightarrow> nat \<Rightarrow> 'a bc_router option \<Rightarrow> 'a world_scheme \<Rightarrow>
   ('a bc_router option \<times> 'a world_scheme) option" where
  "add_discovered found n i r w =
     (if i < n then do {
        p \<leftarrow> mem_get found i;
        (r, w) \<leftarrow> bc_router_add_peer r (Some p) w;
        add_discovered found n (Suc i) r w
      }
      else Some (r, w))"
  by pat_completeness auto
termination
  by (relation "measure (\<lambda>(found, n, i, r, w). n - i)") auto

declare add_discovered.simps [simp del]

text \<open>The router, its callback and the peers the transport knows.\<close>

definition main_router ::
  "sodium \<Rightarrow> 'b cli_state_scheme bc_transport \<Rightarrow> 'b cli_state_scheme bc_storage \<Rightarrow> 'b cli_world \<Rightarrow>
   (('b cli_state_scheme bc_router \<times> nat) option \<times> 'b cli_world) option" where
  "main_router S t s w =
     do {
       (r, w) \<leftarrow> bc_router_create (Some t) (Some s) (Some (id_pubkey (c_identity (ext w)))) None w;
       (if r = None then do {
          w \<leftarrow> release_adapters t s (complain (''Error: failed to create router'' @ [NL]) w);
          Some (None, w)
        }
        else do {
          let r = bc_router_set_on_message r (Some (cli_on_message_received S)) 0;
          discover \<leftarrow> tr_discover_peers t;
          (rc, found, n, w) \<leftarrow> discover (replicate BC_MAX_PEERS peer_zero) BC_MAX_PEERS 0 w;
          (r, w) \<leftarrow> (if rc = BC_OK then add_discovered found n 0 r w else Some (r, w));
          r \<leftarrow> r;
          Some (Some (r, n), w)
        })
     }"

definition banner :: "u16 \<Rightarrow> string \<Rightarrow> nat \<Rightarrow> string" where
  "banner my_port pubkey_hex found =
     ''=== BitChat CLI Simulator ==='' @ [NL] @
     ''Port      : '' @ decimal (unat my_port) @ [NL] @
     ''Public Key: '' @ pubkey_hex @ [NL] @
     ''Key File  : '' @ key_path my_port @ [NL] @
     ''Database  : '' @ db_path my_port @ [NL] @
     ''Peers     : '' @ decimal found @ [NL] @
     [NL] @ ''Commands:'' @ [NL] @
     ''  /info                      Show public key'' @ [NL] @
     ''  /peers                     List connected peers'' @ [NL] @
     ''  /msg <hex_pubkey> <text>   Send encrypted message'' @ [NL] @
     ''  /quit                      Exit'' @ [NL] @ [NL]"

text \<open>
  The assembly of the node: adapters, router and tick thread; \<open>None\<close> stands for \<open>return 1\<close>, and
  \<open>thread_rc\<close> is the result of \<open>pthread_create\<close>.
\<close>

definition main_assemble ::
  "sodium \<Rightarrow> nat \<Rightarrow> int \<Rightarrow> u16 \<Rightarrow> u16 list option \<Rightarrow> string \<Rightarrow> 'b cli_world \<Rightarrow>
   ('b cli_state_scheme cli option \<times> 'b cli_world) option" where
  "main_assemble S fd thread_rc my_port ports pubkey_hex w =
     do {
       (adapters, w) \<leftarrow> main_adapters fd my_port ports w;
       (case adapters of
          None \<Rightarrow> Some (None, w)
        | Some (s, t) \<Rightarrow> do {
            (router, w) \<leftarrow> main_router S t s w;
            (case router of
               None \<Rightarrow> Some (None, w)
             | Some (r, found) \<Rightarrow>
                 if thread_rc \<noteq> 0 then do {
                   w \<leftarrow> release_adapters t s (bc_router_destroy (Some r)
                     (complain (''Error: failed to create tick thread'' @ [NL]) w));
                   Some (None, w)
                 }
                 else Some (Some \<lparr>cl_transport = Some t, cl_storage = Some s, cl_router = Some r\<rparr>,
                   say (banner my_port pubkey_hex found) w))
          })
     }"

text \<open>\<open>main\<close> up to the input loop.\<close>

definition main_start ::
  "sodium \<Rightarrow> nat \<Rightarrow> int \<Rightarrow> string list \<Rightarrow> 'b cli_world \<Rightarrow>
   ('b cli_state_scheme cli option \<times> 'b cli_world) option" where
  "main_start S fd thread_rc argv w =
     do {
       (args, w) \<leftarrow> main_args argv w;
       (case args of
          None \<Rightarrow> Some (None, w)
        | Some (my_port, ports) \<Rightarrow>
            if bc_crypto_init S \<noteq> BC_OK
            then Some (None, free_ports ports (complain (''Error: failed to initialize libsodium'' @ [NL]) w))
            else
              let (ok, w) = main_identity S my_port w in
              if \<not> ok then Some (None, free_ports ports w)
              else do {
                pubkey_hex \<leftarrow> bytes_to_hex (id_pubkey (c_identity (ext w))) BC_PUBKEY_SIZE
                  (replicate (BC_PUBKEY_SIZE * 2 + 1) NUL);
                main_assemble S fd thread_rc my_port ports (cstr pubkey_hex) w
              })
     }"

definition main_shutdown :: "'b cli_state_scheme cli \<Rightarrow> 'b cli_world \<Rightarrow> 'b cli_world option" where
  "main_shutdown g w =
     do {
       let w = bc_router_destroy (cl_router g) w;
       t \<leftarrow> cl_transport g;
       s \<leftarrow> cl_storage g;
       w \<leftarrow> release_adapters t s w;
       i \<leftarrow> bc_identity_wipe (Some (c_identity (ext w)));
       Some (say (''Goodbye.'' @ [NL]) (set_identity i w))
     }"

section \<open>The running program\<close>

text \<open>
  Where the main thread is. Between the test of the loop and the end of \<open>fgets\<close> a signal can change
  \<open>g_running\<close>, so the line that is read then is still handled.
\<close>

datatype main_pc = Loop_Head | Await_Input | Headless | Joining | Exited

record 'a config =
  k_pc :: main_pc
  k_thread :: bool
  k_stdin :: string
  k_cli :: "'a cli"

type_synonym 'b cli_config = "'b cli_state_scheme config \<times> 'b cli_world"

inductive cli_step :: "sodium \<Rightarrow> 'b cli_config \<Rightarrow> 'b cli_config \<Rightarrow> bool" for S where
  tick: "k_pc k \<noteq> Exited \<Longrightarrow> k_thread k \<Longrightarrow> tick_thread_func (k_cli k) w = Some (True, g, w') \<Longrightarrow>
    cli_step S (k, w) (k\<lparr>k_cli := g\<rparr>, w')"
| thread_end: "k_pc k \<noteq> Exited \<Longrightarrow> k_thread k \<Longrightarrow> tick_thread_func (k_cli k) w = Some (False, g, w') \<Longrightarrow>
    cli_step S (k, w) (k\<lparr>k_thread := False, k_cli := g\<rparr>, w')"
| signal: "k_pc k \<noteq> Exited \<Longrightarrow> cli_step S (k, w) (k, signal_handler w)"
| prompt: "k_pc k = Loop_Head \<Longrightarrow> c_running (ext w) \<Longrightarrow>
    cli_step S (k, w) (k\<lparr>k_pc := Await_Input\<rparr>, say ''> '' w)"
| read_line: "k_pc k = Await_Input \<Longrightarrow> c_fgets LINE_SIZE (k_stdin k) = Some (line, rest) \<Longrightarrow>
    handle_line S line (k_cli k) w = Some (g, w') \<Longrightarrow>
    cli_step S (k, w) (k\<lparr>k_pc := Loop_Head, k_stdin := rest, k_cli := g\<rparr>, w')"
| end_of_input: "k_pc k = Await_Input \<Longrightarrow> c_fgets LINE_SIZE (k_stdin k) = None \<Longrightarrow>
    cli_step S (k, w) (k\<lparr>k_pc := Headless\<rparr>, w)"
| stop: "k_pc k \<in> {Loop_Head, Headless} \<Longrightarrow> \<not> c_running (ext w) \<Longrightarrow>
    cli_step S (k, w) (k\<lparr>k_pc := Joining\<rparr>, say ([NL] @ ''Shutting down...'' @ [NL]) w)"
| join: "k_pc k = Joining \<Longrightarrow> \<not> k_thread k \<Longrightarrow> main_shutdown (k_cli k) w = Some w' \<Longrightarrow>
    cli_step S (k, w) (k\<lparr>k_pc := Exited\<rparr>, w')"

inductive_simps cli_step_iff: "cli_step S (k, w) c"

definition started :: "'b cli_state_scheme cli \<Rightarrow> string \<Rightarrow> 'b cli_state_scheme config" where
  "started g input = \<lparr>k_pc = Loop_Head, k_thread = True, k_stdin = input, k_cli = g\<rparr>"

end
