(* ===== verification/Transport_Stubs.thy ===== *)
theory Transport_Stubs
  imports Router_Correct
begin

text \<open>
  The two transport adapters of a desktop build, \<^verbatim>\<open>src/infra/transport_ble.c\<close> and
  \<^verbatim>\<open>transport_wifi.c\<close>: placeholders for the mobile platforms that answer
  \<open>BC_ERR_NOT_IMPLEMENTED\<close> and touch none of their arguments.
\<close>

definition sizeof_transport :: nat where "sizeof_transport = 48"

section \<open>Bluetooth\<close>

definition ble_init :: "'a world_scheme \<Rightarrow> bc_err \<times> 'a world_scheme" where
  "ble_init w = (BC_ERR_NOT_IMPLEMENTED, w)"

definition ble_send :: "'a send_fn" where
  "ble_send pubkey data len w = Some (BC_ERR_NOT_IMPLEMENTED, w)"

definition ble_recv :: "'a recv_fn" where
  "ble_recv buf buf_len out_len pubkey_out w =
     Some (BC_ERR_NOT_IMPLEMENTED, buf, out_len, pubkey_out, w)"

definition ble_discover :: "'a discover_fn" where
  "ble_discover peers_out max_peers found w = Some (BC_ERR_NOT_IMPLEMENTED, peers_out, 0, w)"

text \<open>The context pointer is \<open>NULL\<close>, so freeing it does nothing.\<close>

definition ble_destroy :: "'a world_scheme \<Rightarrow> 'a world_scheme" where
  "ble_destroy w = w"

definition ble_transport :: "'a bc_transport" where
  "ble_transport = \<lparr>tr_init = Some ble_init, tr_send = Some ble_send, tr_recv = Some ble_recv,
     tr_discover_peers = Some ble_discover, tr_destroy = Some ble_destroy\<rparr>"

definition bc_transport_ble_create :: "'a world_scheme \<Rightarrow> 'a bc_transport option \<times> 'a world_scheme" where
  "bc_transport_ble_create w =
     (let (ok, w) = c_malloc sizeof_transport w in (if ok then Some ble_transport else None, w))"

section \<open>Wi-Fi Direct\<close>

definition wifi_init :: "'a world_scheme \<Rightarrow> bc_err \<times> 'a world_scheme" where
  "wifi_init w = (BC_ERR_NOT_IMPLEMENTED, w)"

definition wifi_send :: "'a send_fn" where
  "wifi_send pubkey data len w = Some (BC_ERR_NOT_IMPLEMENTED, w)"

definition wifi_recv :: "'a recv_fn" where
  "wifi_recv buf buf_len out_len pubkey_out w =
     Some (BC_ERR_NOT_IMPLEMENTED, buf, out_len, pubkey_out, w)"

definition wifi_discover :: "'a discover_fn" where
  "wifi_discover peers_out max_peers found w = Some (BC_ERR_NOT_IMPLEMENTED, peers_out, 0, w)"

definition wifi_destroy :: "'a world_scheme \<Rightarrow> 'a world_scheme" where
  "wifi_destroy w = w"

definition wifi_transport :: "'a bc_transport" where
  "wifi_transport = \<lparr>tr_init = Some wifi_init, tr_send = Some wifi_send, tr_recv = Some wifi_recv,
     tr_discover_peers = Some wifi_discover, tr_destroy = Some wifi_destroy\<rparr>"

definition bc_transport_wifi_create :: "'a world_scheme \<Rightarrow> 'a bc_transport option \<times> 'a world_scheme" where
  "bc_transport_wifi_create w =
     (let (ok, w) = c_malloc sizeof_transport w in (if ok then Some wifi_transport else None, w))"

section \<open>Both keep the transport contract\<close>

interpretation ble: transport_port J ble_transport for J
  by unfold_locales (auto simp: ble_transport_def ble_send_def ble_discover_def)

interpretation wifi: transport_port J wifi_transport for J
  by unfold_locales (auto simp: wifi_transport_def wifi_send_def wifi_discover_def)

text \<open>Neither ever has data, so polling them ends at once.\<close>

interpretation ble_poll: draining_transport "\<lambda>k. J" ble_transport for J
  by unfold_locales (auto simp: ble_transport_def ble_recv_def)

interpretation wifi_poll: draining_transport "\<lambda>k. J" wifi_transport for J
  by unfold_locales (auto simp: wifi_transport_def wifi_recv_def)

end
