(* ===== verification/Router_Props.thy ===== *)
theory Router_Props
  imports Transport_Udp Transport_Stubs
begin

text \<open>
  The router's properties, stated for every transport, storage and callback that keep their
  contracts, and shown on the node that the simulator builds: a router over the UDP transport and
  the SQLite storage.
\<close>

section \<open>The simulator's node\<close>

definition udp_node :: "int \<Rightarrow> u16 \<Rightarrow> u16 list \<Rightarrow> bytes \<Rightarrow> 'b udp_state_scheme bc_router" where
  "udp_node fd my_port ports lk =
     new_router (Some (udp_transport (udp_ctx_of fd my_port ports))) (Some sqlite_storage) lk"

interpretation nd: router_ports "udp_inv k" "udp_node fd my_port ports lk" for k fd my_port ports lk
  by (simp add: router_ports_def udp_node_def ud.transport_port_axioms ud_sq.storage_port_axioms)

interpretation nd_poll: draining_ports udp_inv "udp_node fd my_port ports lk" for fd my_port ports lk
  by (simp add: draining_ports_def nd.router_ports_axioms [unfolded udp_node_def] udp_node_def
    ud_poll.draining_transport_axioms)

lemma udp_node_simps [simp]:
  "length lk = 32 \<Longrightarrow> router_wf (udp_node fd p ports lk)" "known_peers (udp_node fd p ports lk) = []"
  "length lk = 32 \<Longrightarrow> length u = 16 \<Longrightarrow> \<not> seen (udp_node fd p ports lk) u"
  "r_local_pubkey (udp_node fd p ports lk) = lk" "r_on_message (udp_node fd p ports lk) = None"
  "has_store (udp_node fd p ports lk)"
  by (simp_all add: udp_node_def new_router_wf has_store_def sqlite_storage_def)
    (simp add: new_router_def known_peers_def)

text \<open>The sample message as a packet at a node.\<close>

abbreviation node1 :: "udp_state bc_router" where
  "node1 \<equiv> udp_node 3 9000 [9001] (replicate 32 1)"

abbreviation w0 :: "udp_state world_scheme" where
  "w0 \<equiv> with_ext (udp_idle True) 1000"

lemma sample_packet:
  "\<exists>w1. bc_message_deserialize (Some (wire (sample_msg\<lparr>msg_ttl := t\<rparr>))) 95 w0 = Some (Some (sample_msg\<lparr>msg_ttl := t\<rparr>), w1)"
  "length (wire (sample_msg\<lparr>msg_ttl := t\<rparr>)) = 95" "length (msg_uuid sample_msg) = 16"
proof -
  have wf: "message_wf (sample_msg\<lparr>msg_ttl := t\<rparr>)" by (simp add: sample_msg_def message_wf_def size_defs)
  then show l: "length (wire (sample_msg\<lparr>msg_ttl := t\<rparr>)) = 95" by (simp add: wire_length)
  show "length (msg_uuid sample_msg) = 16" by (simp add: sample_msg_def)
  show "\<exists>w1. bc_message_deserialize (Some (wire (sample_msg\<lparr>msg_ttl := t\<rparr>))) 95 w0 = Some (Some (sample_msg\<lparr>msg_ttl := t\<rparr>), w1)"
    using deserialize_wire [OF wf, of 95 "[]" w0] l by auto
qed

section \<open>Receiving\<close>

text \<open>
  Duplicates have no effect: a packet whose identifier is in the deduplication table is reported
  as a duplicate; nothing is sent, stored or delivered, the router is unchanged and the decoded copy
  is freed.
\<close>

lemma receive_duplicate_inert:
  assumes "n \<le> length d" "bc_message_deserialize (Some d) n w = Some (Some m, w1)" "seen r (msg_uuid m)"
  shows "\<exists>w'. bc_router_receive (Some r) (Some d) n w = Some (BC_ERR_DUPLICATE, Some r, w') \<and>
    w_trace w' = w_trace w \<and> w_live w' = w_live w \<and> ext w' = ext w"
  using deserialize_Some [OF assms(2,1)] receive_duplicate [OF _ assms(2,3)] by auto

text \<open>
  Hop limit: a new packet that arrives with no hops left is remembered, so that copies of it are
  duplicates, and is neither delivered nor stored nor sent.
\<close>

lemma receive_expired_inert:
  assumes "router_wf r" "n \<le> length d" "length d < 2 ^ 31" "bc_message_deserialize (Some d) n w = Some (Some m, w1)"
    and "\<not> seen r (msg_uuid m)" "msg_ttl m = 0"
  shows "\<exists>r' w'. bc_router_receive (Some r) (Some d) n w = Some (BC_ERR_TTL_EXPIRED, Some r', w') \<and>
    seen r' (msg_uuid m) \<and> router_wf r' \<and> same_but_seen r r' \<and>
    w_trace w' = w_trace w \<and> w_live w' = w_live w \<and> ext w' = ext w"
proof -
  note m = decoded_storable [OF assms(4,2,3)]
  obtain r' where "router_mark r (msg_uuid m) w1 = Some (r', snd (c_time w1))" "router_wf r'"
      "seen r' (msg_uuid m)" "same_but_seen r r'"
    using router_mark_ok [OF assms(1) m(2)] .
  with receive_expired [OF m(7) assms(4,1) m(2) assms(5,6)] m show ?thesis by simp
qed

text \<open>
  C8. Delivery: a new packet for this node with hops left reaches the callback exactly once, with one
  hop less, and is neither stored nor forwarded to other nodes; what else happens are only the
  callback's own messages to the user.
\<close>

theorem receive_delivers:
  assumes "router_ports J r" "router_wf r" "J (ext w)"
    and "bc_message_deserialize (Some d) n w = Some (Some m, w1)" "n \<le> length d" "length d < 2 ^ 31"
    and "\<not> seen r (msg_uuid m)" "msg_ttl m \<noteq> 0" "msg_receiver_pubkey m = r_local_pubkey r"
    and "r_on_message r \<noteq> None"
  shows "\<exists>r' w' us. bc_router_receive (Some r) (Some d) n w = Some (BC_OK, Some r', w') \<and>
    router_wf r' \<and> seen r' (msg_uuid m) \<and> J (ext w') \<and>
    w_trace w' = w_trace w @ Delivered (m\<lparr>msg_ttl := msg_ttl m - 1\<rparr>) # us \<and>
    (\<forall>e\<in>set us. to_user e)"
  using receive_local [OF assms(1-9)] assms(10) by fastforce

text \<open>
  C7. Relaying: a new packet for another node is first persisted, when there is a storage, and then
  gossiped: the calls of \<open>send\<close> carry the wire form of the message with one hop less, go to a prefix of
  the known peers in order, and stop when the fanout is reached or the peers are exhausted. The heap
  is as before.
\<close>

theorem receive_relays:
  assumes "router_ports J r" "router_wf r" "J (ext w)"
    and "bc_message_deserialize (Some d) n w = Some (Some m, w1)" "n \<le> length d" "length d < 2 ^ 31"
    and "\<not> seen r (msg_uuid m)" "msg_ttl m \<noteq> 0" "msg_receiver_pubkey m \<noteq> r_local_pubkey r"
    and "\<forall>k s. w_heap w k s"
  shows "\<exists>r' w' st rcs. let m' = m\<lparr>msg_ttl := msg_ttl m - 1\<rparr> in
    bc_router_receive (Some r) (Some d) n w = Some (BC_OK, Some r', w') \<and>
    router_wf r' \<and> seen r' (msg_uuid m) \<and> J (ext w') \<and> w_live w' = w_live w \<and>
    w_trace w' = w_trace w @ st @ sends (wire m') (known_peers r) rcs \<and>
    (if has_store r then \<exists>rc. st = [Stored m' rc] else st = []) \<and> gossiped r (wire m') rcs"
  using receive_relay [OF assms(1-9)] assms(10) unfolding Let_def by fastforce

theorem receive_relays_witness:
  "\<exists>r' w' rc. bc_router_receive (Some node1) (Some (wire (sample_msg\<lparr>msg_ttl := 3\<rparr>))) 95 w0 = Some (BC_OK, Some r', w') \<and>
     w_trace w' = [Stored (sample_msg\<lparr>msg_ttl := 2\<rparr>) rc]"
proof -
  obtain w1 where d: "bc_message_deserialize (Some (wire (sample_msg\<lparr>msg_ttl := 3\<rparr>))) 95 w0
      = Some (Some (sample_msg\<lparr>msg_ttl := 3\<rparr>), w1)" using sample_packet(1) by blast
  have "msg_receiver_pubkey (sample_msg\<lparr>msg_ttl := 3\<rparr>) \<noteq> r_local_pubkey node1"
    by (simp add: sample_msg_def list_eq_iff_nth_eq exI [of _ 0])
  then show ?thesis
    using receive_relays [OF nd.router_ports_axioms [where k = 0] _ _ d, of 3 9000 "[9001]" "replicate 32 1"]
      sample_packet(2) [of 3] sample_packet(3)
    by (auto simp: Let_def sends_def)
qed



section \<open>Sending\<close>

text \<open>A node that knows two peers.\<close>

definition with_peers :: "bc_peer list \<Rightarrow> 'a bc_router \<Rightarrow> 'a bc_router" where
  "with_peers ps r = r\<lparr>r_peers := ps @ replicate (64 - length ps) peer_zero, r_peer_count := length ps\<rparr>"

lemma with_peers_simps [simp]:
  "known_peers (with_peers ps r) = ps" "r_transport (with_peers ps r) = r_transport r"
  "r_storage (with_peers ps r) = r_storage r" "r_on_message (with_peers ps r) = r_on_message r"
  "r_peer_count (with_peers ps r) = length ps" "r_config (with_peers ps r) = r_config r"
  "r_local_pubkey (with_peers ps r) = r_local_pubkey r" "r_last_sf_tick (with_peers ps r) = r_last_sf_tick r"
  "seen (with_peers ps r) u = seen r u" "has_store (with_peers ps r) = has_store r"
  by (simp_all add: with_peers_def known_peers_def seen_def has_store_def)

lemma with_peers_wf:
  assumes "router_wf r" "peers_wf ps"
  shows "router_wf (with_peers ps r)"
proof -
  have "length ps \<le> 64" using assms(2) by (simp add: peers_wf_def)
  with assms show ?thesis
    unfolding router_wf_peers with_peers_simps by (simp add: with_peers_def)
qed

lemma with_peers_ports: "router_ports J r \<Longrightarrow> router_ports J (with_peers ps r)"
  by (rule router_ports_cong) simp_all

abbreviation two_peers :: "bc_peer list" where
  "two_peers \<equiv> [port_peer 9001, port_peer 9002]"

abbreviation node2 :: "udp_state bc_router" where
  "node2 \<equiv> with_peers two_peers (udp_node 3 9000 [9001, 9002] (replicate 32 1))"

lemma port_key_neq: "p \<noteq> q \<Longrightarrow> peer_pubkey (port_peer p) \<noteq> peer_pubkey (port_peer q)"
  using port_key_inj by blast

lemma node2_ok: "router_wf node2" "router_ports (udp_inv k) node2"
proof -
  show "router_wf node2"
    by (rule with_peers_wf) (simp_all add: peers_wf_def port_key_neq)
  show "router_ports (udp_inv k) node2" by (rule with_peers_ports) (rule nd.router_ports_axioms)
qed

text \<open>
  C19. Store-and-forward: when the interval has passed and there is a peer, the tick asks for all
  pending messages and gossips each of them in the order of the storage, frees them all, and
  remembers the time.
\<close>

theorem store_forward_gossips:
  assumes "router_ports J r" "router_wf r" "J (ext w)" "r_storage r = Some s" "st_get_pending s = Some g"
    and "r_peer_count r > 0" "BC_SF_REBROADCAST_SEC \<le> w_clock w (w_ntime w) - r_last_sf_tick r"
    and "g None (snd (c_time w)) = Some (BC_OK, ms, w1)" "heap_ok w1"
  shows "\<exists>w' rcss. tick_store_forward r w = Some (r\<lparr>r_last_sf_tick := w_clock w (w_ntime w)\<rparr>, w') \<and>
    list_all2 (\<lambda>m rcs. gossiped r (wire m) rcs) ms rcss \<and>
    w_trace w' = w_trace w @ concat (map2 (\<lambda>m rcs. sends (wire m) (known_peers r) rcs) ms rcss) \<and>
    w_live w' = w_live w \<and> J (ext w')"
proof -
  from router_ports.store_forward_due [OF assms(1-8)] obtain w' ess where
    w': "tick_store_forward r w = Some (r\<lparr>r_last_sf_tick := w_clock w (w_ntime w)\<rparr>, w')"
      "list_all2 (gossip_of (heap_ok w1) r) ms ess" "w_trace w' = w_trace w @ concat ess"
      "w_live w' = w_live w" "J (ext w')" by blast
  have "\<exists>rcss. list_all2 (\<lambda>m rcs. gossiped r (wire m) rcs) ms rcss \<and>
      ess = map2 (\<lambda>m rcs. sends (wire m) (known_peers r) rcs) ms rcss"
    using w'(2) assms(9)
  proof (induction ms ess rule: list_all2_induct)
    case (Cons m ms es ess)
    then obtain rcs rcss where "gossiped r (wire m) rcs" "es = sends (wire m) (known_peers r) rcs"
        "list_all2 (\<lambda>m rcs. gossiped r (wire m) rcs) ms rcss"
        "ess = map2 (\<lambda>m rcs. sends (wire m) (known_peers r) rcs) ms rcss"
      by (auto simp: gossip_of_def)
    then show ?case by (intro exI [of _ "rcs # rcss"]) simp
  qed simp
  with w' show ?thesis by blast
qed

text \<open>A node with one message in its database.\<close>

abbreviation w_stored :: "udp_state world_scheme" where
  "w_stored \<equiv> with_ext ((udp_idle True)\<lparr>q_rows := [stored_row sample_msg 1000]\<rparr>) 1000"

lemma w_stored_ok:
  "udp_inv 0 (ext w_stored)"
  "\<exists>w1. sqlite_get_pending None (snd (c_time w_stored)) = Some (BC_OK, [row_msg (stored_row sample_msg 1000)], w1) \<and> heap_ok w1"
proof -
  let ?w = "snd (c_time w_stored)"
  let ?rows = "sql_get_pending None (w_clock ?w (w_ntime ?w)) (q_rows (ext ?w))"
  have wf: "row_wf (stored_row sample_msg 1000)" by (rule stored_row_wf) simp
  then show inv: "udp_inv 0 (ext w_stored)"
    by (simp add: udp_inv_def udp_quota_def udp_live_def sql_inv_def) (metis order_refl)
  have rows: "?rows = [stored_row sample_msg 1000]"
    by (simp add: sql_get_pending_def stored_row_def STORAGE_DEFAULT_RETENTION_SEC_def word_sle_eq)
  have h: "w_heap (snd (c_time ?w)) k n" for k n
    using oracles_heap [of "snd (c_time ?w)" w_stored] by simp
  obtain w1 where w1: "sqlite_get_pending None ?w = Some (BC_OK, [row_msg (stored_row sample_msg 1000)], w1)"
    using read_rows_complete [of ?rows "snd (c_time ?w)" 0 "[]"] get_pending_eq [of None ?w] wf h rows by auto
  have "sql_inv (ext ?w)" using inv by (simp add: udp_inv_def)
  then obtain rc ms w2 where "sqlite_get_pending None ?w = Some (rc, ms, w2)" "oracles w2 = oracles ?w"
    using get_pending_spec [of None ?w] by (metis option.distinct(1))
  then have "oracles w1 = oracles w_stored" using w1 by simp
  then have "heap_ok w1" using oracles_heap [of w1 w_stored] by (simp add: heap_ok_def)
  with w1 show "\<exists>w1. sqlite_get_pending None ?w = Some (BC_OK, [row_msg (stored_row sample_msg 1000)], w1) \<and> heap_ok w1"
    by blast
qed

theorem store_forward_gossips_witness:
  "\<exists>w' rcs. tick_store_forward node2 w_stored = Some (node2\<lparr>r_last_sf_tick := 1000\<rparr>, w') \<and>
     gossiped node2 (wire (row_msg (stored_row sample_msg 1000))) rcs \<and>
     w_trace w' = sends (wire (row_msg (stored_row sample_msg 1000))) two_peers rcs"
proof -
  obtain w1 where w1: "sqlite_get_pending None (snd (c_time w_stored))
      = Some (BC_OK, [row_msg (stored_row sample_msg 1000)], w1)" "heap_ok w1" using w_stored_ok(2) by blast
  have "r_storage node2 = Some sqlite_storage" by (simp add: udp_node_def)
  moreover have "st_get_pending sqlite_storage = Some sqlite_get_pending" by (simp add: sqlite_storage_def)
  moreover have "BC_SF_REBROADCAST_SEC \<le> w_clock w_stored (w_ntime w_stored) - r_last_sf_tick node2"
    by (simp add: BC_SF_REBROADCAST_SEC_def udp_node_def new_router_def)
  ultimately obtain w' rcss where
    "tick_store_forward node2 w_stored = Some (node2\<lparr>r_last_sf_tick := w_clock w_stored (w_ntime w_stored)\<rparr>, w')"
    "list_all2 (\<lambda>m rcs. gossiped node2 (wire m) rcs) [row_msg (stored_row sample_msg 1000)] rcss"
    "w_trace w' = w_trace w_stored @ concat (map2 (\<lambda>m rcs. sends (wire m) (known_peers node2) rcs)
       [row_msg (stored_row sample_msg 1000)] rcss)"
    using store_forward_gossips [of "udp_inv 0" node2 w_stored sqlite_storage sqlite_get_pending
        "[row_msg (stored_row sample_msg 1000)]" w1] node2_ok w_stored_ok(1) w1 by auto
  then show ?thesis by (auto simp: list_all2_Cons1)
qed

lemma store_forward_not_due:
  assumes "w_clock w (w_ntime w) - r_last_sf_tick r < BC_SF_REBROADCAST_SEC"
  shows "tick_store_forward r w = Some (r, snd (c_time w))"
  using assms by (auto simp: tick_store_forward_def c_time_def Let_def split: option.split)



section \<open>The peer table and the life cycle\<close>

text \<open>
  The peer table refines a map of at most 64 keys: adding a peer succeeds, binds its key and
  leaves all other bindings as they were, except that a new key is dropped when the table is full.
\<close>

lemma add_peer_refines_map:
  assumes "router_wf r" "peer_wf p"
  shows "\<exists>r' w' q. bc_router_add_peer (Some r) (Some p) w = Some (Some r', w') \<and> router_wf r' \<and>
    peer_pubkey q = peer_pubkey p \<and>
    peer_map (known_peers r') = (if peer_pubkey p \<in> dom (peer_map (known_peers r)) \<or> length (known_peers r) < 64
      then (peer_map (known_peers r))(peer_pubkey p \<mapsto> q) else peer_map (known_peers r))"
proof -
  obtain r' w' where a: "router_add p r w = Some (r', w')" "router_wf r'" using rt.add_total [OF assms] .
  then have "bc_router_add_peer (Some r) (Some p) w = Some (Some r', w')"
    by (auto simp: router_add_def bind_eq_Some_conv)
  moreover from rt.add_map [OF assms a(1)] obtain q where
    "peer_map (known_peers r') = (if peer_pubkey p \<in> peer_keys (known_peers r) \<or> length (known_peers r) < 64
      then (peer_map (known_peers r))(peer_pubkey p \<mapsto> q) else peer_map (known_peers r))"
    "q = p \<or> q = touched p w" by blast
  ultimately show ?thesis using a(2) by (intro exI [of _ r'] exI [of _ w'] exI [of _ q]) auto
qed

text \<open>
  Constructor and destructor: a router is created well-formed, without peers, with an empty
  deduplication table, and destroying it frees what was allocated; a constructor that fails leaves no
  block behind.
\<close>

lemma router_create_destroy:
  assumes "length lk = 32" "\<And>c. config = Some c \<Longrightarrow> 0 < cfg_dedup_cap c"
  shows "\<exists>ro w'. bc_router_create t s (Some lk) config w = Some (ro, w') \<and>
    w_live (bc_router_destroy ro w') = w_live w \<and> w_trace w' = w_trace w \<and> ext w' = ext w \<and>
    (\<forall>r. ro = Some r \<longrightarrow> router_wf r \<and> known_peers r = [] \<and> (\<forall>u. length u = 16 \<longrightarrow> \<not> seen r u) \<and>
      r_transport r = t \<and> r_storage r = s \<and> r_local_pubkey r = lk)"
proof -
  have "\<exists>ro w'. bc_router_create t s (Some lk) config w = Some (ro, w') \<and>
      (ro = None \<longrightarrow> w_live w' = w_live w \<and> w_trace w' = w_trace w \<and> ext w' = ext w)"
    using assms(1) by (auto simp: bc_router_create_def mem_simps size_defs Let_def case_prod_beta)
  then obtain ro w' where c: "bc_router_create t s (Some lk) config w = Some (ro, w')"
      "ro = None \<Longrightarrow> w_live w' = w_live w \<and> w_trace w' = w_trace w \<and> ext w' = ext w" by blast
  show ?thesis
  proof (cases ro)
    case None
    with c show ?thesis by (simp add: bc_router_destroy_def)
  next
    case (Some r)
    note ok = create_ok [OF assms c(1) [unfolded Some]]
    note un = create_unseen [OF assms c(1) [unfolded Some]]
    from c(1) Some ok un show ?thesis by simp
  qed
qed

section \<open>Amplification\<close>

theorem udp_fanout_amplified_witness:
  "\<exists>rc w'. forward_to_peers node2 [1, 2] 2 w0 = Some (rc, w') \<and>
     u_outgoing (ext w') = [(9001, [1, 2]), (9002, [1, 2]), (9001, [1, 2]), (9002, [1, 2])]"
proof -
  have t: "r_transport node2 = Some (udp_transport (udp_ctx_of 3 9000 [9001, 9002]))" by (simp add: udp_node_def)
  have f: "min (unat (cfg_fanout (r_config node2))) (r_peer_count node2) = 2"
    by (simp add: udp_node_def new_router_def BC_DEFAULT_FANOUT_def)
  show ?thesis
    using udp_fanout_amplified [OF node2_ok(1) t, of w0 2 "[1, 2]"] unfolding f by (simp add: numeral_2_eq_2)
qed

end
