(* ===== verification/Cli_Correct.thy ===== *)
theory Cli_Correct
  imports Cli Router_Props
begin

text \<open>
  Correctness of the command-line simulator: the hexadecimal codec, the delivery callback and its
  contract, the commands, start-up and shutdown, and the program as a state machine of two threads.
\<close>

section \<open>Hexadecimal\<close>

text \<open>The reference encoding, two lower-case digits per byte, and its inverse.\<close>

definition hex2 :: "u8 \<Rightarrow> string" where
  "hex2 b = [hex_chars ! (unat b div 16), hex_chars ! (unat b mod 16)]"

definition hexs :: "bytes \<Rightarrow> string" where
  "hexs d = concat (map hex2 d)"

fun unhex :: "string \<Rightarrow> bytes" where
  "unhex (a # b # cs) = of_nat (hex_val a * 16 + hex_val b) # unhex cs"
| "unhex _ = []"

definition lower :: "char \<Rightarrow> char" where
  "lower c = (if in_range 65 70 c then char_of (of_char c + 32 :: nat) else c)"

lemma hexs_simps [simp]: "hexs [] = []" "hexs (b # d) = hex2 b @ hexs d" "length (hexs d) = 2 * length d"
  by (simp_all add: hexs_def) (induction d; simp add: hex2_def)

lemma hex_index: "unat (b :: u8) div 16 < 16"
proof -
  have "unat b < 2 ^ LENGTH(8)" by (rule unsigned_less)
  then show ?thesis by (simp add: less_mult_imp_div_less)
qed

lemma nibbles: "unat (b AND 0x0F :: u8) = unat b mod 16" "unat (drop_bit 4 b :: u8) mod 16 = unat b div 16"
proof -
  have m: "(0x0F :: u8) = mask 4" by (simp add: mask_eq_exp_minus_1)
  have "unat (take_bit 4 b :: u8) = take_bit 4 (unat b)" by (rule unsigned_take_bit_eq)
  then show "unat (b AND 0x0F :: u8) = unat b mod 16" by (simp only: m take_bit_eq_mask) (simp add: take_bit_eq_mod flip: take_bit_eq_mask)
  have "unat (drop_bit 4 b :: u8) = unat b div 2 ^ 4" unfolding unat_drop_bit_eq by (rule drop_bit_eq_div)
  then show "unat (drop_bit 4 b :: u8) mod 16 = unat b div 16" using hex_index [of b] by simp
qed

lemma length_hex_chars [simp]: "length hex_chars = 16"
  by (simp add: hex_chars_def)

lemma hex_from_spec:
  assumes "i \<le> len" "len \<le> length data" "len * 2 < length out"
  shows "hex_from data len i out
    = Some (take (i * 2) out @ hexs (drop i (take len data)) @ NUL # drop (Suc (len * 2)) out)"
  using assms
proof (induction "len - i" arbitrary: i out)
  case 0
  then show ?case
    by (subst hex_from.simps) (simp add: mem_simps upd_conv_take_nth_drop)
next
  case (Suc k)
  then have i: "i < len" "i < length data" by simp_all
  let ?b = "data ! i"
  let ?out = "out[i * 2 := hex_chars ! (unat ?b div 16), i * 2 + 1 := hex_chars ! (unat ?b mod 16)]"
  have "hex_from data len i out = hex_from data len (Suc i) ?out"
    using i Suc.prems by (subst hex_from.simps) (simp add: mem_simps nibbles hex_index)
  moreover have "hex_from data len (Suc i) ?out
      = Some (take (Suc i * 2) ?out @ hexs (drop (Suc i) (take len data)) @ NUL # drop (Suc (len * 2)) ?out)"
    using Suc.hyps(2) Suc.prems i by (intro Suc.hyps(1)) simp_all
  moreover have "take (Suc i * 2) ?out = take (i * 2) out @ hex2 ?b"
    using Suc.prems i by (intro nth_equalityI) (auto simp: hex2_def nth_append nth_list_update less_Suc_eq)
  moreover have "drop i (take len data) = ?b # drop (Suc i) (take len data)"
    using i by (simp add: drop_take Cons_nth_drop_Suc [symmetric] Suc_diff_Suc [symmetric])
  ultimately show ?case using i by (simp add: drop_update_cancel)
qed

lemma bytes_to_hex_ok:
  assumes "len \<le> length data" "len * 2 < length out"
  shows "bytes_to_hex data len out = Some (hexs (take len data) @ NUL # drop (Suc (len * 2)) out)"
  using hex_from_spec [of 0 len data out] assms by (simp add: bytes_to_hex_def)

lemma hex_digits:
  "k < 16 \<Longrightarrow> is_hex (hex_chars ! k) \<and> hex_val (hex_chars ! k) = k \<and> hex_chars ! k \<noteq> NUL"
proof -
  have "list_all (\<lambda>k. is_hex (hex_chars ! k) \<and> hex_val (hex_chars ! k) = k \<and> hex_chars ! k \<noteq> NUL) [0..<16]"
    by code_simp
  then show "k < 16 \<Longrightarrow> ?thesis" by (simp add: list_all_iff)
qed

lemma hexs_is_hex: "list_all is_hex (hexs d)"
  by (induction d) (simp_all add: hex2_def hex_digits hex_index)

lemma unhex_hexs [simp]: "unhex (hexs d) = d"
proof (induction d)
  case (Cons b d)
  have "(of_nat (unat b div 16 * 16 + unat b mod 16) :: u8) = b"
    by (simp only: div_mult_mod_eq) simp
  with Cons show ?case by (simp add: hex2_def hex_digits hex_index)
qed simp

lemma cstr_hexs [simp]: "cstr (hexs d @ NUL # cs) = hexs d"
proof -
  have "\<forall>c\<in>set (hexs d). c \<noteq> NUL"
    by (induction d) (auto simp: hex2_def hex_digits hex_index)
  then show ?thesis by (simp add: cstr_def takeWhile_append)
qed

lemma hex_of_val:
  assumes "is_hex c"
  shows "hex_chars ! hex_val c = lower c" "hex_val c < 16"
proof -
  have c: "c = char_of (of_char c :: nat)" by simp
  have "of_char c \<in> set ([48..<58] @ [65..<71] @ [97..<103] :: nat list)"
    using assms unfolding is_hex_def in_range_def set_append set_upt Un_iff atLeastLessThan_iff by linarith
  then have "hex_chars ! hex_val (char_of (of_char c :: nat)) = lower (char_of (of_char c :: nat)) \<and>
      hex_val (char_of (of_char c :: nat)) < 16"
    by (simp add: upt_rec_numeral del: char_of_char)
      (elim disjE; simp add: hex_val_def in_range_def lower_def hex_chars_def char_of_def bit_0)
  then show "hex_chars ! hex_val c = lower c" "hex_val c < 16" by simp_all
qed

lemma hexs_unhex: "even (length s) \<Longrightarrow> list_all is_hex s \<Longrightarrow> hexs (unhex s) = map lower s"
proof (induction s rule: unhex.induct)
  case (1 a b cs)
  then have v: "hex_val a < 16" "hex_val b < 16" by (simp_all add: hex_of_val)
  then have "hex_val a * 16 + hex_val b < 256" by linarith
  then have u: "unat (of_nat (hex_val a * 16 + hex_val b) :: u8) = hex_val a * 16 + hex_val b"
    by (simp only: unat_of_nat) simp
  have "hex2 (of_nat (hex_val a * 16 + hex_val b)) = [lower a, lower b]"
    unfolding hex2_def u using v 1(3) by (simp add: hex_of_val)
  with 1 show ?case by (simp del: of_nat_add of_nat_mult)
qed simp_all

lemma parse_hex_spec:
  assumes "i \<le> n" "length hex = n * 2" "length out = n"
  shows "\<exists>out'. parse_hex hex out n i = Some (if list_all is_hex (drop (i * 2) hex) then 0 else -1, out') \<and>
    (list_all is_hex (drop (i * 2) hex) \<longrightarrow> out' = take i out @ unhex (drop (i * 2) hex)) \<and> length out' = length out"
  using assms
proof (induction "n - i" arbitrary: i out)
  case 0
  then show ?case by (subst parse_hex.simps) simp
next
  case (Suc k)
  then have i: "i < n" by simp
  let ?a = "hex ! (i * 2)" and ?b = "hex ! (i * 2 + 1)"
  have d: "drop (i * 2) hex = ?a # ?b # drop (Suc i * 2) hex"
    using i Suc.prems(2) by (simp add: Cons_nth_drop_Suc)
  let ?out = "out[i := of_nat (hex_val ?a * 16 + hex_val ?b)]"
  have e: "parse_hex hex out n i = (if \<not> is_hex ?a \<or> \<not> is_hex ?b then Some (-1, out) else parse_hex hex ?out n (Suc i))"
    using i Suc.prems by (subst parse_hex.simps) (simp add: mem_simps)
  have IH: "\<exists>out'. parse_hex hex ?out n (Suc i) = Some (if list_all is_hex (drop (Suc i * 2) hex) then 0 else -1, out') \<and>
    (list_all is_hex (drop (Suc i * 2) hex) \<longrightarrow> out' = take (Suc i) ?out @ unhex (drop (Suc i * 2) hex)) \<and>
    length out' = length ?out"
    using Suc.hyps(2) Suc.prems i by (intro Suc.hyps(1)) simp_all
  have t: "take (Suc i) ?out = take i out @ [of_nat (hex_val ?a * 16 + hex_val ?b)]"
    using i Suc.prems(3) by (simp add: take_Suc_conv_app_nth)
  show ?case unfolding e d using IH t by auto
qed

lemma hex_to_bytes_hexs:
  assumes "length d = n" "length out = n"
  shows "hex_to_bytes (hexs d) out n = Some (0, d)"
  using parse_hex_spec [of 0 n "hexs d" out] assms hexs_is_hex [of d] by (simp add: hex_to_bytes_def)

text \<open>
  The hexadecimal codec round-trips: what \<open>bytes_to_hex\<close> writes into an array of the documented size
  is read back by \<open>hex_to_bytes\<close> as the same bytes.
\<close>

lemma hex_roundtrip:
  assumes "length d = n" "length out = n * 2 + 1" "length out2 = n"
  shows "\<exists>s. bytes_to_hex d n out = Some s \<and> hex_to_bytes (cstr s) out2 n = Some (0, d)"
  using bytes_to_hex_ok [of n d out] hex_to_bytes_hexs [of d n out2] assms by simp

lemma hex_to_bytes_spec:
  assumes "length out = n"
  shows "\<exists>rc out'. hex_to_bytes s out n = Some (rc, out') \<and> rc \<in> {0, -1} \<and>
    (rc = 0 \<longleftrightarrow> length s = n * 2 \<and> list_all is_hex s) \<and>
    (rc = 0 \<longrightarrow> length out' = n \<and> hexs out' = map lower s)"
proof (cases "length s = n * 2")
  case False
  then show ?thesis by (simp add: hex_to_bytes_def)
next
  case True
  then have "\<exists>out'. hex_to_bytes s out n = Some (if list_all is_hex s then 0 else -1, out') \<and>
      (list_all is_hex s \<longrightarrow> out' = unhex s) \<and> length out' = n"
    using parse_hex_spec [of 0 n s out] assms by (simp add: hex_to_bytes_def)
  then show ?thesis using True hexs_unhex [of s] by (cases "list_all is_hex s") fastforce+
qed

text \<open>
  C34. \<open>hex_to_bytes\<close> accepts exactly the strings of \<open>2 n\<close> hexadecimal digits of either case, and the bytes
  it returns are the ones whose encoding is that string in lower case; every other string is refused
  without a fault.
\<close>

theorem hex_to_bytes_exact:
  assumes "length out = n"
  shows "\<exists>rc out'. hex_to_bytes s out n = Some (rc, out') \<and> rc \<in> {0, -1} \<and>
    (rc = 0 \<longleftrightarrow> length s = n * 2 \<and> list_all is_hex s) \<and>
    (rc = 0 \<longrightarrow> length out' = n \<and> hexs out' = map lower s)"
  using hex_to_bytes_spec [OF assms] .

theorem hex_to_bytes_exact_witness:
  "\<exists>out'. hex_to_bytes ''aB01'' [0, 0] 2 = Some (0, out') \<and> hexs out' = ''ab01''"
proof -
  have "list_all is_hex ''aB01''" "map lower ''aB01'' = ''ab01''" by code_simp+
  with hex_to_bytes_exact [of "[0, 0]" 2 "''aB01''"] show ?thesis by auto
qed

section \<open>The delivery callback\<close>

lemma say_frame [simp]:
  "w_trace (say s w) = w_trace w" "w_live (say s w) = w_live w" "oracles (say s w) = oracles w"
  "ext (say s w) = c_console_update (\<lambda>out. out @ [Stdout s]) (ext w)"
  "w_trace (complain s w) = w_trace w" "w_live (complain s w) = w_live w" "oracles (complain s w) = oracles w"
  "ext (complain s w) = c_console_update (\<lambda>out. out @ [Stderr s]) (ext w)"
  by (simp_all add: say_def complain_def)

lemma chars_of_NUL: "cstr (chars_of (pt @ [0])) = cstr (chars_of pt)"
proof -
  have "char_of (0 :: nat) = NUL" by (simp add: NUL_def char_of_def)
  then show ?thesis by (simp add: cstr_def chars_of_def takeWhile_tail)
qed

text \<open>What the node prints for a message.\<close>

definition incoming_text :: "bytes \<Rightarrow> bytes \<Rightarrow> string" where
  "incoming_text sender pt = [NL] @ ''[PESAN MASUK dari '' @ hexs sender @ '']:'' @ [NL] @ ''  ''
     @ cstr (chars_of pt) @ [NL] @ ''> ''"

text \<open>The callback on a payload long enough to open: nothing without a key, else the notice or a warning.\<close>

lemma cli_callback_eq:
  fixes w :: "'b cli_world"
  assumes S: "sodium_ok S" and m: "storable m" and i: "identity_wf (c_identity (ext w))"
    and p: "msg_payload m = Some p" "40 \<le> length p"
  shows "cli_on_message_received S ud m w =
    (if sd_box_beforenm S (msg_sender_pubkey m) (id_secret_key (c_identity (ext w))) = None then Some w
     else let (ok, w1) = c_malloc (length p - 40 + 1) w in
       if \<not> ok then Some w1
       else case open_message S (id_secret_key (c_identity (ext w))) m of
         None \<Rightarrow> Some (c_free (complain (''[WARN] Decryption failed (rc='' @ decimal_int (err_code BC_ERR_CRYPTO) @ '')'' @ [NL]) w1))
       | Some pt \<Rightarrow> Some (c_free (say (incoming_text (msg_sender_pubkey m) pt) w1)))"
proof -
  let ?sk = "id_secret_key (c_identity (ext w))" and ?pk = "msg_sender_pubkey m" and ?n = "length p - 40"
  have l: "message_wf m" "length ?sk = 32" "length ?pk = 32" "msg_payload_len m = length p"
    using i m p by (simp_all add: identity_wf_def storable_def message_wf_def size_defs)
  note os = open_steps [OF S l(1,2) p]
  have hex: "bytes_to_hex ?pk 32 (replicate 65 NUL) = Some (hexs ?pk @ [NUL])"
    using bytes_to_hex_ok [of 32 ?pk "replicate 65 NUL"] l(3) by simp
  have z: "drop ?n (replicate (?n + 1) (0 :: u8)) = [0]" by (simp only: drop_replicate) simp
  have "\<not> length p < 40" using p(2) by simp
  note simps = cli_on_message_received_def crypto_sizes size_defs case_prod_beta Let_def diff_diff_left p(1) l(4) this os(1)
  show ?thesis
  proof (cases "sd_box_beforenm S ?pk ?sk")
    case None
    then show ?thesis by (simp add: simps)
  next
    case (Some k)
    have dec: "bc_crypto_decrypt S (Some (drop 24 p)) (length p - 24) (Some k) (Some p) (Some (replicate (?n + 1) 0)) =
        Some (case open_message S ?sk m of None \<Rightarrow> (BC_ERR_CRYPTO, Some (replicate (?n + 1) 0)) | Some pt \<Rightarrow> (BC_OK, Some (pt @ [0])))"
      using os(3) [OF Some, of "replicate (?n + 1) 0"] unfolding z by simp
    have "mem_set (pt @ [0]) ?n 0 = Some (pt @ [0])" if "open_message S ?sk m = Some pt" for pt
      using os(4) [OF that] by (simp add: mem_set_def list_update_append)
    with Some dec hex show ?thesis
      by (cases "open_message S ?sk m") (simp_all add: simps incoming_text_def chars_of_NUL cong: if_cong)
  qed
qed

lemma cli_callback_spec:
  fixes w :: "'b cli_world"
  assumes S: "sodium_ok S" and m: "storable m" and i: "identity_wf (c_identity (ext w))"
  shows "\<exists>w' out. cli_on_message_received S ud m w = Some w' \<and>
    ext w' = c_console_update (\<lambda>old. old @ out) (ext w) \<and> w_trace w' = w_trace w \<and> w_live w' = w_live w \<and>
    (heap_ok w \<longrightarrow> (\<forall>pt. open_message S (id_secret_key (c_identity (ext w))) m = Some pt \<longrightarrow>
       out = [Stdout (incoming_text (msg_sender_pubkey m) pt)]))"
proof (cases "\<exists>p. msg_payload m = Some p \<and> 40 \<le> length p")
  case False
  then have "cli_on_message_received S ud m w = Some w" "open_message S sk m = None" for sk
    using m by (auto simp: cli_on_message_received_def open_message_def storable_def message_wf_def crypto_sizes split: option.split)
  then show ?thesis by (auto intro!: exI [of _ "[]"])
next
  case True
  then obtain p where p: "msg_payload m = Some p" "40 \<le> length p" by blast
  let ?sk = "id_secret_key (c_identity (ext w))" and ?pk = "msg_sender_pubkey m"
  obtain ok w1 where m1: "c_malloc (length p - 40 + 1) w = (ok, w1)" by force
  have w1: "w_live w1 = w_live w + (if ok then 1 else 0)" "ext w1 = ext w" "w_trace w1 = w_trace w"
    using c_malloc_frame [of "length p - 40 + 1" w] unfolding m1 by simp_all
  have okh: "heap_ok w \<Longrightarrow> ok" using m1 by (auto simp: heap_ok_def c_malloc_def split: if_splits)
  note eq = cli_callback_eq [OF S m i p, of ud, unfolded m1]
  show ?thesis
  proof (cases "sd_box_beforenm S ?pk ?sk = None \<or> \<not> ok")
    case True
    let ?w = "if sd_box_beforenm S ?pk ?sk = None then w else w1"
    have "open_message S ?sk m = None" if "sd_box_beforenm S ?pk ?sk = None" using p that by (simp add: open_message_def)
    moreover have "cli_on_message_received S ud m w = Some ?w" using eq True by auto
    ultimately show ?thesis using w1 okh True by (intro exI [of _ ?w] exI [of _ "[]"]) auto
  next
    case False
    define t where "t = ''[WARN] Decryption failed (rc='' @ decimal_int (err_code BC_ERR_CRYPTO) @ '')'' @ [NL]"
    have eq': "cli_on_message_received S ud m w = (case open_message S ?sk m of None \<Rightarrow> Some (c_free (complain t w1))
        | Some pt \<Rightarrow> Some (c_free (say (incoming_text ?pk pt) w1)))"
      unfolding eq t_def using False by (auto split: option.split)
    show ?thesis
    proof (cases "open_message S ?sk m")
      case None
      with eq' w1 False show ?thesis by (intro exI [of _ "c_free (complain t w1)"] exI [of _ "[Stderr t]"]) simp
    next
      case (Some pt)
      with eq' w1 False show ?thesis
        by (intro exI [of _ "c_free (say (incoming_text ?pk pt) w1)"] exI [of _ "[Stdout (incoming_text ?pk pt)]"]) simp
    qed
  qed
qed

section \<open>Invariant and contracts\<close>

text \<open>
  The adapters' invariant with the node's identity \<open>i\<close> and the flag \<open>g_running\<close>, neither of which the
  router or its adapters change.
\<close>

definition cli_inv :: "sodium \<Rightarrow> bc_identity \<Rightarrow> bool \<Rightarrow> nat \<Rightarrow> 'b cli_state_scheme \<Rightarrow> bool" where
  "cli_inv S i b k x \<longleftrightarrow> udp_inv k x \<and> sodium_ok S \<and> identity_wf i \<and> c_identity x = i \<and> c_running x = b"

lemma udp_inv_cli [simp]:
  "udp_inv k (c_console_update f x) = udp_inv k x" "udp_inv k (c_running_update g x) = udp_inv k x"
  "udp_inv k (c_identity_update h x) = udp_inv k x" "udp_inv k (c_files_update j x) = udp_inv k x"
  "udp_inv k (c_ncall_update l x) = udp_inv k x"
  by (simp_all add: udp_inv_def udp_quota_def udp_live_def sql_inv_def)

lemma cli_inv_frame [simp]:
  "cli_inv S i b k (c_console_update f x) = cli_inv S i b k x"
  by (simp add: cli_inv_def)

interpretation cu: transport_port "cli_inv S i b k" "udp_transport (udp_ctx_of fd my_port ports)"
  for S i b k fd my_port ports
  by (rule udp_transport_port) (simp_all add: cli_inv_def udp_inv_def)

interpretation cd: draining_transport "cli_inv S i b" "udp_transport (udp_ctx_of fd my_port ports)"
  for S i b fd my_port ports
  using udp_draining [of "\<lambda>x. sql_inv x \<and> sodium_ok S \<and> identity_wf i \<and> c_identity x = i \<and> c_running x = b" "udp_ctx_of fd my_port ports"]
  by (simp add: cli_inv_def [abs_def] udp_inv_def)

interpretation cs: storage_port "cli_inv S i b k" sqlite_storage for S i b k
  using sqlite_storage_port [of "\<lambda>x. udp_quota k x \<and> sodium_ok S \<and> identity_wf i \<and> c_identity x = i \<and> c_running x = b"]
  by (simp add: cli_inv_def [abs_def] udp_inv_def conj_assoc conj_left_commute)

interpretation cc: callback_port "cli_inv S i b k" "cli_on_message_received S" for S i b k
proof
  fix m ud and w :: "'a cli_world"
  assume "storable m" "cli_inv S i b k (ext w)"
  then show "\<exists>w' es. cli_on_message_received S ud m w = Some w' \<and> w_trace w' = w_trace w @ es \<and>
      (\<forall>e\<in>set es. to_user e) \<and> cli_inv S i b k (ext w')"
    using cli_callback_spec [of S m w ud] by (fastforce simp: cli_inv_def)
qed

definition cli_ok :: "sodium \<Rightarrow> bc_identity \<Rightarrow> 'b cli_state_scheme cli \<Rightarrow> 'b cli_world \<Rightarrow> bool" where
  "cli_ok S i g w \<longleftrightarrow>
     (\<exists>fd p ports. cl_transport g = Some (udp_transport (udp_ctx_of (int fd) p ports))) \<and>
     cl_storage g = Some sqlite_storage \<and>
     (\<exists>r. cl_router g = Some r \<and> router_wf r \<and> r_transport r = cl_transport g \<and> r_storage r = cl_storage g \<and>
       r_on_message r = Some (cli_on_message_received S) \<and> r_local_pubkey r = id_pubkey i) \<and>
     (\<exists>k. cli_inv S i (c_running (ext w)) k (ext w))"

lemma cli_ports:
  assumes "cli_ok S i g w" "cl_router g = Some r"
  shows "router_ports (cli_inv S i b k) r" "draining_ports (cli_inv S i b) r"
proof -
  show p: "router_ports (cli_inv S i b k) r" for k
    using assms cs.storage_port_axioms cc.callback_port_axioms
    by (auto simp: cli_ok_def router_ports_def cu.transport_port_axioms)
  then show "draining_ports (cli_inv S i b) r"
    using assms by (auto simp: cli_ok_def draining_ports_def cd.draining_transport_axioms)
qed

lemma cli_ok_ext:
  "cli_ok S i g w \<Longrightarrow> (\<And>k. udp_inv k (ext w) \<Longrightarrow> udp_inv k (ext w')) \<Longrightarrow>
   c_identity (ext w') = c_identity (ext w) \<Longrightarrow> cli_ok S i g w'"
  by (auto simp: cli_ok_def cli_inv_def)

lemma cli_ok_say [simp]: "cli_ok S i g (say s w) = cli_ok S i g w"
  by (simp add: cli_ok_def)

lemma cli_okE:
  assumes "cli_ok S i g w"
  obtains r k where "cl_router g = Some r" "router_wf r" "cli_inv S i (c_running (ext w)) k (ext w)" "c_identity (ext w) = i"
    "sodium_ok S" "length (id_pubkey i) = 32" "length (id_secret_key i) = 32" "has_store r"
    "r_local_pubkey r = id_pubkey i"
  using assms by (auto simp: cli_ok_def cli_inv_def identity_wf_def size_defs has_store_def sqlite_storage_def)

section \<open>Commands\<close>

lemma cli_broadcast:
  fixes w w1 :: "'b cli_world"
  assumes ok: "cli_ok S i g w" and ext: "ext w1 = ext w" and m: "storable m"
  obtains rc r r' w' where "cl_router g = Some r" "bc_router_broadcast (cl_router g) (Some m) w1 = Some (rc, Some r', w')"
    "cli_ok S i (g\<lparr>cl_router := Some r'\<rparr>) w'" "w_live w' = w_live w1"
    "heap_ok w1 \<longrightarrow> rc = BC_OK \<and> (\<exists>rcs rc2. gossiped r (wire m) rcs \<and>
       w_trace w' = w_trace w1 @ sends (wire m) (known_peers r) rcs @ [Stored m rc2])"
    "c_running (ext w') = c_running (ext w)" "seen r' (msg_uuid m)"
proof -
  obtain r k where r: "cl_router g = Some r" "router_wf r" "cli_inv S i (c_running (ext w)) k (ext w)" "has_store r"
    using cli_okE [OF ok] .
  have J: "cli_inv S i (c_running (ext w)) k (ext w1)" using r(3) ext by simp
  obtain rc r' w' fw st where b: "bc_router_broadcast (Some r) (Some m) w1 = Some (rc, Some r', w')"
      "router_wf r'" "same_but_seen r r'" "cli_inv S i (c_running (ext w)) k (ext w')" "w_live w' = w_live w1"
      "w_trace w' = w_trace w1 @ fw @ st"
      "if w_heap w1 (w_nalloc w1) (93 + msg_payload_len m)
       then rc = BC_OK \<and> (\<exists>rcs. gossiped r (wire m) rcs \<and> fw = sends (wire m) (known_peers r) rcs) \<and>
          (if has_store r then \<exists>rc. st = [Stored m rc] else st = [])
       else rc = BC_ERR_NOMEM \<and> fw = [] \<and> st = []" "seen r' (msg_uuid m)"
    using broadcast_ok [OF cli_ports(1) [OF ok r(1)] r(2) J m] by blast
  note fr = same_but_seen_frame [OF b(3)]
  have run: "c_running (ext w') = c_running (ext w)" using b(4) by (simp add: cli_inv_def)
  have "cli_ok S i (g\<lparr>cl_router := Some r'\<rparr>) w'" using ok r(1) b(2,4) fr run by (auto simp: cli_ok_def)
  moreover have "heap_ok w1 \<longrightarrow> rc = BC_OK \<and> (\<exists>rcs rc2. gossiped r (wire m) rcs \<and>
       w_trace w' = w_trace w1 @ sends (wire m) (known_peers r) rcs @ [Stored m rc2])"
    using b(6,7) r(4) by (auto simp: heap_ok_def; blast)
  ultimately show ?thesis using that [of r rc r' w'] r(1) b(1,5,8) run by simp
qed

lemma bytes_of_length [simp]: "length (bytes_of s) = length s"
  by (simp add: bytes_of_def)

text \<open>Sending a text is sealing it and gossiping the message, with one line on the console for each outcome.\<close>

lemma send_text_eq:
  fixes w :: "'b cli_world"
  assumes ok: "cli_ok S i g w" and rcpt: "length rcpt = 32" and n: "length text < 2 ^ 30"
  shows "send_text S rcpt text g w =
    (case seal S i rcpt (bytes_of text) w of
       (No_Key, w) \<Rightarrow> Some (g, say (''Error: failed to derive shared key (rc='' @ decimal_int (err_code BC_ERR_CRYPTO) @ '')'' @ [NL]) w)
     | (No_Buffer, w) \<Rightarrow> Some (g, say (''Error: out of memory'' @ [NL]) w)
     | (No_Cipher, w) \<Rightarrow> Some (g, say (''Error: encryption failed (rc='' @ decimal_int (err_code BC_ERR_CRYPTO) @ '')'' @ [NL]) w)
     | (No_Message, w) \<Rightarrow> Some (g, say (''Error: failed to create message'' @ [NL]) w)
     | (Sealed m, w) \<Rightarrow> do {
         (rc, r, w) \<leftarrow> bc_router_broadcast (cl_router g) (Some m) w;
         let w = bc_message_destroy (Some m) w;
         Some (g\<lparr>cl_router := r\<rparr>, say (if rc = BC_OK then ''Message sent.'' @ [NL]
           else ''Error: broadcast failed (rc='' @ decimal_int (err_code rc) @ '')'' @ [NL]) w) })"
proof -
  have i: "c_identity (ext w) = i" "sodium_ok S" "identity_wf (c_identity (ext w))" using ok by (auto simp: cli_ok_def cli_inv_def)
  have n': "length (bytes_of text) < 2 ^ 30" using n by simp
  have "send_text S rcpt text g w = (case seal S (c_identity (ext w)) rcpt (bytes_of text) w of
       (No_Key, w) \<Rightarrow> Some (g, say (''Error: failed to derive shared key (rc='' @ decimal_int (err_code BC_ERR_CRYPTO) @ '')'' @ [NL]) w)
     | (No_Buffer, w) \<Rightarrow> Some (g, say (''Error: out of memory'' @ [NL]) w)
     | (No_Cipher, w) \<Rightarrow> Some (g, say (''Error: encryption failed (rc='' @ decimal_int (err_code BC_ERR_CRYPTO) @ '')'' @ [NL]) w)
     | (No_Message, w) \<Rightarrow> Some (g, say (''Error: failed to create message'' @ [NL]) w)
     | (Sealed m, w) \<Rightarrow> do {
         (rc, r, w) \<leftarrow> bc_router_broadcast (cl_router g) (Some m) w;
         let w = bc_message_destroy (Some m) w;
         Some (g\<lparr>cl_router := r\<rparr>, say (if rc = BC_OK then ''Message sent.'' @ [NL]
           else ''Error: broadcast failed (rc='' @ decimal_int (err_code rc) @ '')'' @ [NL]) w) })"
    using seal_steps [of S c_identity w rcpt "bytes_of text",
        where no_key = "\<lambda>rc w. Some (g, say (''Error: failed to derive shared key (rc='' @ decimal_int (err_code rc) @ '')'' @ [NL]) w)"
        and no_buffer = "\<lambda>w. Some (g, say (''Error: out of memory'' @ [NL]) w)"
        and no_cipher = "\<lambda>rc w. Some (g, say (''Error: encryption failed (rc='' @ decimal_int (err_code rc) @ '')'' @ [NL]) w)"
        and no_message = "\<lambda>w. Some (g, say (''Error: failed to create message'' @ [NL]) w)"
        and send = "\<lambda>m w. do { (rc, r, w) \<leftarrow> bc_router_broadcast (cl_router g) m w; let w = bc_message_destroy m w;
           Some (g\<lparr>cl_router := r\<rparr>, say (if rc = BC_OK then ''Message sent.'' @ [NL]
             else ''Error: broadcast failed (rc='' @ decimal_int (err_code rc) @ '')'' @ [NL]) w) }", OF i(2,3) rcpt n']
    unfolding send_text_def bytes_of_length Let_def .
  then show ?thesis unfolding i(1) .
qed

text \<open>
  Whatever fails on the way, sending returns, keeps the node in order and balances the heap; with
  memory, a key and a cipher one sealed message is gossiped and stored.
\<close>

lemma send_text_spec:
  fixes w :: "'b cli_world"
  assumes ok: "cli_ok S i g w" and r: "cl_router g = Some r" and rcpt: "length rcpt = 32" and n: "length text < 2 ^ 30"
  shows "\<exists>g' w' out. send_text S rcpt text g w = Some (g', say out w') \<and> cli_ok S i g' w' \<and> w_live w' = w_live w \<and>
    c_running (ext w') = c_running (ext w) \<and>
    (heap_ok w \<and> can_seal S i rcpt (bytes_of text) \<longrightarrow> out = ''Message sent.'' @ [NL] \<and>
      (\<exists>m rcs rc r'. sealed_for S i rcpt (bytes_of text) m \<and> gossiped r (wire m) rcs \<and>
        w_trace w' = w_trace w @ sends (wire m) (known_peers r) rcs @ [Stored m rc] \<and>
        cl_router g' = Some r' \<and> seen r' (msg_uuid m)))"
proof -
  have S: "sodium_ok S" "identity_wf i" using ok by (auto simp: cli_ok_def cli_inv_def)
  have "length (bytes_of text) < 2 ^ 30" using n by simp
  from seal_spec [OF S rcpt this, of w] obtain res w1 where sl: "seal S i rcpt (bytes_of text) w = (res, w1)" "ext w1 = ext w"
      "w_trace w1 = w_trace w" "oracles w1 = oracles w"
      "w_live w1 = w_live w + (case res of Sealed m \<Rightarrow> msg_blocks m | _ \<Rightarrow> 0)"
      "\<forall>m. res = Sealed m \<longrightarrow> sealed_for S i rcpt (bytes_of text) m"
      "(\<forall>k s. w_heap w k s) \<and> can_seal S i rcpt (bytes_of text) \<longrightarrow> (\<exists>m. res = Sealed m)"
    by blast
  note eq = send_text_eq [OF ok rcpt n, unfolded sl(1)]
  have okw: "cli_ok S i g w1" by (rule cli_ok_ext [OF ok]) (simp_all add: sl(2))
  show ?thesis
  proof (cases "\<exists>m. res = Sealed m")
    case False
    with sl(7) have no: "\<not> (heap_ok w \<and> can_seal S i rcpt (bytes_of text))" by (auto simp: heap_ok_def)
    from False eq have "\<exists>out. send_text S rcpt text g w = Some (g, say out w1)" by (cases res) auto
    moreover have "w_live w1 = w_live w" using sl(5) False by (cases res) auto
    ultimately show ?thesis using no okw sl(2) by (metis (no_types))
  next
    case True
    then obtain m where m: "res = Sealed m" by blast
    have sm: "sealed_for S i rcpt (bytes_of text) m" "storable m" using sl(6) m by (simp_all add: sealed_for_def)
    obtain rc r' w2 where b: "bc_router_broadcast (cl_router g) (Some m) w1 = Some (rc, Some r', w2)"
        "cli_ok S i (g\<lparr>cl_router := Some r'\<rparr>) w2" "w_live w2 = w_live w1"
        "heap_ok w1 \<longrightarrow> rc = BC_OK \<and> (\<exists>rcs rc2. gossiped r (wire m) rcs \<and>
           w_trace w2 = w_trace w1 @ sends (wire m) (known_peers r) rcs @ [Stored m rc2])"
        "c_running (ext w2) = c_running (ext w)" "seen r' (msg_uuid m)"
      by (rule cli_broadcast [OF ok sl(2) sm(2)]) (use r in auto)
    let ?w = "bc_message_destroy (Some m) w2"
    have "cli_ok S i (g\<lparr>cl_router := Some r'\<rparr>) ?w" using b(2) by (auto intro: cli_ok_ext)
    moreover have "heap_ok w1 = heap_ok w" using oracles_heap [OF sl(4)] by (simp add: heap_ok_def)
    ultimately show ?thesis
      using eq m b sl(3,5) sm(1) unfolding Let_def
      by (intro exI [of _ "g\<lparr>cl_router := Some r'\<rparr>"] exI [of _ ?w]) auto
  qed
qed

lemma send_text_total:
  fixes w :: "'b cli_world"
  assumes ok: "cli_ok S i g w" and rcpt: "length rcpt = 32" and n: "length text < 2 ^ 30"
  shows "\<exists>g' w'. send_text S rcpt text g w = Some (g', w') \<and> cli_ok S i g' w' \<and> w_live w' = w_live w \<and>
    c_running (ext w') = c_running (ext w)"
proof -
  obtain r where "cl_router g = Some r" using cli_okE [OF ok] by blast
  from send_text_spec [OF ok this rcpt n] show ?thesis by (fastforce simp: cli_ok_say)
qed

lemma cmd_msg_total:
  fixes w :: "'b cli_world"
  assumes ok: "cli_ok S i g w" and n: "length args < 2 ^ 30"
  shows "\<exists>g' w'. cmd_msg S args g w = Some (g', w') \<and> cli_ok S i g' w' \<and> w_live w' = w_live w \<and>
    c_running (ext w') = c_running (ext w)"
proof (cases "length args < 66")
  case True
  with ok show ?thesis by (simp add: cmd_msg_def size_defs)
next
  case False
  let ?text = "dropWhile (\<lambda>c. c = CHR '' '') (drop 64 args)"
  obtain rc rcpt where h: "hex_to_bytes (take 64 args) (replicate 32 0) 32 = Some (rc, rcpt)"
      "rc = 0 \<longrightarrow> length rcpt = 32"
    using hex_to_bytes_spec [of "replicate 32 0" 32 "take 64 args"] by auto
  have c: "cmd_msg S args g w = (if rc \<noteq> 0 then Some (g, say (''Error: invalid hex public key'' @ [NL]) w)
      else if ?text = [] then Some (g, say (''Error: message text is empty'' @ [NL]) w)
      else send_text S rcpt ?text g w)"
    using False h(1) by (simp add: cmd_msg_def size_defs mem_simps Let_def)
  have l: "length ?text < 2 ^ 30" using n length_dropWhile_le [of "\<lambda>c. c = CHR '' ''" "drop 64 args"] by simp
  show ?thesis
  proof (cases "rc \<noteq> 0 \<or> ?text = []")
    case True
    with c ok show ?thesis by auto
  next
    case False
    then have "length rcpt = 32" "0 < length ?text" using h(2) by (simp, blast)
    moreover have "cmd_msg S args g w = send_text S rcpt ?text g w" using False c by metis
    ultimately show ?thesis using send_text_total [OF ok _ l] by metis
  qed
qed

lemma cmd_info_ok:
  assumes "identity_wf (c_identity (ext w))"
  shows "cmd_info w = Some (say (''Public Key: '' @ hexs (id_pubkey (c_identity (ext w))) @ [NL]) w)"
  using assms bytes_to_hex_ok [of 32 "id_pubkey (c_identity (ext w))" "replicate 65 NUL"]
  by (simp add: cmd_info_def identity_wf_def size_defs)

text \<open>What \<open>/peers\<close> prints: one line for each known peer, with its number and its key.\<close>

definition peer_line :: "nat \<Rightarrow> bc_peer \<Rightarrow> console_output" where
  "peer_line j p = Stdout (''  ['' @ decimal j @ ''] '' @ hexs (peer_pubkey p) @ [NL])"

lemma print_peers_spec:
  fixes w :: "'b cli_world"
  assumes "router_wf r" "j \<le> r_peer_count r"
  shows "\<exists>w'. print_peers r j w = Some w' \<and> w_live w' = w_live w \<and> w_trace w' = w_trace w \<and>
    ext w' = c_console_update (\<lambda>out. out @ map (\<lambda>n. peer_line n (known_peers r ! n)) [j..<r_peer_count r]) (ext w)"
  using assms(2)
proof (induction "r_peer_count r - j" arbitrary: j w)
  case 0
  then show ?case by (subst print_peers.simps) simp
next
  case (Suc n)
  then have j: "j < r_peer_count r" "j < length (r_peers r)" using assms(1) unfolding router_wf_def by linarith+
  have k: "known_peers r ! j = r_peers r ! j" using j by (simp add: known_peers_def)
  have "known_peers r ! j \<in> set (known_peers r)" using j by (intro nth_mem) (simp add: known_peers_def)
  then have "length (peer_pubkey (r_peers r ! j)) = 32"
    using assms(1) k by (auto simp: router_wf_def peer_wf_def size_defs)
  then have "bytes_to_hex (peer_pubkey (r_peers r ! j)) 32 (replicate 65 NUL) = Some (hexs (peer_pubkey (r_peers r ! j)) @ [NUL])"
    using bytes_to_hex_ok [of 32 "peer_pubkey (r_peers r ! j)" "replicate 65 NUL"] by simp
  then have "print_peers r j w = print_peers r (Suc j)
      (say (''  ['' @ decimal j @ ''] '' @ hexs (peer_pubkey (r_peers r ! j)) @ [NL]) w)"
    using j by (subst print_peers.simps) (simp add: mem_simps size_defs)
  moreover have "[j..<r_peer_count r] = j # [Suc j..<r_peer_count r]" using j by (simp add: upt_conv_Cons)
  ultimately show ?case
    using Suc.hyps(1) [of "Suc j" "say (''  ['' @ decimal j @ ''] '' @ hexs (peer_pubkey (r_peers r ! j)) @ [NL]) w"]
      Suc.hyps(2) j k by (simp add: peer_line_def o_def)
qed

lemma cmd_peers_ok:
  fixes w :: "'b cli_world"
  assumes "cl_router g = Some r" "router_wf r"
  shows "\<exists>w'. cmd_peers g w = Some w' \<and> w_live w' = w_live w \<and> w_trace w' = w_trace w \<and>
    ext w' = c_console_update (\<lambda>out. out @ (if known_peers r = [] then [Stdout (''(no peers)'' @ [NL])]
      else map (\<lambda>n. peer_line n (known_peers r ! n)) [0..<length (known_peers r)])) (ext w)"
proof -
  have l: "length (known_peers r) = r_peer_count r" using assms(2) by (simp add: router_wf_def known_peers_def)
  then show ?thesis
    using assms print_peers_spec [OF assms(2), of 0 w] by (cases "r_peer_count r = 0") (auto simp: cmd_peers_def)
qed

text \<open>Every input line is handled: no fault, the node stays in order, the heap is balanced.\<close>

lemma handle_line_total:
  fixes w :: "'b cli_world"
  assumes ok: "cli_ok S i g w" and n: "length buf < 2 ^ 30"
  shows "\<exists>g' w'. handle_line S buf g w = Some (g', w') \<and> cli_ok S i g' w' \<and> w_live w' = w_live w \<and>
    (c_running (ext w') \<longrightarrow> c_running (ext w))"
proof -
  let ?l = "strip_newline (cstr buf)"
  have len: "length (drop 5 ?l) < 2 ^ 30"
    using n length_takeWhile_le [of "\<lambda>c. c \<noteq> NUL" buf] by (simp add: strip_newline_def cstr_def) linarith
  obtain r k where r: "cl_router g = Some r" "router_wf r" "cli_inv S i (c_running (ext w)) k (ext w)" using cli_okE [OF ok] .
  have iw: "identity_wf (c_identity (ext w))" using r(3) by (simp add: cli_inv_def)
  have ok': "cli_ok S i g w'" if "\<And>k. udp_inv k (ext w) \<Longrightarrow> udp_inv k (ext w')" "c_identity (ext w') = c_identity (ext w)" for w'
    by (rule cli_ok_ext [OF ok that])
  consider "?l = []" | "?l = ''/info''" | "?l = ''/peers''" | "take 5 ?l = ''/msg ''" | "?l = ''/quit''"
    | "?l \<noteq> []" "?l \<noteq> ''/info''" "?l \<noteq> ''/peers''" "take 5 ?l \<noteq> ''/msg ''" "?l \<noteq> ''/quit''" by blast
  then show ?thesis
  proof cases
    case 3
    obtain w' where "cmd_peers g w = Some w'" "w_live w' = w_live w" "\<exists>f. ext w' = c_console_update f (ext w)"
      using cmd_peers_ok [OF r(1,2), of w] by blast
    with 3 ok' [of w'] show ?thesis by (auto simp: handle_line_def)
  next
    case 4
    then have "?l \<noteq> []" "?l \<noteq> ''/info''" "?l \<noteq> ''/peers''" by auto
    with 4 cmd_msg_total [OF ok len] show ?thesis by (auto simp: handle_line_def Let_def)
  qed (use ok ok' iw in \<open>auto simp: handle_line_def Let_def cmd_info_ok\<close>)
qed

end
