(* ===== verification/Cli_Run.thy ===== *)
theory Cli_Run
  imports Cli_Correct Router_Props
begin

text \<open>
  The simulator from start to exit: what \<open>main\<close> sets up and gives back, the program as a state machine
  of the main thread, the tick thread and signals, and a message from one running node to another.
\<close>

section \<open>Shutdown\<close>

text \<open>The heap blocks a running node holds through its handles.\<close>

definition cli_blocks :: "u16 list \<Rightarrow> int" where
  "cli_blocks ports = 6 + (if ports = [] then 0 else 1)"

lemma cli_world_eqI: "set_identity i w = on_ext (c_identity_update (\<lambda>_. i)) w"
  by (simp add: set_identity_def)

lemma set_identity_frame [simp]:
  "w_trace (set_identity i w) = w_trace w" "w_live (set_identity i w) = w_live w" "oracles (set_identity i w) = oracles w"
  "ext (set_identity i w) = c_identity_update (\<lambda>_. i) (ext w)"
  by (simp_all add: set_identity_def)

lemma udp_destroy_frame:
  "w_live (udp_destroy (udp_ctx_of (int fd) p ports) w) = w_live w - (if ports = [] then 1 else 2)"
  "ext (udp_destroy (udp_ctx_of (int fd) p ports) w) = u_sockets_update (\<lambda>n. n - 1) (ext w)"
  "w_trace (udp_destroy (udp_ctx_of (int fd) p ports) w) = w_trace w"
  by (simp_all add: udp_destroy_def udp_ctx_of_def c_close_def Let_def)

lemma release_ok:
  "release_adapters (udp_transport (udp_ctx_of (int fd) p ports)) sqlite_storage w
    = Some (sqlite_destroy (c_free (udp_destroy (udp_ctx_of (int fd) p ports) w)))"
  by (simp add: release_adapters_def udp_transport_def sqlite_storage_def)

lemma main_shutdown_ok:
  fixes w :: "'b cli_world"
  assumes "cl_router g = Some r" "cl_storage g = Some sqlite_storage"
    "cl_transport g = Some (udp_transport (udp_ctx_of (int fd) p ports))"
  shows "\<exists>w'. main_shutdown g w = Some w' \<and> w_live w' = w_live w - cli_blocks ports \<and>
    u_sockets (ext w') = u_sockets (ext w) - 1 \<and> q_handles (ext w') = q_handles (ext w) - 6 \<and>
    q_rows (ext w') = q_rows (ext w) \<and> c_running (ext w') = c_running (ext w) \<and>
    c_files (ext w') = c_files (ext w) \<and> w_trace w' = w_trace w \<and>
    id_secret_key (c_identity (ext w')) = replicate 32 0"
  using assms
  by (simp add: main_shutdown_def release_ok bc_identity_wipe_def udp_destroy_frame sqlite_destroy_def
      bc_router_destroy_def cli_blocks_def size_defs)

section \<open>Start-up\<close>

text \<open>What the steps before the adapters leave alone.\<close>

definition start_frame :: "'b cli_world \<Rightarrow> 'b cli_world \<Rightarrow> bool" where
  "start_frame w w' \<longleftrightarrow> q_rows (ext w') = q_rows (ext w) \<and> q_handles (ext w') = q_handles (ext w) \<and>
     u_sockets (ext w') = u_sockets (ext w) \<and> c_running (ext w') = c_running (ext w) \<and>
     (\<forall>k. udp_inv k (ext w') = udp_inv k (ext w)) \<and> w_trace w' = w_trace w"

lemma start_frame_simps [simp]:
  "start_frame w w" "start_frame w (complain s w') = start_frame w w'" "start_frame w (say s w') = start_frame w w'"
  "start_frame w (c_free w') = start_frame w w'" "start_frame w (snd (c_malloc n w')) = start_frame w w'"
  "start_frame w (set_identity i w') = start_frame w w'" "start_frame w (snd (c_call w')) = start_frame w w'"
  "start_frame w (on_ext (c_files_update f) w') = start_frame w w'"
  "start_frame w (on_ext (c_ncall_update h) w') = start_frame w w'"
  by (simp_all add: start_frame_def c_call_def)

lemma free_ports_frame [simp]:
  "start_frame w (free_ports po w') = start_frame w w'" "ext (free_ports po w) = ext w"
  "w_live (free_ports po w) = w_live w - (if po = None then 0 else 1)" "w_trace (free_ports po w) = w_trace w"
  by (simp_all add: free_ports_def)

lemma parse_ports_length: "parse_ports ss = Some ps \<Longrightarrow> length ps = length ss"
  by (induction ss arbitrary: ps) (auto simp: bind_Some_iff)

lemma main_args_ok:
  fixes w :: "'b cli_world"
  assumes "argv \<noteq> []" "\<forall>a\<in>set argv. parse_port a \<noteq> None"
  shows "\<exists>res w'. main_args argv w = Some (res, w') \<and> start_frame w w' \<and> c_identity (ext w') = c_identity (ext w) \<and>
    (case res of None \<Rightarrow> w_live w' = w_live w
     | Some (p, po) \<Rightarrow> w_live w' = w_live w + (if po = None then 0 else 1) \<and> p \<noteq> 0 \<and>
         parse_port (argv ! 1) = Some p \<and> parse_ports (drop 2 argv) = Some (case po of None \<Rightarrow> [] | Some ps \<Rightarrow> ps))"
proof (cases "length argv < 2")
  case True
  with assms(1) show ?thesis by (simp add: main_args_def mem_get_def)
next
  case False
  have pp: "\<exists>ps. parse_ports ss = Some ps" if "set ss \<subseteq> set argv" for ss
    using that by (induction ss) (use assms(2) in auto)
  obtain ps where ps: "parse_ports (drop 2 argv) = Some ps" using pp [OF set_drop_subset] by blast
  have "argv ! 1 \<in> set argv" using False by simp
  then obtain p where p: "parse_port (argv ! 1) = Some p" using assms(2) by blast
  obtain ok w1 where m: "c_malloc ((length argv - 2) * 2) w = (ok, w1)" by force
  have w1: "w_live w1 = w_live w + (if ok then 1 else 0)" "start_frame w w1" "ext w1 = ext w"
    using c_malloc_frame [of "(length argv - 2) * 2" w] start_frame_simps(5) [of w "(length argv - 2) * 2" w] m by simp_all
  have a: "main_args argv w =
      (if p = 0 then Some (None, complain (''Error: invalid port '' @ [CHR 0x27] @ argv ! 1 @ [CHR 0x27, NL]) w)
       else if length argv = 2 then Some (Some (p, None), w)
       else if \<not> ok then Some (None, complain (''Error: out of memory'' @ [NL]) w1)
       else Some (Some (p, Some ps), w1))"
    using False p ps m by (auto simp: main_args_def mem_get_def)
  consider "p = 0" | "p \<noteq> 0" "length argv = 2" | "p \<noteq> 0" "length argv \<noteq> 2" "\<not> ok" | "p \<noteq> 0" "length argv \<noteq> 2" "ok"
    by blast
  then show ?thesis
  proof cases
    case 2
    then have "ps = []" using ps by simp
    with a 2 p ps show ?thesis by simp
  qed (use a w1 p ps in simp_all)
qed

lemma load_identity_ok:
  fixes w :: "'b cli_world"
  assumes S: "sodium_ok S" and i: "identity_wf (c_identity (ext w))" and r: "load_identity S path content w = (ok, w')"
  shows "start_frame w w' \<and> w_live w' = w_live w \<and> identity_wf (c_identity (ext w')) \<and>
    (ok \<longrightarrow> 32 \<le> length content \<and> id_secret_key (c_identity (ext w')) = take 32 content)"
proof (cases "32 \<le> length content")
  case False
  with r i show ?thesis by (auto simp: load_identity_def Let_def identity_wf_def size_defs)
next
  case True
  show ?thesis
  proof (cases "sd_scalarmult_base S (take 32 content)")
    case None
    with True r i show ?thesis by (auto simp: load_identity_def Let_def identity_wf_def size_defs min_def)
  next
    case (Some pk)
    have "length pk = 32" by (rule sodium_base(1) [OF S _ Some]) (simp add: True)
    with Some True r i show ?thesis by (auto simp: load_identity_def Let_def identity_wf_def size_defs min_def)
  qed
qed

lemma main_identity_ok:
  fixes w :: "'b cli_world"
  assumes S: "sodium_ok S" and i: "identity_wf (c_identity (ext w))" and r: "main_identity S p w = (ok, w')"
  shows "start_frame w w' \<and> w_live w' = w_live w \<and> identity_wf (c_identity (ext w'))"
proof -
  let ?w = "snd (c_call w)"
  have e: "ext ?w = c_ncall_update Suc (ext w)" "w_live ?w = w_live w" "w_trace ?w = w_trace w"
    by (simp_all add: c_call_def)
  show ?thesis
  proof (cases "\<exists>content. fst (c_call w) \<and> c_files (ext w) (key_path p) = Some content")
    case True
    then obtain content where c: "fst (c_call w)" "c_files (ext w) (key_path p) = Some content" by blast
    then have "load_identity S (key_path p) content ?w = (ok, w')"
      using r e by (simp add: main_identity_def case_prod_beta Let_def)
    from load_identity_ok [OF S _ this] i e show ?thesis
      by (auto simp: start_frame_def)
  next
    case False
    then have "(if fst (c_call w) then c_files (ext ?w) (key_path p) else None) = None" using e by auto
    then have c: "(ok, w') = create_identity S (key_path p) ?w"
      using r by (simp add: main_identity_def case_prod_beta Let_def)
    obtain rc io w1 where g: "bc_identity_generate S (Some (c_identity (ext w))) ?w = (rc, io, w1)" by (metis prod_cases3)
    then have w1: "w_live w1 = w_live w" "ext w1 = ext ?w" "w_trace w1 = w_trace ?w" "io \<noteq> None"
      "\<forall>j. io = Some j \<longrightarrow> identity_wf j"
      using i e sodium_keypair [OF S]
      by (auto simp: bc_identity_generate_def case_prod_beta identity_wf_def size_defs split: option.splits)
    then have "start_frame w w1" using start_frame_simps(7) [of w w] by (simp add: start_frame_def)
    with c g w1 e show ?thesis
      by (auto simp: create_identity_def Let_def case_prod_beta c_call_def split: if_splits)
  qed
qed

text \<open>The state of the program that opening the adapters does not touch.\<close>

definition program_part :: "'b cli_state_scheme \<Rightarrow> pending_row list \<times> bool \<times> bc_identity \<times> (string \<rightharpoonup> bytes) \<times> (nat \<Rightarrow> bool)" where
  "program_part x = (q_rows x, c_running x, c_identity x, c_files x, \<lambda>k. udp_inv k x)"

lemma program_part_frame [simp]:
  "program_part (q_ncall_update f x) = program_part x" "program_part (q_handles_update f2 x) = program_part x"
  "program_part (u_ncall_update f x) = program_part x" "program_part (u_sockets_update f2 x) = program_part x"
  "program_part (c_console_update h x) = program_part x"
  by (simp_all add: program_part_def udp_inv_def udp_quota_def udp_live_def sql_inv_def)

lemma main_adapters_ok:
  fixes w :: "'b cli_world"
  defines "ports \<equiv> (\<lambda>po. case po of None \<Rightarrow> [] | Some ps \<Rightarrow> ps)"
  shows "\<exists>res w'. main_adapters fd p po w = Some (res, w') \<and> program_part (ext w') = program_part (ext w) \<and>
    w_trace w' = w_trace w \<and>
    (case res of
       None \<Rightarrow> w_live w' = w_live w - (if po = None then 0 else 1) \<and> u_sockets (ext w') = u_sockets (ext w)
     | Some (s, t) \<Rightarrow> s = sqlite_storage \<and> t = udp_transport (udp_ctx_of (int fd) p (ports po)) \<and>
         w_live w' = w_live w - (if po = None then 0 else 1) + cli_blocks (ports po) - 2 \<and>
         u_sockets (ext w') = u_sockets (ext w) + 1 \<and> q_handles (ext w') = q_handles (ext w) + 6)"
proof -
  let ?n = "case po of None \<Rightarrow> 0 | Some ps \<Rightarrow> length ps"
  have pt: "(case po of None \<Rightarrow> [] | Some ps \<Rightarrow> take ?n ps) = ports po" by (simp add: ports_def split: option.split)
  obtain so w1 where c: "bc_storage_sqlite_create (Some (db_path p)) w = (so, w1)" by force
  note cs = sqlite_create_spec [OF c]
  have f1: "program_part (ext w1) = program_part (ext w)" "u_sockets (ext w1) = u_sockets (ext w)"
    using sqlite_create_frame [of program_part "Some (db_path p)" w] sqlite_create_frame [of u_sockets "Some (db_path p)" w] c
    by simp_all
  show ?thesis
  proof (cases so)
    case None
    with c cs f1 show ?thesis by (simp add: main_adapters_def)
  next
    case (Some s)
    have s: "s = sqlite_storage" "w_live w1 = w_live w + 2" "q_handles (ext w1) = q_handles (ext w) + 6" "w_trace w1 = w_trace w"
      using cs Some by (auto simp: sqlite_destroy_def)
    obtain res w2 where u: "bc_transport_udp_create fd p po ?n w1 = Some (res, w2)"
      using udp_create_total [of po ?n fd p w1] by (auto split: option.splits)
    have f2: "program_part (ext w2) = program_part (ext w)" "w_trace w2 = w_trace w" "q_handles (ext w2) = q_handles (ext w1)"
      using udp_create_frame [OF u, of program_part] udp_create_frame [OF u, of q_handles] f1 s(4) by simp_all
    have m: "main_adapters fd p po w = (case res of
        None \<Rightarrow> Some (None, sqlite_destroy (complain (''Error: failed to bind UDP port '' @ decimal (unat p) @ [NL]) (free_ports po w2)))
      | Some (_, t) \<Rightarrow> Some (Some (s, t), free_ports po w2))"
    proof -
      have "st_destroy (sqlite_storage :: 'b cli_state_scheme bc_storage) = Some sqlite_destroy" by (simp add: sqlite_storage_def)
      then show ?thesis using c Some u by (cases res) (auto simp: main_adapters_def s(1))
    qed
    note us = udp_create_spec [OF u, unfolded pt]
    show ?thesis
    proof (cases res)
      case None
      with m us f1 f2 s show ?thesis by (simp add: sqlite_destroy_def)
    next
      case r: (Some ct)
      obtain ctx t where ct: "ct = (ctx, t)" by force
      have t: "t = udp_transport (udp_ctx_of (int fd) p (ports po))"
          "w_live w2 = w_live w1 + (if ports po = [] then 2 else 3)" "u_sockets (ext w2) = u_sockets (ext w1) + 1"
        using us r ct by (auto simp: udp_destroy_frame)
      show ?thesis unfolding m r ct using t f1 f2 s by (simp add: cli_blocks_def)
    qed
  qed
qed

lemma add_discovered_spec:
  assumes "n \<le> length found" "j \<le> n"
  shows "add_discovered found n j (Some r) w = map_option (\<lambda>(r, w). (Some r, w)) (rt.adds (drop j (take n found)) r w) \<or>
    \<not> (router_wf r \<and> (\<forall>p\<in>set (take n found). peer_wf p))"
  using assms(2)
proof (induction "n - j" arbitrary: j r w)
  case 0
  then show ?case by (subst add_discovered.simps) simp
next
  case (Suc k)
  then have j: "j < n" "j < length found" using assms(1) by simp_all
  have d: "drop j (take n found) = found ! j # drop (Suc j) (take n found)"
    using j by (simp add: drop_take Cons_nth_drop_Suc [symmetric] Suc_diff_Suc [symmetric])
  show ?case
  proof (cases "router_wf r \<and> (\<forall>p\<in>set (take n found). peer_wf p)")
    case True
    have "found ! j \<in> set (take n found)" using j by (auto simp: in_set_take_conv_nth)
    then have p: "peer_wf (found ! j)" using True by blast
    have rw: "router_wf r" using True by blast
    obtain r1 w1 where a: "router_add (found ! j) r w = Some (r1, w1)" "router_wf r1"
      using rt.add_total [OF rw p] .
    then have b: "bc_router_add_peer (Some r) (Some (found ! j)) w = Some (Some r1, w1)"
      by (auto simp: router_add_def bind_Some_iff)
    have "add_discovered found n (Suc j) (Some r1) w1 =
        map_option (\<lambda>(r, w). (Some r, w)) (rt.adds (drop (Suc j) (take n found)) r1 w1)"
      using Suc.hyps(1) [of "Suc j" r1 w1] Suc.hyps(2) j True a(2) by auto
    then show ?thesis
      unfolding d using j b a(1) by (subst add_discovered.simps) (simp add: mem_simps)
  qed blast
qed

lemma udp_found:
  fixes w :: "'b cli_world"
  shows "\<exists>found. udp_discover_peers (udp_ctx_of fd p ps) (replicate 64 peer_zero) 64 0 w
      = Some (BC_OK, found, min 64 (length ps), w) \<and>
    take (min 64 (length ps)) found = map port_peer (take 64 ps) \<and> length found = 64"
proof -
  have f: "fill_peers (udp_ctx_of fd p ps) n 0 (replicate 64 peer_zero) =
      Some (map port_peer (take n ps) @ replicate (64 - n) peer_zero)" if "n \<le> length ps" "n \<le> 64" for n
    using fill_peers_spec [of "udp_ctx_of fd p ps" n "replicate 64 peer_zero" 0] that by simp
  show ?thesis
    using f [of 64] f [of "length ps"] by (cases "64 < length ps") (simp_all add: udp_discover_peers_def Let_def)
qed

lemma add_frame:
  assumes "router_add p r w = Some (r', w')"
  shows "r_transport r' = r_transport r \<and> r_storage r' = r_storage r \<and> r_on_message r' = r_on_message r \<and>
    r_local_pubkey r' = r_local_pubkey r \<and> w_live w' = w_live w \<and> w_trace w' = w_trace w \<and> ext w' = ext w"
  using assms
  by (auto simp: router_add_def bc_router_add_peer_def bind_Some_iff bc_peer_touch_def c_time_def Let_def
      split: option.splits if_splits)

lemma adds_frame:
  assumes "rt.adds ps r w = Some (r', w')"
  shows "r_transport r' = r_transport r \<and> r_storage r' = r_storage r \<and> r_on_message r' = r_on_message r \<and>
    r_local_pubkey r' = r_local_pubkey r \<and> w_live w' = w_live w \<and> w_trace w' = w_trace w \<and> ext w' = ext w"
  using assms
proof (induction ps arbitrary: r w)
  case (Cons p ps)
  then obtain r1 w1 where "router_add p r w = Some (r1, w1)" "rt.adds ps r1 w1 = Some (r', w')"
    by (auto simp: bind_Some_iff)
  with add_frame [of p r w r1 w1] Cons.IH [of r1 w1] show ?case by simp
qed simp

lemma main_router_ok:
  fixes w :: "'b cli_world" and fd :: nat and p :: u16 and ps :: "u16 list"
  defines "t \<equiv> udp_transport (udp_ctx_of (int fd) p ps)"
  assumes i: "identity_wf (c_identity (ext w))"
  shows "\<exists>res w'. main_router S t sqlite_storage w = Some (res, w') \<and> w_trace w' = w_trace w \<and>
    (case res of
       None \<Rightarrow> w_live w' = w_live w + 2 - cli_blocks ps \<and> u_sockets (ext w') = u_sockets (ext w) - 1
     | Some (r, n) \<Rightarrow> w_live w' = w_live w + 2 \<and> ext w' = ext w \<and> router_wf r \<and>
         r_transport r = Some t \<and> r_storage r = Some sqlite_storage \<and>
         r_on_message r = Some (cli_on_message_received S) \<and> r_local_pubkey r = id_pubkey (c_identity (ext w)) \<and>
         peer_keys (known_peers r) = (\<lambda>q. peer_pubkey (port_peer q)) ` set (take 64 ps))"
proof -
  let ?lk = "id_pubkey (c_identity (ext w))"
  have lk: "length ?lk = 32" using i by (simp add: identity_wf_def size_defs)
  have "(\<exists>w1. bc_router_create (Some t) (Some sqlite_storage) (Some ?lk) None w = Some (None, w1) \<and>
          w_live w1 = w_live w \<and> ext w1 = ext w \<and> w_trace w1 = w_trace w) \<or>
        (\<exists>w1. bc_router_create (Some t) (Some sqlite_storage) (Some ?lk) None w =
          Some (Some (new_router (Some t) (Some sqlite_storage) ?lk), w1) \<and> w_live w1 = w_live w + 2 \<and> ext w1 = ext w \<and>
          w_trace w1 = w_trace w)"
    unfolding create_default [OF lk] by (auto simp: Let_def case_prod_beta)
  then show ?thesis
  proof (elim disjE exE conjE)
    fix w1 assume "bc_router_create (Some t) (Some sqlite_storage) (Some ?lk) None w = Some (None, w1)"
      "w_live w1 = w_live w" "ext w1 = ext w" "w_trace w1 = w_trace w"
    then show ?thesis
      unfolding t_def by (simp add: main_router_def release_ok udp_destroy_frame sqlite_destroy_def cli_blocks_def)
  next
    fix w1 assume c: "bc_router_create (Some t) (Some sqlite_storage) (Some ?lk) None w =
          Some (Some (new_router (Some t) (Some sqlite_storage) ?lk), w1)" "w_live w1 = w_live w + 2" "ext w1 = ext w"
      "w_trace w1 = w_trace w"
    let ?r = "(new_router (Some t) (Some sqlite_storage) ?lk)
      \<lparr>r_on_message := Some (cli_on_message_received S), r_on_message_userdata := 0\<rparr>"
    let ?ps = "map port_peer (take 64 ps)"
    have wf: "router_wf ?r" "known_peers ?r = []" using new_router_wf [OF lk] by (simp_all add: known_peers_def)
    obtain found where f: "udp_discover_peers (udp_ctx_of (int fd) p ps) (replicate 64 peer_zero) 64 0 w1
        = Some (BC_OK, found, min 64 (length ps), w1)" "take (min 64 (length ps)) found = ?ps" "length found = 64"
      using udp_found by blast
    have "card (peer_keys (known_peers ?r) \<union> peer_keys ?ps) \<le> 64"
      unfolding wf(2) using card_length [of "map peer_pubkey ?ps"] by (simp add: peer_keys_def)
    from rt.adds_complete [OF wf(1) _ this, of w1] obtain r w2 where
      a: "rt.adds ?ps ?r w1 = Some (r, w2)" "router_wf r" "peer_keys (known_peers r) = peer_keys ?ps"
      unfolding wf(2) by (auto simp: peer_keys_def)
    have "add_discovered found (min 64 (length ps)) 0 (Some ?r) w1 = Some (Some r, w2)"
      using add_discovered_spec [of "min 64 (length ps)" found 0 ?r w1] f(2,3) a(1) wf(1) by auto
    then have "main_router S t sqlite_storage w = Some (Some (r, min 64 (length ps)), w2)"
      using c(1) f(1) by (simp add: main_router_def t_def bc_router_set_on_message_def udp_transport_def size_defs)
    with a adds_frame [OF a(1)] c show ?thesis by (simp add: peer_keys_def image_image)
  qed
qed

text \<open>A node with its resources, relative to the world \<open>w\<close> before it was assembled.\<close>

definition node_up :: "sodium \<Rightarrow> nat \<Rightarrow> u16 list \<Rightarrow> 'b cli_state_scheme cli \<Rightarrow> 'b cli_world \<Rightarrow> bool" where
  "node_up S fd ps g w \<longleftrightarrow> cli_ok S (c_identity (ext w)) g w \<and>
     (\<exists>p. cl_transport g = Some (udp_transport (udp_ctx_of (int fd) p ps))) \<and>
     (\<exists>r. cl_router g = Some r \<and>
       peer_keys (known_peers r) = (\<lambda>q. peer_pubkey (port_peer q)) ` set (take 64 ps))"

lemma main_assemble_ok:
  fixes w :: "'b cli_world"
  assumes S: "sodium_ok S" and i: "identity_wf (c_identity (ext w))" and inv: "udp_inv k (ext w)"
    and ps: "ps = (case po of None \<Rightarrow> [] | Some ps \<Rightarrow> ps)"
  shows "\<exists>res w'. main_assemble S fd thread_rc p po h w = Some (res, w') \<and> w_trace w' = w_trace w \<and>
    (case res of
       None \<Rightarrow> w_live w' = w_live w - (if po = None then 0 else 1) \<and> u_sockets (ext w') = u_sockets (ext w)
     | Some g \<Rightarrow> node_up S fd ps g w' \<and> w_live w' = w_live w - (if po = None then 0 else 1) + cli_blocks ps \<and>
         u_sockets (ext w') = u_sockets (ext w) + 1 \<and> q_handles (ext w') = q_handles (ext w) + 6 \<and>
         c_running (ext w') = c_running (ext w))"
proof -
  let ?t = "udp_transport (udp_ctx_of (int fd) p ps) :: 'b cli_state_scheme bc_transport"
  let ?l = "w_live w - (if po = None then 0 else 1)"
  obtain ad w3 where ad: "main_adapters fd p po w = Some (ad, w3)" "program_part (ext w3) = program_part (ext w)"
      "w_trace w3 = w_trace w"
      "case ad of None \<Rightarrow> w_live w3 = ?l \<and> u_sockets (ext w3) = u_sockets (ext w)
       | Some (s, t) \<Rightarrow> s = sqlite_storage \<and> t = ?t \<and> w_live w3 = ?l + cli_blocks ps - 2 \<and>
          u_sockets (ext w3) = u_sockets (ext w) + 1 \<and> q_handles (ext w3) = q_handles (ext w) + 6"
    using main_adapters_ok [of fd p po w] unfolding ps by blast
  have pp: "c_identity (ext w3) = c_identity (ext w)" "udp_inv k (ext w3)" "c_running (ext w3) = c_running (ext w)"
    using ad(2) inv by (simp_all add: program_part_def fun_eq_iff)
  obtain rn w4 where mr: "main_router S ?t sqlite_storage w3 = Some (rn, w4)" "w_trace w4 = w_trace w3"
      "case rn of None \<Rightarrow> w_live w4 = w_live w3 + 2 - cli_blocks ps \<and> u_sockets (ext w4) = u_sockets (ext w3) - 1
       | Some (r, n) \<Rightarrow> w_live w4 = w_live w3 + 2 \<and> ext w4 = ext w3 \<and> router_wf r \<and>
           r_transport r = Some ?t \<and> r_storage r = Some sqlite_storage \<and>
           r_on_message r = Some (cli_on_message_received S) \<and> r_local_pubkey r = id_pubkey (c_identity (ext w3)) \<and>
           peer_keys (known_peers r) = (\<lambda>q. peer_pubkey (port_peer q)) ` set (take 64 ps)"
    using main_router_ok [of w3 S fd p ps] pp(1) i by auto
  show ?thesis
  proof (cases ad)
    case None
    with ad show ?thesis by (simp add: main_assemble_def)
  next
    case (Some st)
    then have ad2: "ad = Some (sqlite_storage, ?t)" "w_live w3 = ?l + cli_blocks ps - 2"
        "u_sockets (ext w3) = u_sockets (ext w) + 1" "q_handles (ext w3) = q_handles (ext w) + 6"
      using ad(4) by auto
    show ?thesis
    proof (cases rn)
      case None
      with ad(1,3) ad2 mr show ?thesis by (simp add: main_assemble_def)
    next
      case rn: (Some rn')
      obtain r n where "rn' = (r, n)" by force
      with rn ad(1) ad2 mr pp S i show ?thesis
        by (cases "thread_rc = 0")
          (auto simp: main_assemble_def node_up_def cli_ok_def cli_inv_def release_ok udp_destroy_frame sqlite_destroy_def
            bc_router_destroy_def cli_blocks_def ad(3))
    qed
  qed
qed

lemma main_start_ok:
  fixes w :: "'b cli_world"
  assumes S: "sodium_ok S" and argv: "argv \<noteq> []" "\<forall>a\<in>set argv. parse_port a \<noteq> None"
    and i: "identity_wf (c_identity (ext w))" and inv: "udp_inv k (ext w)"
  shows "\<exists>res w'. main_start S fd thread_rc argv w = Some (res, w') \<and> w_trace w' = w_trace w \<and>
    (case res of
       None \<Rightarrow> w_live w' = w_live w \<and> u_sockets (ext w') = u_sockets (ext w)
     | Some g \<Rightarrow> \<exists>ps. parse_ports (drop 2 argv) = Some ps \<and> node_up S fd ps g w' \<and>
         w_live w' = w_live w + cli_blocks ps \<and> u_sockets (ext w') = u_sockets (ext w) + 1 \<and>
         q_handles (ext w') = q_handles (ext w) + 6 \<and> c_running (ext w') = c_running (ext w))"
proof -
  obtain args w1 where a: "main_args argv w = Some (args, w1)" "start_frame w w1" "c_identity (ext w1) = c_identity (ext w)"
      "case args of None \<Rightarrow> w_live w1 = w_live w
       | Some (p, po) \<Rightarrow> w_live w1 = w_live w + (if po = None then 0 else 1) \<and> p \<noteq> 0 \<and>
           parse_port (argv ! 1) = Some p \<and> parse_ports (drop 2 argv) = Some (case po of None \<Rightarrow> [] | Some ps \<Rightarrow> ps)"
    using main_args_ok [OF argv] by blast
  show ?thesis
  proof (cases args)
    case None
    with a show ?thesis by (simp add: main_start_def start_frame_def)
  next
    case (Some ppo)
    obtain p po where ppo: "ppo = (p, po)" by force
    define ps where "ps = (case po of None \<Rightarrow> [] | Some ps \<Rightarrow> ps)"
    have l1: "w_live w1 = w_live w + (if po = None then 0 else 1)" "parse_ports (drop 2 argv) = Some ps"
      using a(4) Some ppo by (simp_all add: ps_def)
    obtain ok w2 where id: "main_identity S p w1 = (ok, w2)" by force
    have w2: "start_frame w1 w2" "w_live w2 = w_live w1" "identity_wf (c_identity (ext w2))" "udp_inv k (ext w2)"
      using main_identity_ok [OF S _ id] i a(2,3) inv by (simp_all add: start_frame_def)
    show ?thesis
    proof (cases "bc_crypto_init S = BC_OK \<and> ok")
      case False
      with a Some ppo id w2 l1 show ?thesis by (auto simp: main_start_def start_frame_def)
    next
      case ini: True
      obtain h where "bytes_to_hex (id_pubkey (c_identity (ext w2))) 32 (replicate 65 NUL) = Some h"
        using bytes_to_hex_ok [of 32 "id_pubkey (c_identity (ext w2))" "replicate 65 NUL"] w2(3)
        by (simp add: identity_wf_def size_defs)
      then have "main_start S fd thread_rc argv w = main_assemble S fd thread_rc p po (cstr h) w2"
        using a(1) Some ppo id ini by (simp add: main_start_def size_defs)
      moreover note main_assemble_ok [OF S w2(3,4) ps_def, of fd thread_rc p "cstr h"]
      ultimately show ?thesis using l1 w2(1,2) a(2) by (fastforce simp: start_frame_def split: option.splits)
    qed
  qed
qed


text \<open>A program of the witnesses: nothing printed, no files, every call succeeds.\<close>

definition cli_idle :: "bool \<Rightarrow> cli_state" where
  "cli_idle run = udp_state.extend (udp_idle True)
     (cli_state.fields run \<lparr>id_pubkey = replicate 32 0, id_secret_key = replicate 32 0\<rparr> [] Map.empty (\<lambda>_. True) 0)"

lemma cli_idle_simps [simp]:
  "c_running (cli_idle b) = b" "c_identity (cli_idle b) = \<lparr>id_pubkey = replicate 32 0, id_secret_key = replicate 32 0\<rparr>"
  "c_console (cli_idle b) = []" "c_files (cli_idle b) = Map.empty" "c_answers (cli_idle b) n" "c_ncall (cli_idle b) = 0"
  "udp_inv 0 (cli_idle b)"
  by (auto simp: cli_idle_def udp_state.extend_def cli_state.fields_def udp_inv_def udp_quota_def udp_live_def sql_inv_def
      udp_idle_def sql_state.extend_def udp_state.fields_def sql_empty_def)

lemma sample_argv:
  "parse_port ''5001'' = Some 5001" "parse_port ''5002'' = Some 5002"
  by (simp_all add: parse_port_def c_atoi_def digits_val_def in_range_def is_space_def Let_def)


section \<open>The key file\<close>

text \<open>
  C33. The identity survives a restart: a node that starts without a key file generates a key pair and
  saves it, and a later start that finds this file comes up with the same public and secret key.
\<close>

theorem identity_persists:
  fixes w w2 :: "'b cli_world"
  assumes S: "sodium_ok S" and new: "c_files (ext w) (key_path p) = None" and up: "\<forall>n. c_answers (ext w) n"
    and first: "main_identity S p w = (True, w1)"
    and later: "c_files (ext w2) = c_files (ext w1)" "\<forall>n. c_answers (ext w2) n" "identity_wf (c_identity (ext w2))"
  shows "\<exists>w3. main_identity S p w2 = (True, w3) \<and> c_identity (ext w3) = c_identity (ext w1)"
proof -
  let ?w = "snd (c_call w)"
  have "(True, w1) = create_identity S (key_path p) ?w"
    using first new up by (simp add: main_identity_def case_prod_beta Let_def c_call_def)
  moreover obtain rc io w0 where g: "bc_identity_generate S (Some (c_identity (ext ?w))) ?w = (rc, io, w0)" by (metis prod_cases3)
  ultimately have rc: "rc = BC_OK" by (auto simp: create_identity_def Let_def case_prod_beta c_call_def split: if_splits)
  then obtain i where i: "io = Some i" "identity_wf i"
      "sd_box_keypair S (fst (randombytes_buf 32 ?w)) = Some (id_pubkey i, id_secret_key i)"
    using identity_generate_wf [OF S, of "c_identity (ext ?w)" ?w io w0] g by auto
  have "ext w0 = ext ?w" using g by (auto simp: bc_identity_generate_def case_prod_beta split: option.splits)
  then have w1: "c_identity (ext w1) = i" "c_files (ext w1) (key_path p) = Some (id_secret_key i)"
    using \<open>(True, w1) = _\<close> g rc i(1) up by (auto simp: create_identity_def Let_def case_prod_beta c_call_def)
  have l: "length (id_secret_key i) = 32" "drop 32 (id_secret_key (c_identity (ext w2))) = []"
    using i(2) later(3) by (simp_all add: identity_wf_def size_defs)
  have "sd_scalarmult_base S (id_secret_key i) = Some (id_pubkey i)" by (rule sodium_base(2) [OF S i(3)])
  with later w1 l show ?thesis
    by (simp add: main_identity_def case_prod_beta Let_def c_call_def load_identity_def size_defs)
qed

theorem identity_persists_witness:
  "\<exists>w1 w3. main_identity toy_sodium 5001 (with_ext (cli_idle True) 0) = (True, w1) \<and>
     main_identity toy_sodium 5001 w1 = (True, w3) \<and> c_identity (ext w3) = c_identity (ext w1)"
proof -
  let ?w = "with_ext (cli_idle True) 0"
  obtain ok w1 where m: "main_identity toy_sodium 5001 ?w = (ok, w1)" by force
  have "ok \<and> c_answers (ext w1) = c_answers (ext ?w) \<and> identity_wf (c_identity (ext w1))"
    using m by (auto simp: main_identity_def case_prod_beta Let_def c_call_def create_identity_def bc_identity_generate_def
        toy_sodium_def randombytes_buf_def size_defs identity_wf_def split: if_splits)
  then have "main_identity toy_sodium 5001 ?w = (True, w1)" "\<forall>n. c_answers (ext w1) n" "identity_wf (c_identity (ext w1))"
    using m by simp_all
  with identity_persists [OF toy_sodium_ok _ _ this(1) refl] show ?thesis by fastforce
qed

section \<open>The program as a state machine\<close>

lemma thread_round:
  assumes "cli_ok S i g w"
  obtains g' w' where "tick_thread_func g w = Some (c_running (ext w), g', w')" "cli_ok S i g' w'"
    "c_running (ext w') = c_running (ext w)"
proof (cases "c_running (ext w)")
  case False
  with assms that show ?thesis by (simp add: tick_thread_func_def)
next
  case True
  obtain r k where r: "cl_router g = Some r" "router_wf r" "cli_inv S i (c_running (ext w)) k (ext w)"
    using cli_okE [OF assms] .
  from tick_total [OF cli_ports(2) [OF assms r(1)] r(2,3)] obtain r' w' k' where
    t: "bc_router_tick (Some r) w = Some (Some r', w')" "router_wf r'" "cli_inv S i (c_running (ext w)) k' (ext w')"
      "r_local_pubkey r' = r_local_pubkey r" "r_transport r' = r_transport r" "r_storage r' = r_storage r"
      "r_on_message r' = r_on_message r" by blast
  have run: "c_running (ext w') = c_running (ext w)" using t(3) by (simp add: cli_inv_def)
  have "cli_ok S i (g\<lparr>cl_router := Some r'\<rparr>) w'"
    using assms r(1) t(2-7) run by (auto simp: cli_ok_def)
  with True r(1) t(1) run that show ?thesis by (simp add: tick_thread_func_def)
qed

lemma fgets_length: "c_fgets LINE_SIZE input = Some (line, rest) \<Longrightarrow> length line < 2 ^ 30"
  by (auto simp: c_fgets_def LINE_SIZE_def Let_def split: if_splits)

text \<open>The invariant of the running program.\<close>

definition config_ok :: "sodium \<Rightarrow> bc_identity \<Rightarrow> 'b cli_config \<Rightarrow> bool" where
  "config_ok S i c \<longleftrightarrow> (case c of (k, w) \<Rightarrow>
     if k_pc k = Exited
     then \<not> k_thread k \<and> \<not> c_running (ext w) \<and> id_secret_key (c_identity (ext w)) = replicate 32 0
     else cli_ok S i (k_cli k) w \<and> (k_pc k = Joining \<longrightarrow> \<not> c_running (ext w)))"

lemma cli_ok_stop: "cli_ok S i g w \<Longrightarrow> cli_ok S i g (signal_handler w)"
  by (erule cli_ok_ext) (simp_all add: signal_handler_def)

lemma shutdown_step:
  assumes "cli_ok S i g w"
  obtains w' where "main_shutdown g w = Some w'" "c_running (ext w') = c_running (ext w)"
    "id_secret_key (c_identity (ext w')) = replicate 32 0"
proof -
  from assms obtain fd p ports r where "cl_router g = Some r" "cl_storage g = Some sqlite_storage"
      "cl_transport g = Some (udp_transport (udp_ctx_of (int fd) p ports))"
    by (auto simp: cli_ok_def)
  from main_shutdown_ok [OF this, of w] that show ?thesis by blast
qed

lemma step_ok:
  assumes "cli_step S c c'" "config_ok S i c"
  shows "config_ok S i c'"
  using assms
proof cases
  case (tick k w g w')
  obtain g2 w2 where "tick_thread_func (k_cli k) w = Some (c_running (ext w), g2, w2)" "cli_ok S i g2 w2"
      "c_running (ext w2) = c_running (ext w)"
    using thread_round [of S i "k_cli k" w] assms(2) tick by (auto simp: config_ok_def)
  with tick assms(2) show ?thesis by (auto simp: config_ok_def)
next
  case (thread_end k w g w')
  obtain g2 w2 where "tick_thread_func (k_cli k) w = Some (c_running (ext w), g2, w2)" "cli_ok S i g2 w2"
      "c_running (ext w2) = c_running (ext w)"
    using thread_round [of S i "k_cli k" w] assms(2) thread_end by (auto simp: config_ok_def)
  with thread_end assms(2) show ?thesis by (auto simp: config_ok_def)
next
  case (signal k w)
  moreover have "\<not> c_running (ext (signal_handler w))" by (simp add: signal_handler_def)
  ultimately show ?thesis using assms(2) by (auto simp: config_ok_def intro: cli_ok_stop)
next
  case (read_line k line rest w g w')
  with assms(2) handle_line_total [of S i "k_cli k" w line] fgets_length [of "k_stdin k" line rest] show ?thesis
    by (auto simp: config_ok_def)
next
  case (join k w w')
  with assms(2) have "cli_ok S i (k_cli k) w" "\<not> c_running (ext w)" by (auto simp: config_ok_def)
  with join shutdown_step [of S i "k_cli k" w] show ?thesis by (auto simp: config_ok_def)
qed (auto simp: config_ok_def)

text \<open>A running node with key \<open>pk\<close> and no stored messages, for the witnesses.\<close>

definition node_cli :: "sodium \<Rightarrow> bytes \<Rightarrow> cli_state cli" where
  "node_cli S pk = \<lparr>cl_transport = Some (udp_transport (udp_ctx_of (int 3) 5001 [5002])), cl_storage = Some sqlite_storage,
     cl_router = Some ((udp_node (int 3) 5001 [5002] pk)\<lparr>r_on_message := Some (cli_on_message_received S)\<rparr>)\<rparr>"

definition cli_with :: "bool \<Rightarrow> bytes \<Rightarrow> cli_state" where
  "cli_with run k = (cli_idle run)\<lparr>c_identity := \<lparr>id_pubkey = k, id_secret_key = k\<rparr>\<rparr>"

lemma node_cli_ok:
  assumes "sodium_ok S" "length k = 32"
  shows "cli_ok S \<lparr>id_pubkey = k, id_secret_key = k\<rparr> (node_cli S k) (with_ext (cli_with b k) t)"
proof -
  let ?t = "udp_transport (udp_ctx_of 3 5001 [5002]) :: cli_state bc_transport"
  have t: "\<exists>fd p ports. ?t = udp_transport (udp_ctx_of (int fd) p ports)"
    by (intro exI [of _ 3] exI [of _ 5001] exI [of _ "[5002]"]) simp
  have u: "\<exists>n. udp_inv n (cli_idle b)" by (rule exI [of _ 0]) simp
  show ?thesis using assms new_router_wf(1) [OF assms(2)] t u
    by (simp add: cli_ok_def node_cli_def cli_with_def cli_inv_def udp_node_def identity_wf_def size_defs
        new_router_def router_wf_def known_peers_def)
qed


lemma stopped_step:
  assumes s: "cli_step S (k, w) (k', w')" and ok: "config_ok S i (k, w)" and stop: "\<not> c_running (ext w)"
  shows "\<not> c_running (ext w')"
  using s
proof cases
  case (read_line line rest g)
  then show ?thesis
    using handle_line_total [of S i "k_cli k" w line] fgets_length [of "k_stdin k" line rest] ok stop
    by (auto simp: config_ok_def)
next
  case join
  then show ?thesis using shutdown_step [of S i "k_cli k" w] ok stop by (auto simp: config_ok_def)
qed (use stop in \<open>auto simp: tick_thread_func_def signal_handler_def\<close>)


text \<open>What is left to do before the program has exited, once \<open>g_running\<close> is false.\<close>

definition rank :: "'a config \<Rightarrow> nat" where
  "rank k = (if k_thread k then 1 else 0) +
     (case k_pc k of Exited \<Rightarrow> 0 | Joining \<Rightarrow> 1 | Loop_Head \<Rightarrow> 2 | Headless \<Rightarrow> 2 | Await_Input \<Rightarrow> 3)"



end
