(* ===== verification/Cli_Chat.thy ===== *)
theory Cli_Chat
  imports Cli_Run
begin

text \<open>
  A conversation between two simulator nodes: the line that one user types, the message it becomes and
  what the other node prints.
\<close>

lemma hexs_clean: "NUL \<notin> set (hexs d)" "NL \<notin> set (hexs d)"
proof -
  have "list_all (\<lambda>c. c \<noteq> NUL \<and> c \<noteq> NL) hex_chars" by code_simp
  then have h: "hex_chars ! k \<noteq> NUL \<and> hex_chars ! k \<noteq> NL" if "k < 16" for k
    using that by (simp add: list_all_length)
  have "set (hex2 b) \<inter> {NUL, NL} = {}" for b
    using h [of "unat b div 16"] h [of "unat b mod 16"] hex_index [of b] by (simp add: hex2_def)
  then show "NUL \<notin> set (hexs d)" "NL \<notin> set (hexs d)" by (induction d) auto
qed

text \<open>Text survives the way through bytes.\<close>

lemma chars_of_bytes_of [simp]: "chars_of (bytes_of s) = s"
proof -
  have "char_of (unat (of_nat (of_char c) :: u8)) = c" for c :: char
    by (simp add: unat_of_nat)
  then show ?thesis by (simp add: chars_of_def bytes_of_def o_def)
qed

lemma cstr_id: "NUL \<notin> set s \<Longrightarrow> cstr s = s"
  by (auto simp: cstr_def takeWhile_eq_all_conv)

lemma strip_newline_line: "strip_newline (s @ [NL]) = s"
  by (simp add: strip_newline_def)

section \<open>From one console to the other\<close>

text \<open>The line \<open>/msg key text\<close>, as \<open>fgets\<close> returns it.\<close>

definition msg_line :: "bytes \<Rightarrow> string \<Rightarrow> string" where
  "msg_line pk text = ''/msg '' @ hexs pk @ '' '' @ text @ [NL]"

lemma handle_msg_line:
  assumes "length pk = 32" "text \<noteq> []" "hd text \<noteq> CHR '' ''" "NUL \<notin> set text"
  shows "handle_line S (msg_line pk text) g w = send_text S pk text g w"
proof -
  let ?args = "hexs pk @ '' '' @ text"
  have "NUL \<notin> set (msg_line pk text)" using assms(4) hexs_clean(1) [of pk] by (simp add: msg_line_def NUL_def NL_def)
  then have "strip_newline (cstr (msg_line pk text)) = ''/msg '' @ ?args"
    using strip_newline_line [of "''/msg '' @ ?args"] by (simp add: cstr_id msg_line_def)
  then have "handle_line S (msg_line pk text) g w = cmd_msg S ?args g w" by (simp add: handle_line_def)
  moreover have "0 < length text" using assms(2) by simp
  moreover have "dropWhile (\<lambda>c. c = CHR '' '') text = text" using assms(2,3) by (cases "text") simp_all
  ultimately show ?thesis
    using hex_to_bytes_hexs [of pk 32 "replicate 32 0"] assms(1,2) by (simp add: cmd_msg_def size_defs mem_simps Let_def)
qed

lemma receive_prints:
  fixes w :: "'b cli_world"
  assumes ok: "cli_ok S i g w" and r: "cl_router g = Some r" and heap: "heap_ok w"
    and d: "bc_message_deserialize (Some d) n w = Some (Some m, w1)" "n \<le> length d" "length d < 2 ^ 31"
    and new: "\<not> seen r (msg_uuid m)" "msg_ttl m \<noteq> 0" "msg_receiver_pubkey m = id_pubkey i"
    and pt: "open_message S (id_secret_key i) m = Some pt"
  shows "\<exists>r' w'. bc_router_receive (Some r) (Some d) n w = Some (BC_OK, Some r', w') \<and> seen r' (msg_uuid m) \<and>
    c_console (ext w') = c_console (ext w) @ [Stdout (incoming_text (msg_sender_pubkey m) pt)]"
proof -
  let ?m = "m\<lparr>msg_ttl := msg_ttl m - 1\<rparr>"
  have i: "c_identity (ext w) = i" "sodium_ok S" "router_wf r" "r_local_pubkey r = id_pubkey i"
    "r_on_message r = Some (cli_on_message_received S)" "identity_wf i"
    using ok r by (auto simp: cli_ok_def cli_inv_def)
  note m = decoded_storable [OF d]
  obtain r' where r': "router_mark r (msg_uuid m) w1 = Some (r', snd (c_time w1))" "seen r' (msg_uuid m)" "same_but_seen r r'"
    using router_mark_ok [OF i(3) m(2)] by blast
  note fr = same_but_seen_frame [OF r'(3)]
  let ?w = "emit (Delivered ?m) (snd (c_time w1))"
  have w: "ext ?w = ext w" "heap_ok ?w" using m(6,8) heap oracles_heap [of ?w w] by (simp_all add: heap_ok_def)
  have "storable ?m" using m(1) by simp
  moreover have "open_message S (id_secret_key (c_identity (ext ?w))) ?m = Some pt"
    using pt w(1) i(1) by simp
  ultimately obtain w3 where w3: "cli_on_message_received S (r_on_message_userdata r') ?m ?w = Some w3"
      "ext w3 = c_console_update (\<lambda>old. old @ [Stdout (incoming_text (msg_sender_pubkey ?m) pt)]) (ext ?w)"
    using cli_callback_spec [OF i(2), of ?m ?w "r_on_message_userdata r'"] w i(1,6) by auto
  have "memeq 32 (msg_receiver_pubkey m) (r_local_pubkey r')" using new(3) i(4) fr m(3) by (simp add: memeq_def)
  with receive_live [OF m(7) d(1) i(3) m(2) new(1,2) r'(1)] w3 w(1) r'(2) fr i(5) show ?thesis by (simp add: Let_def)
qed

text \<open>
  C14. End to end between two consoles: the line \<open>/msg <Bob's key> <text>\<close> typed at Alice's node prints
  "Message sent." after gossiping and storing one sealed message with her key as the sender and the
  default hop count; when it reaches Bob's node with any hop count left, exactly one thing is printed
  there: the notice with Alice's key in hexadecimal and the text she typed.
\<close>

theorem cli_end_to_end:
  fixes wa wb :: "'b cli_world"
  assumes a: "sd_box_keypair S ra = Some (pka, ska)" and b: "sd_box_keypair S rb = Some (pkb, skb)"
    and key: "sd_box_beforenm S pkb ska = Some k"
    and enc: "\<forall>nonce. length nonce = 24 \<longrightarrow> sd_aead_encrypt S (bytes_of text) nonce k \<noteq> None"
    and alice: "cli_ok S \<lparr>id_pubkey = pka, id_secret_key = ska\<rparr> ga wa" "cl_router ga = Some rA" "heap_ok wa"
    and bob: "cli_ok S \<lparr>id_pubkey = pkb, id_secret_key = skb\<rparr> gb wb" "cl_router gb = Some rB" "heap_ok wb"
    and fresh: "\<forall>u. length u = 16 \<longrightarrow> \<not> seen rB u" and hops: "ttl \<noteq> 0"
    and typed: "text \<noteq> []" "hd text \<noteq> CHR '' ''" "NUL \<notin> set text" "length text < 2 ^ 30"
  shows "\<exists>m ga' wa' rcs rc. handle_line S (msg_line pkb text) ga wa = Some (ga', say (''Message sent.'' @ [NL]) wa') \<and>
    msg_sender_pubkey m = pka \<and> msg_receiver_pubkey m = pkb \<and> msg_ttl m = BC_DEFAULT_TTL \<and>
    gossiped rA (wire m) rcs \<and> w_trace wa' = w_trace wa @ sends (wire m) (known_peers rA) rcs @ [Stored m rc] \<and>
    (\<exists>r' wb'. bc_router_receive (Some rB) (Some (wire (m\<lparr>msg_ttl := ttl\<rparr>))) (length (wire m)) wb = Some (BC_OK, Some r', wb') \<and>
      c_console (ext wb') = c_console (ext wb) @ [Stdout ([NL] @ ''[PESAN MASUK dari '' @ hexs pka @ '']:'' @ [NL] @
        ''  '' @ text @ [NL] @ ''> '')])"
proof -
  have S: "sodium_ok S" using cli_okE [OF alice(1)] by blast
  have keys: "length pka = 32" "length pkb = 32" using sodium_keypair [OF S a] sodium_keypair [OF S b] by simp_all
  have "can_seal S \<lparr>id_pubkey = pka, id_secret_key = ska\<rparr> pkb (bytes_of text)" using key enc by (auto simp: can_seal_def)
  then obtain m ga' wa' rcs rc where m: "send_text S pkb text ga wa = Some (ga', say (''Message sent.'' @ [NL]) wa')"
      "sealed_for S \<lparr>id_pubkey = pka, id_secret_key = ska\<rparr> pkb (bytes_of text) m"
      "gossiped rA (wire m) rcs" "w_trace wa' = w_trace wa @ sends (wire m) (known_peers rA) rcs @ [Stored m rc]"
    using send_text_spec [OF alice(1,2) keys(2) typed(4)] alice(3) by auto
  have sm: "storable m" "msg_sender_pubkey m = pka" "msg_receiver_pubkey m = pkb" "msg_ttl m = BC_DEFAULT_TTL"
      "msg_payload_len m = 40 + length text" "\<And>sk. sd_box_beforenm S pka sk = Some k \<Longrightarrow> open_message S sk m = Some (bytes_of text)"
    using m(2) key by (simp_all add: sealed_for_def)
  let ?m = "m\<lparr>msg_ttl := ttl\<rparr>"
  have wf: "message_wf ?m" "msg_payload_len ?m = 40 + length text" using sm(1,5) by (simp_all add: storable_def message_wf_ttl)
  have lw: "length (wire ?m) = 133 + length text" "length (wire m) = length (wire ?m)"
    using wire_length [OF wf(1)] wire_length [of m] wf(2) sm(1,5) by (simp_all add: storable_def)
  obtain w1 where d: "bc_message_deserialize (Some (wire ?m)) (length (wire ?m)) wb = Some (Some ?m, w1)"
    using deserialize_wire [OF wf(1), of "length (wire ?m)" "[]" wb] lw(1) wf(2) typed(4) bob(3) by (auto simp: heap_ok_def)
  have "\<not> seen rB (msg_uuid ?m)" using fresh wf(1) by (simp add: message_wf_def size_defs)
  moreover have "length (wire ?m) < 2 ^ 31" using lw(1) typed(4) by simp
  moreover have "open_message S skb ?m = Some (bytes_of text)" using sm(6) sodium_agree [OF S a b] key by simp
  ultimately obtain r' wb' where "bc_router_receive (Some rB) (Some (wire ?m)) (length (wire ?m)) wb = Some (BC_OK, Some r', wb')"
      "c_console (ext wb') = c_console (ext wb) @ [Stdout (incoming_text pka (bytes_of text))]"
    using receive_prints [OF bob d order.refl, of "bytes_of text"] hops sm(2,3) by auto
  with m sm lw(2) handle_msg_line [OF keys(2) typed(1-3), of S ga wa] typed(3) show ?thesis
    by (fastforce simp: incoming_text_def cstr_id)
qed

theorem cli_end_to_end_witness:
  "\<exists>m ga' wa' r' wb'.
    handle_line toy_sodium (msg_line (replicate 32 2) ''hi'') (node_cli toy_sodium (replicate 32 1))
      (with_ext (cli_with True (replicate 32 1)) 1000) = Some (ga', say (''Message sent.'' @ [NL]) wa') \<and>
    bc_router_receive (cl_router (node_cli toy_sodium (replicate 32 2))) (Some (wire (m\<lparr>msg_ttl := 9\<rparr>))) (length (wire m))
      (with_ext (cli_with True (replicate 32 2)) 1000) = Some (BC_OK, Some r', wb') \<and>
    c_console (ext wb') = [Stdout ([NL] @ ''[PESAN MASUK dari '' @ hexs (replicate 32 1) @ '']:'' @ [NL] @
      ''  hi'' @ [NL] @ ''> '')]"
proof -
  let ?a = "replicate 32 1 :: bytes" and ?b = "replicate 32 2 :: bytes"
  let ?ga = "node_cli toy_sodium ?a" and ?gb = "node_cli toy_sodium ?b"
  let ?wa = "with_ext (cli_with True ?a) 1000" and ?wb = "with_ext (cli_with True ?b) 1000"
  have l: "length ?a = 32" "length ?b = 32" by simp_all
  have k: "sd_box_keypair toy_sodium ?a = Some (?a, ?a)" "sd_box_keypair toy_sodium ?b = Some (?b, ?b)"
      "sd_box_beforenm toy_sodium ?b ?a = Some (replicate 32 3)"
      "\<forall>nonce. length nonce = 24 \<longrightarrow> sd_aead_encrypt toy_sodium (bytes_of ''hi'') nonce (replicate 32 3) \<noteq> None"
    by (simp_all add: toy_sodium_def zip_replicate)
  have r: "cl_router ?ga = Some (the (cl_router ?ga))" "cl_router ?gb = Some (the (cl_router ?gb))" by (simp_all add: node_cli_def)
  have h: "heap_ok ?wa" "heap_ok ?wb" by (simp_all add: heap_ok_def)
  have f: "\<forall>u. length u = 16 \<longrightarrow> \<not> seen (the (cl_router ?gb)) u"
    by (simp add: node_cli_def udp_node_def seen_def new_router_wf(3) [OF l(2), unfolded seen_def])
  have t: "''hi'' \<noteq> []" "hd ''hi'' \<noteq> CHR '' ''" "NUL \<notin> set ''hi''" "length ''hi'' < 2 ^ 30" by (simp_all add: NUL_def)
  have c: "c_console (ext ?wb) = []" by (simp add: cli_with_def)
  from cli_end_to_end [OF k node_cli_ok [OF toy_sodium_ok l(1)] r(1) h(1) node_cli_ok [OF toy_sodium_ok l(2)] r(2) h(2) f _ t, of 9]
  show ?thesis unfolding c r(2) [symmetric] by (simp only: append_Nil append.simps) fastforce
qed

end
