(* ===== verification/Mesh.thy ===== *)
theory Mesh
  imports Router_Props "HOL-Library.Multiset"
begin

text \<open>
  Many nodes. Each node runs the router of \<^verbatim>\<open>mesh_router.c\<close> with its own adapters and environment; the
  medium between them is not code and is a parameter \<open>link\<close>: the nodes that can hear what a node sends
  to a peer's key. Packets in the air are a multiset; they arrive in any order, may be lost and may
  be duplicated. The theory shows that gossip dies out, that every node reacts to a message at most
  once, and that without losses a message reaches every node that is connected to its origin.
\<close>

section \<open>Networks\<close>

type_synonym 'n medium = "'n \<Rightarrow> bytes \<Rightarrow> 'n set"

record ('n, 'a) mesh =
  m_node :: "'n \<Rightarrow> 'a bc_router \<times> 'a world_scheme"
  m_air :: "('n \<times> bytes) multiset"

abbreviation router_of :: "('n, 'a) mesh \<Rightarrow> 'n \<Rightarrow> 'a bc_router" where
  "router_of M j \<equiv> fst (m_node M j)"

abbreviation world_of :: "('n, 'a) mesh \<Rightarrow> 'n \<Rightarrow> 'a world_scheme" where
  "world_of M j \<equiv> snd (m_node M j)"

text \<open>
  What the medium makes of the calls of \<open>send\<close> among the events of node \<open>i\<close>: packets for nodes that hear
  the addressed key, and, when it is \<open>faithful\<close>, at least one for each of them.
\<close>

definition carried :: "bool \<Rightarrow> 'n medium \<Rightarrow> 'n \<Rightarrow> event list \<Rightarrow> ('n \<times> bytes) multiset \<Rightarrow> bool" where
  "carried faithful link i es A \<longleftrightarrow>
     (\<forall>j d. (j, d) \<in># A \<longrightarrow> (\<exists>pk rc. Sent pk d rc \<in> set es \<and> j \<in> link i pk)) \<and>
     (faithful \<longrightarrow> (\<forall>pk d rc j. Sent pk d rc \<in> set es \<and> j \<in> link i pk \<longrightarrow> (j, d) \<in># A))"

text \<open>A packet arrives and is handled; a packet is lost.\<close>

inductive hop :: "bool \<Rightarrow> 'n medium \<Rightarrow> ('n, 'a) mesh \<Rightarrow> ('n, 'a) mesh \<Rightarrow> bool"
  for faithful :: bool and link :: "'n medium" where
  hop: "m_air M = add_mset (j, d) B \<Longrightarrow> m_node M j = (r, w) \<Longrightarrow>
    bc_router_receive (Some r) (Some d) (length d) w = Some (rc, Some r', w') \<Longrightarrow>
    w_trace w' = w_trace w @ es \<Longrightarrow> carried faithful link j es A \<Longrightarrow>
    hop faithful link M (M\<lparr>m_node := (m_node M)(j := (r', w')), m_air := B + A\<rparr>)"

inductive fade :: "('n, 'a) mesh \<Rightarrow> ('n, 'a) mesh \<Rightarrow> bool" where
  fade: "m_air M = add_mset (j, d) B \<Longrightarrow> fade M (M\<lparr>m_air := B\<rparr>)"

definition mesh_step :: "'n medium \<Rightarrow> ('n, 'a) mesh \<Rightarrow> ('n, 'a) mesh \<Rightarrow> bool" where
  "mesh_step link M M' \<longleftrightarrow> hop False link M M' \<or> fade M M'"

inductive_cases hopE: "hop faithful link M M'"
inductive_cases fadeE: "fade M M'"

lemma carried_weaken: "carried b link i es A \<Longrightarrow> carried False link i es A"
  by (simp add: carried_def)

lemma carried_none: "\<forall>pk d rc. Sent pk d rc \<notin> set es \<Longrightarrow> carried b link i es A \<longleftrightarrow> A = {#}"
  unfolding carried_def by (metis empty_not_add_mset multi_member_split multiset_nonemptyE surj_pair)

lemma hop_step: "hop b link M M' \<Longrightarrow> mesh_step link M M'"
  unfolding mesh_step_def by (erule hopE) (blast intro: hop carried_weaken)

text \<open>The invariant: every node is in order with its own adapters, and no packet in the air overflows the decoder.\<close>

definition packet_ok :: "bytes \<Rightarrow> bool" where
  "packet_ok d \<longleftrightarrow> length d < 2 ^ 31 \<and> (93 \<le> length d \<longrightarrow> 93 + wire_plen d < 2 ^ 32)"

definition node_ok :: "('a \<Rightarrow> bool) \<Rightarrow> 'a bc_router \<Rightarrow> 'a world_scheme \<Rightarrow> bool" where
  "node_ok J r w \<longleftrightarrow> router_ports J r \<and> router_wf r \<and> J (ext w)"

definition mesh_ok :: "('n \<Rightarrow> 'a \<Rightarrow> bool) \<Rightarrow> ('n, 'a) mesh \<Rightarrow> bool" where
  "mesh_ok J M \<longleftrightarrow> (\<forall>j. node_ok (J j) (router_of M j) (world_of M j)) \<and> (\<forall>j d. (j, d) \<in># m_air M \<longrightarrow> packet_ok d)"

section \<open>One packet at one node\<close>

text \<open>A message as a packet.\<close>

lemma wire_packet:
  assumes "storable m" "93 + msg_payload_len m < 2 ^ 31"
  shows "packet_ok (wire m)" "decode (wire m) = m" "length (wire m) = 93 + msg_payload_len m"
proof -
  have wf: "message_wf m" "msg_payload_len m < 2 ^ 32" using assms by (simp_all add: storable_def)
  show l: "length (wire m) = 93 + msg_payload_len m" using wire_length [OF wf(1)] .
  show "decode (wire m) = m" using decode_wire [OF wf, of "[]"] by simp
  show "packet_ok (wire m)" using l assms(2) wire_plen_wire [OF wf, of "[]"] by (simp add: packet_ok_def)
qed

text \<open>
  What a packet does to a node: nothing that shows (undecodable, duplicate), or it is new and the
  node reacts to it.
\<close>

lemma receive_summary:
  assumes ok: "node_ok J r w" and d: "packet_ok d"
    and rc: "bc_router_receive (Some r) (Some d) (length d) w = Some (rc, ro, w')"
  obtains (inert) "ro = Some r" "w_trace w' = w_trace w" "ext w' = ext w"
  | (new) r' es where "ro = Some r'" "same_but_seen r r'" "node_ok J r' w'" "w_trace w' = w_trace w @ es" "storable (decode d)"
      "93 + msg_payload_len (decode d) \<le> length d" "93 \<le> length d"
      "reaction r (\<forall>k. w_heap w k (93 + msg_payload_len (decode d))) (decode d) es"
      "seen r' (msg_uuid (decode d))" "\<not> seen r (msg_uuid (decode d))"
proof -
  have n: "router_ports J r" "router_wf r" "J (ext w)" using ok by (simp_all add: node_ok_def)
  have l: "length d < 2 ^ 31" "93 \<le> length d \<Longrightarrow> 93 + wire_plen d < 2 ^ 32" using d by (simp_all add: packet_ok_def)
  obtain mo w1 where des: "bc_message_deserialize (Some d) (length d) w = Some (mo, w1)"
    using deserialize_total [OF order.refl l(2)] .
  show thesis
  proof (cases mo)
    case None
    have "ext w1 = ext w" "w_trace w1 = w_trace w" using des None deserialize_None [of "Some d" "length d" w w1] by simp_all
    moreover have "ro = Some r \<and> (w' = w \<or> w' = w1)"
      using receive_undecodable [of "length d" d w w1 r] des None rc by (cases "d = []") (auto simp: bc_router_receive_def)
    ultimately show thesis using inert by auto
  next
    case (Some m)
    note des = des [unfolded Some]
    note m = decoded_storable [OF des order.refl l(1)]
    show thesis
    proof (cases "seen r (msg_uuid m)")
      case True
      with receive_duplicate [OF m(7) des True] rc m show thesis by (intro inert) auto
    next
      case False
      from receive_decoded [OF n des order.refl l(1)] rc obtain r' es where
        r': "ro = Some r'" "router_wf r'" "same_but_seen r r'" "seen r' (msg_uuid m)" "J (ext w')" "w_trace w' = w_trace w @ es"
          "reaction r (\<forall>k. w_heap w k (93 + msg_payload_len m)) m es" by auto
      have "node_ok J r' w'" using r'(2,3,5) same_but_seen_ports [OF r'(3) n(1)] by (simp add: node_ok_def)
      moreover have "93 + msg_payload_len m \<le> length d" "93 \<le> length d"
        using deserialize_Some [OF des order.refl] m(9) by (simp_all add: decode_def)
      ultimately show thesis using r' m(1,9) False by (intro new [of r' es]) simp_all
    qed
  qed
qed

lemma reaction_cases [consumes 1, case_names none local relay]:
  fixes m :: bc_message
  defines "m' \<equiv> m\<lparr>msg_ttl := msg_ttl m - 1\<rparr>"
  assumes "reaction r mem m es"
  obtains "es = []" "seen r (msg_uuid m) \<or> msg_ttl m = 0"
  | "\<not> seen r (msg_uuid m)" "msg_ttl m \<noteq> 0" "msg_receiver_pubkey m = r_local_pubkey r"
      "if r_on_message r = None then es = [] else \<exists>us. es = Delivered m' # us \<and> (\<forall>e\<in>set us. to_user e)"
  | st fw where "\<not> seen r (msg_uuid m)" "msg_ttl m \<noteq> 0" "msg_receiver_pubkey m \<noteq> r_local_pubkey r" "es = st @ fw"
      "if has_store r then \<exists>rc. st = [Stored m' rc] else st = []"
      "fw = [] \<and> \<not> mem \<or> (\<exists>rcs. gossiped r (wire m') rcs \<and> fw = sends (wire m') (known_peers r) rcs)"
proof -
  consider "seen r (msg_uuid m) \<or> msg_ttl m = 0"
    | "(seen r (msg_uuid m) \<or> msg_ttl m = 0) = False" "msg_receiver_pubkey m = r_local_pubkey r"
    | "(seen r (msg_uuid m) \<or> msg_ttl m = 0) = False" "(msg_receiver_pubkey m = r_local_pubkey r) = False" by auto
  then show thesis
  proof cases
    case 1
    with assms(2) that(1) show thesis by (simp add: reaction_def)
  next
    case 2
    then show thesis by (intro that(2)) (use assms(2) in \<open>simp_all add: reaction_def Let_def m'_def\<close>)
  next
    case 3
    from assms(2) obtain st fw where "es = st @ fw" "if has_store r then \<exists>rc. st = [Stored m' rc] else st = []"
        "fw = [] \<and> \<not> mem \<or> (\<exists>rcs. gossiped r (wire m') rcs \<and> fw = sends (wire m') (known_peers r) rcs)"
      unfolding reaction_def Let_def 3 m'_def [symmetric] if_False by blast
    with 3 show thesis by (intro that(3)) simp_all
  qed
qed

text \<open>All packets that a reaction sends are the message with one hop less.\<close>

lemma reaction_sent:
  assumes "reaction r mem m es" "Sent pk d rc \<in> set es"
  shows "d = wire (m\<lparr>msg_ttl := msg_ttl m - 1\<rparr>) \<and> msg_ttl m \<noteq> 0 \<and> msg_receiver_pubkey m \<noteq> r_local_pubkey r"
  using assms
proof (cases rule: reaction_cases)
  case none
  with assms(2) show ?thesis by simp
next
  case local
  with assms(2) show ?thesis by (auto simp: to_user_def split: if_splits)
next
  case (relay st fw)
  have "Sent pk d rc \<in> set fw" using relay(4,5) assms(2) by (auto split: if_splits)
  with relay(2,3,6) show ?thesis by (auto simp: sends_def)
qed

text \<open>The hops a packet has left, counting the one that brings it to its receiver.\<close>

definition hops :: "bytes \<Rightarrow> nat" where
  "hops d = (if length d < 93 then 0 else Suc (unat (msg_ttl (decode d))))"

lemma unat_pred: "(t :: u8) \<noteq> 0 \<Longrightarrow> Suc (unat (t - 1)) = unat t"
  by (simp add: unat_minus_one unat_gt_0)

lemma reaction_hops:
  assumes "packet_ok d" "storable (decode d)" "93 + msg_payload_len (decode d) \<le> length d" "93 \<le> length d"
    "reaction r mem (decode d) es" "Sent pk d' rc \<in> set es"
  shows "packet_ok d'" "hops d' < hops d"
proof -
  let ?m = "decode d\<lparr>msg_ttl := msg_ttl (decode d) - 1\<rparr>"
  note s = reaction_sent [OF assms(5,6)]
  have "storable ?m" "93 + msg_payload_len ?m < 2 ^ 31" using assms(1-3) by (simp_all add: packet_ok_def)
  note p = wire_packet [OF this]
  show "packet_ok d'" using p(1) s by simp
  have "hops d' = Suc (unat (msg_ttl ?m))" using p(2,3) s by (simp add: hops_def)
  then show "hops d' < hops d" using unat_pred [of "msg_ttl (decode d)"] s assms(4) by (simp add: hops_def)
qed

section \<open>Gossip dies out\<close>

lemma mesh_okD: "mesh_ok J M \<Longrightarrow> m_node M j = (r, w) \<Longrightarrow> node_ok (J j) r w"
  unfolding mesh_ok_def by (metis fst_conv snd_conv)

lemma hop_ok:
  assumes ok: "mesh_ok J M" and h: "hop b link M M'"
  shows "mesh_ok J M'"
    "\<exists>j d B A. m_air M = add_mset (j, d) B \<and> m_air M' = B + A \<and> (\<forall>(i, d')\<in>#A. hops d' < hops d)"
proof -
  from h obtain j d B r w rc r' w' es A where a: "m_air M = add_mset (j, d) B" "m_node M j = (r, w)"
      "bc_router_receive (Some r) (Some d) (length d) w = Some (rc, Some r', w')" "w_trace w' = w_trace w @ es"
      "carried b link j es A" "M' = M\<lparr>m_node := (m_node M)(j := (r', w')), m_air := B + A\<rparr>"
    by (rule hopE) (rule that)
  have d: "packet_ok d" "\<forall>i d. (i, d) \<in># B \<longrightarrow> packet_ok d" using ok a(1) by (auto simp: mesh_ok_def)
  have n: "node_ok (J j) r w" using mesh_okD [OF ok a(2)] .
  have "node_ok (J j) r' w' \<and> (\<forall>(i, d')\<in>#A. packet_ok d' \<and> hops d' < hops d)"
    using n d(1) a(3)
  proof (cases rule: receive_summary)
    case inert
    then have "es = []" using a(4) by simp
    with inert n a(5) show ?thesis by (simp add: node_ok_def carried_none)
  next
    case (new r'' es')
    have "es' = es" using new(4) a(4) by simp
    then have "packet_ok d' \<and> hops d' < hops d" if "(i, d') \<in># A" for i d'
      using reaction_hops [OF d(1) new(5-8)] a(5) that unfolding carried_def by blast
    with new(1,3) show ?thesis by auto
  qed
  then have n': "node_ok (J j) r' w'" and A: "\<forall>(i, d')\<in>#A. packet_ok d'" "\<forall>(i, d')\<in>#A. hops d' < hops d" by auto
  show "mesh_ok J M'" using ok a(6) d(2) n' A(1) by (auto simp: mesh_ok_def)
  show "\<exists>j d B A. m_air M = add_mset (j, d) B \<and> m_air M' = B + A \<and> (\<forall>(i, d')\<in>#A. hops d' < hops d)"
    using a(1,6) A(2) by (intro exI [of _ j] exI [of _ d] exI [of _ B] exI [of _ A]) simp
qed

lemma fade_ok:
  assumes "mesh_ok J M" "fade M M'"
  shows "mesh_ok J M'" "\<exists>j d. m_air M = add_mset (j, d) (m_air M')"
  using assms by (auto simp: mesh_ok_def elim!: fadeE)

lemma mesh_step_ok:
  assumes ok: "mesh_ok J M" and s: "mesh_step link M M'"
  shows "mesh_ok J M'" "(image_mset (\<lambda>(j, d). hops d) (m_air M'), image_mset (\<lambda>(j, d). hops d) (m_air M)) \<in> mult less_than"
proof -
  show "mesh_ok J M'" using s hop_ok(1) [OF ok] fade_ok(1) [OF ok] by (auto simp: mesh_step_def)
  obtain j d B A where a: "m_air M = add_mset (j, d) B" "m_air M' = B + A" "\<forall>(i, d')\<in>#A. hops d' < hops d"
  proof (cases "fade M M'")
    case True
    then obtain j d where "m_air M = add_mset (j, d) (m_air M')" using fade_ok(2) [OF ok] by blast
    then show thesis by (rule that [where A = "{#}"]) simp_all
  qed (use s hop_ok(2) [OF ok] that in \<open>unfold mesh_step_def, blast\<close>)
  have "(image_mset (\<lambda>(j, d). hops d) B + image_mset (\<lambda>(j, d). hops d) A, image_mset (\<lambda>(j, d). hops d) B + {#hops d#}) \<in> mult less_than"
    using a(3) by (intro one_step_implies_mult) auto
  then show "(image_mset (\<lambda>(j, d). hops d) (m_air M'), image_mset (\<lambda>(j, d). hops d) (m_air M)) \<in> mult less_than"
    using a(1,2) by simp
qed

lemma wf_mesh: "wf {(M', M). mesh_ok J M \<and> mesh_step link M M'}"
proof (rule wf_subset [OF wf_inv_image [OF wf_mult [OF wf_less_than]]])
  show "{(M', M). mesh_ok J M \<and> mesh_step link M M'}
    \<subseteq> inv_image (mult less_than) (\<lambda>M. image_mset (\<lambda>(j, d). hops d) (m_air M))"
    using mesh_step_ok(2) by (auto simp: in_inv_image)
qed

text \<open>The next packet can always be handled: some medium step follows, and a faithful one too.\<close>

lemma carried_exists:
  assumes "\<And>pk. finite (link i pk)"
  shows "\<exists>A. carried True link i es A"
proof -
  define P where "P e = (case e of Sent pk d rc \<Rightarrow> (\<lambda>j. (j, d)) ` link i pk | _ \<Rightarrow> {})" for e
  have P: "finite (P e)" "(j, d) \<in> P e \<longleftrightarrow> (\<exists>pk rc. e = Sent pk d rc \<and> j \<in> link i pk)" for e j d
    using assms by (cases e; auto simp: P_def)+
  have "carried True link i es (mset_set (\<Union>e\<in>set es. P e))" by (auto simp: carried_def P)
  then show ?thesis ..
qed

lemma hop_progress:
  assumes ok: "mesh_ok J M" and fin: "\<And>i pk. finite (link i pk)" and air: "m_air M \<noteq> {#}"
  shows "\<exists>M'. hop True link M M'"
proof -
  obtain j d B where b: "m_air M = add_mset (j, d) B" using air by (metis multiset_cases surj_pair)
  obtain r w where n: "m_node M j = (r, w)" by force
  have o: "router_ports (J j) r" "router_wf r" "J j (ext w)" using mesh_okD [OF ok n] by (simp_all add: node_ok_def)
  have d: "length d < 2 ^ 31" "93 \<le> length d \<Longrightarrow> 93 + wire_plen d < 2 ^ 32"
    using ok b by (auto simp: mesh_ok_def packet_ok_def)
  obtain rc r' w' es where r: "bc_router_receive (Some r) (Some d) (length d) w = Some (rc, Some r', w')" "w_trace w' = w_trace w @ es"
    using receive_total [OF o order.refl d] unfolding grows_def by blast
  obtain A where "carried True link j es A" using carried_exists [of link j es] fin by blast
  from hop.hop [OF b n r this] show ?thesis ..
qed

lemma quiet_run:
  assumes "mesh_ok J M" and fin: "\<And>i pk. finite (link i pk)"
  shows "\<exists>M'. (hop True link)\<^sup>*\<^sup>* M M' \<and> m_air M' = {#} \<and> mesh_ok J M'"
  using assms(1)
proof (induction M rule: wf_induct_rule [OF wf_mesh [of J link]])
  case (1 M)
  show ?case
  proof (cases "m_air M = {#}")
    case False
    obtain M1 where h: "hop True link M M1" using hop_progress [OF 1(2) fin False] ..
    with 1 hop_ok(1) [OF 1(2) h] hop_step [OF h] obtain M' where "(hop True link)\<^sup>*\<^sup>* M1 M'" "m_air M' = {#}" "mesh_ok J M'"
      by blast
    with h show ?thesis by (blast intro: converse_rtranclp_into_rtranclp)
  qed (use 1 in blast)
qed

section \<open>Every node reacts once\<close>

text \<open>The run of one message: every packet in the air is a copy of it with some hop count.\<close>

definition copies :: "bc_message \<Rightarrow> ('n, 'a) mesh \<Rightarrow> bool" where
  "copies m M \<longleftrightarrow> (\<forall>j d. (j, d) \<in># m_air M \<longrightarrow> (\<exists>t. d = wire (m\<lparr>msg_ttl := t\<rparr>)))"

definition once :: "bc_message \<Rightarrow> ('n, 'a) mesh \<Rightarrow> ('n, 'a) mesh \<Rightarrow> 'n \<Rightarrow> bool" where
  "once m M0 M j \<longleftrightarrow>
     (\<not> seen (router_of M j) (msg_uuid m) \<longrightarrow> router_of M j = router_of M0 j \<and> w_trace (world_of M j) = w_trace (world_of M0 j)) \<and>
     (\<exists>es mem t. w_trace (world_of M j) = w_trace (world_of M0 j) @ es \<and> reaction (router_of M0 j) mem (m\<lparr>msg_ttl := t\<rparr>) es)"

lemma copy_packet:
  assumes "storable m" "93 + msg_payload_len m < 2 ^ 31"
  shows "decode (wire (m\<lparr>msg_ttl := t\<rparr>)) = m\<lparr>msg_ttl := t\<rparr>" "length (wire (m\<lparr>msg_ttl := t\<rparr>)) = 93 + msg_payload_len m"
    "packet_ok (wire (m\<lparr>msg_ttl := t\<rparr>))"
  using wire_packet [of "m\<lparr>msg_ttl := t\<rparr>"] assms by simp_all

lemma hop_once:
  assumes m: "storable m" "93 + msg_payload_len m < 2 ^ 31" and ok: "mesh_ok J M" and cp: "copies m M" and once: "\<And>j. once m M0 M j"
    and h: "hop b link M M'"
  shows "copies m M'" "once m M0 M' i"
proof -
  from h obtain j d B r w rc r' w' es A where a: "m_air M = add_mset (j, d) B" "m_node M j = (r, w)"
      "bc_router_receive (Some r) (Some d) (length d) w = Some (rc, Some r', w')" "w_trace w' = w_trace w @ es"
      "carried b link j es A" "M' = M\<lparr>m_node := (m_node M)(j := (r', w')), m_air := B + A\<rparr>"
    by (rule hopE) (rule that)
  obtain t where t: "d = wire (m\<lparr>msg_ttl := t\<rparr>)" using cp a(1) by (auto simp: copies_def)
  note c = copy_packet [OF m, of t, folded t]
  have n: "node_ok (J j) r w" using mesh_okD [OF ok a(2)] .
  have "(\<forall>pk d rc. Sent pk d rc \<in> set es \<longrightarrow> (\<exists>t. d = wire (m\<lparr>msg_ttl := t\<rparr>))) \<and> once m M0 M' j"
    using n c(3) a(3)
  proof (cases rule: receive_summary)
    case inert
    then have "es = []" "r' = r" using a(4) by simp_all
    with once [of j] inert a(2,6) show ?thesis by (simp add: once_def)
  next
    case (new r'' es')
    have "es' = es" "r'' = r'" using new(1,4) a(4) by simp_all
    with new c(1) have re: "reaction r (\<forall>k. w_heap w k (93 + msg_payload_len m)) (m\<lparr>msg_ttl := t\<rparr>) es" and
      s: "seen r' (msg_uuid m)" "\<not> seen r (msg_uuid m)" by simp_all
    have "once m M0 M' j" using once [of j] a(2,4,6) re s by (auto simp: once_def)
    moreover have "\<exists>t. d = wire (m\<lparr>msg_ttl := t\<rparr>)" if "Sent pk d rc \<in> set es" for pk d rc
      using reaction_sent [OF re that] by auto
    ultimately show ?thesis by blast
  qed
  then have es: "\<And>pk d rc. Sent pk d rc \<in> set es \<Longrightarrow> \<exists>t. d = wire (m\<lparr>msg_ttl := t\<rparr>)" and j: "once m M0 M' j" by blast+
  show "once m M0 M' i" using j once [of i] a(6) by (cases "i = j") (simp_all add: once_def)
  have "\<exists>t. d = wire (m\<lparr>msg_ttl := t\<rparr>)" if "(i, d) \<in># A" for i d using a(5) es that unfolding carried_def by blast
  with cp a(1,6) show "copies m M'" unfolding copies_def by auto
qed

lemma run_once:
  assumes m: "storable m" "93 + msg_payload_len m < 2 ^ 31" and ok: "mesh_ok J M0" and cp: "copies m M0"
    and run: "(mesh_step link)\<^sup>*\<^sup>* M0 M"
  shows "mesh_ok J M \<and> copies m M \<and> (\<forall>j. once m M0 M j)"
  using run
proof (induction rule: rtranclp_induct)
  case base
  have "reaction (router_of M0 j) True (m\<lparr>msg_ttl := 0\<rparr>) []" for j by (simp add: reaction_def)
  with ok cp show ?case unfolding once_def by auto
next
  case (step M M')
  have "mesh_ok J M'" using mesh_step_ok(1) [of J M link M'] step by blast
  moreover have "copies m M' \<and> (\<forall>j. once m M0 M' j)"
  proof (cases "fade M M'")
    case True
    with step.IH show ?thesis by (auto simp: copies_def once_def elim!: fadeE)
  next
    case False
    with step.hyps(2) have "hop False link M M'" by (simp add: mesh_step_def)
    then show ?thesis using hop_once [OF m, of J M M0 False link M'] step.IH by blast
  qed
  ultimately show ?case by blast
qed

text \<open>A reaction delivers at most once and calls \<open>send\<close> at most once for each peer.\<close>

lemma reaction_counts:
  assumes "reaction r mem m es"
  shows "length (filter (\<lambda>e. \<exists>x. e = Delivered x) es) \<le> 1"
    "length (filter (\<lambda>e. \<exists>pk d rc. e = Sent pk d rc) es) \<le> r_peer_count r"
proof -
  have user: "filter (\<lambda>e. \<exists>x. e = Delivered x) us = []" "filter (\<lambda>e. \<exists>pk d rc. e = Sent pk d rc) us = []"
    if "\<forall>e\<in>set us. to_user e" for us
    using that by (auto simp: filter_empty_conv to_user_def)
  have sent: "filter (\<lambda>e. \<exists>x. e = Delivered x) (sends d ps rcs) = []" for d ps rcs by (auto simp: filter_empty_conv sends_def)
  have "length (filter (\<lambda>e. \<exists>x. e = Delivered x) es) \<le> 1 \<and> length (filter (\<lambda>e. \<exists>pk d rc. e = Sent pk d rc) es) \<le> r_peer_count r"
    using assms
  proof (cases rule: reaction_cases)
    case local
    then show ?thesis by (auto simp: user split: if_splits)
  next
    case (relay st fw)
    have "length fw \<le> r_peer_count r" using relay(6) by (auto simp: gossiped_def sends_def)
    then have "length (filter (\<lambda>e. \<exists>pk d rc. e = Sent pk d rc) fw) \<le> r_peer_count r" by (rule le_trans [OF length_filter_le])
    moreover have "filter (\<lambda>e. \<exists>x. e = Delivered x) fw = []" using relay(6) sent by auto
    ultimately show ?thesis using relay(4,5) by (auto split: if_splits)
  qed simp
  then show "length (filter (\<lambda>e. \<exists>x. e = Delivered x) es) \<le> 1"
    "length (filter (\<lambda>e. \<exists>pk d rc. e = Sent pk d rc) es) \<le> r_peer_count r" by blast+
qed

section \<open>Without losses every connected node is reached\<close>

text \<open>A router that serves all its peers: they are no more than the fanout, and there is a transport to send with.\<close>

definition eager :: "'a bc_router \<Rightarrow> bool" where
  "eager r \<longleftrightarrow> r_peer_count r \<le> unat (cfg_fanout (r_config r)) \<and> (\<exists>t. r_transport r = Some t \<and> tr_send t \<noteq> None)"

lemma gossip_all:
  assumes "eager r" "router_wf r" "gossiped r d rcs" "p \<in> set (known_peers r)"
  shows "\<exists>rc. Sent (peer_pubkey p) d rc \<in> set (sends d (known_peers r) rcs)"
proof -
  have "oks rcs \<le> length rcs" by (simp add: oks_def)
  then have "length rcs = r_peer_count r" using assms(1,3) by (auto simp: eager_def gossiped_def)
  moreover have "length (known_peers r) = r_peer_count r" using assms(2) by (simp add: router_wf_def known_peers_def)
  moreover obtain k where k: "k < length (known_peers r)" "known_peers r ! k = p" using assms(4) by (auto simp: in_set_conv_nth)
  ultimately have "(p, rcs ! k) \<in> set (zip (known_peers r) rcs)" by (force simp: set_zip)
  then show ?thesis unfolding sends_def by force
qed

lemma reaction_feeds:
  assumes "reaction r True m es" "eager r" "router_wf r" "\<not> seen r (msg_uuid m)" "msg_ttl m \<noteq> 0"
    "msg_receiver_pubkey m \<noteq> r_local_pubkey r" "p \<in> set (known_peers r)"
  shows "\<exists>d rc. Sent (peer_pubkey p) d rc \<in> set es"
  using assms(1)
proof (cases rule: reaction_cases)
  case (relay st fw)
  then obtain rcs where "gossiped r (wire (m\<lparr>msg_ttl := msg_ttl m - 1\<rparr>)) rcs"
      "fw = sends (wire (m\<lparr>msg_ttl := msg_ttl m - 1\<rparr>)) (known_peers r) rcs" by blast
  with gossip_all [OF assms(2,3) _ assms(7)] relay(4) show ?thesis by fastforce
qed (use assms in simp_all)

text \<open>Node \<open>i\<close> passes the message on to \<open>j\<close>: it is not the receiver, and \<open>j\<close> hears it.\<close>

definition feeds :: "'n medium \<Rightarrow> ('n, 'a) mesh \<Rightarrow> bc_message \<Rightarrow> 'n \<Rightarrow> 'n \<Rightarrow> bool" where
  "feeds link M m i j \<longleftrightarrow> r_local_pubkey (router_of M i) \<noteq> msg_receiver_pubkey m \<and>
     (\<exists>p\<in>set (known_peers (router_of M i)). j \<in> link i (peer_pubkey p))"

text \<open>
  The network before the message: it is silent, none of its nodes knows the message, they have
  memory and serve all their peers, and they are at most one more than the hop count.
\<close>

definition flood_ready :: "('n \<Rightarrow> 'a \<Rightarrow> bool) \<Rightarrow> 'n medium \<Rightarrow> 'n set \<Rightarrow> bc_message \<Rightarrow> ('n, 'a) mesh \<Rightarrow> bool" where
  "flood_ready J link V m M \<longleftrightarrow> mesh_ok J M \<and> m_air M = {#} \<and> finite V \<and> (\<forall>i pk. link i pk \<subseteq> V) \<and>
     storable m \<and> 93 + msg_payload_len m < 2 ^ 31 \<and> card V \<le> Suc (unat (msg_ttl m)) \<and>
     (\<forall>j\<in>V. \<not> seen (router_of M j) (msg_uuid m) \<and> eager (router_of M j) \<and> heap_ok (world_of M j))"

definition holders :: "'n set \<Rightarrow> bc_message \<Rightarrow> ('n, 'a) mesh \<Rightarrow> 'n set" where
  "holders V m M = {j\<in>V. seen (router_of M j) (msg_uuid m)}"

text \<open>
  Node \<open>j\<close> has accepted the message: its router and its adapters' state are those after one successful
  \<open>bc_router_receive\<close> of a copy with hops left, whatever other copies have arrived since.
\<close>

definition accepted :: "bc_message \<Rightarrow> ('n, 'a) mesh \<Rightarrow> ('n, 'a) mesh \<Rightarrow> 'n \<Rightarrow> bool" where
  "accepted m M0 M j \<longleftrightarrow> (\<exists>t w1. t \<noteq> 0 \<and>
     bc_router_receive (Some (router_of M0 j)) (Some (wire (m\<lparr>msg_ttl := t\<rparr>))) (length (wire m)) (world_of M0 j)
       = Some (BC_OK, Some (router_of M j), w1) \<and>
     ext (world_of M j) = ext w1 \<and> w_trace (world_of M j) = w_trace w1)"

definition flood_inv :: "('n \<Rightarrow> 'a \<Rightarrow> bool) \<Rightarrow> 'n medium \<Rightarrow> 'n set \<Rightarrow> bc_message \<Rightarrow> ('n, 'a) mesh \<Rightarrow> 'n \<Rightarrow> ('n, 'a) mesh \<Rightarrow> bool" where
  "flood_inv J link V m M0 i0 M \<longleftrightarrow> mesh_ok J M \<and> i0 \<in> holders V m M \<and>
     (\<forall>j\<in>V. j \<notin> holders V m M \<longrightarrow> m_node M j = m_node M0 j) \<and>
     (\<forall>j\<in>holders V m M. j \<noteq> i0 \<longrightarrow> accepted m M0 M j) \<and>
     (\<forall>j d. (j, d) \<in># m_air M \<longrightarrow> j \<in> V \<and>
        (\<exists>t. d = wire (m\<lparr>msg_ttl := t\<rparr>) \<and> unat (msg_ttl m) < unat t + card (holders V m M))) \<and>
     (\<forall>i\<in>holders V m M. \<forall>j. feeds link M0 m i j \<longrightarrow> j \<in> holders V m M \<or> (\<exists>d. (j, d) \<in># m_air M))"

lemma flood_invI:
  assumes "mesh_ok J M" "i0 \<in> holders V m M" "\<And>j. j \<in> V \<Longrightarrow> j \<notin> holders V m M \<Longrightarrow> m_node M j = m_node M0 j"
    "\<And>j. j \<in> holders V m M \<Longrightarrow> j \<noteq> i0 \<Longrightarrow> accepted m M0 M j" "\<And>j d. (j, d) \<in># m_air M \<Longrightarrow> j \<in> V"
    "\<And>j d. (j, d) \<in># m_air M \<Longrightarrow> \<exists>t. d = wire (m\<lparr>msg_ttl := t\<rparr>) \<and> unat (msg_ttl m) < unat t + card (holders V m M)"
    "\<And>i j. i \<in> holders V m M \<Longrightarrow> feeds link M0 m i j \<Longrightarrow> j \<notin> holders V m M \<Longrightarrow> \<exists>d. (j, d) \<in># m_air M"
  shows "flood_inv J link V m M0 i0 M"
  unfolding flood_inv_def using assms by blast

lemma flood_invD:
  assumes "flood_inv J link V m M0 i0 M"
  shows "mesh_ok J M" "i0 \<in> holders V m M" "j \<in> V \<Longrightarrow> j \<notin> holders V m M \<Longrightarrow> m_node M j = m_node M0 j"
    "j \<in> holders V m M \<Longrightarrow> j \<noteq> i0 \<Longrightarrow> accepted m M0 M j" "(j, d) \<in># m_air M \<Longrightarrow> j \<in> V"
    "(j, d) \<in># m_air M \<Longrightarrow> \<exists>t. d = wire (m\<lparr>msg_ttl := t\<rparr>) \<and> unat (msg_ttl m) < unat t + card (holders V m M)"
    "i \<in> holders V m M \<Longrightarrow> feeds link M0 m i j \<Longrightarrow> j \<notin> holders V m M \<Longrightarrow> \<exists>d. (j, d) \<in># m_air M"
  using assms unfolding flood_inv_def by blast+

text \<open>A copy at a node that has the message changes nothing that matters.\<close>

lemma flood_hop_old:
  assumes inv: "flood_inv J link V m M0 i0 M" and air: "m_air M = add_mset (j, d) B" and j: "j \<in> holders V m M"
    and n: "m_node M j = (r, w)" and w': "w_trace w' = w_trace w" "ext w' = ext w"
    and ok: "mesh_ok J (M\<lparr>m_node := (m_node M)(j := (r, w')), m_air := B\<rparr>)"
  shows "flood_inv J link V m M0 i0 (M\<lparr>m_node := (m_node M)(j := (r, w')), m_air := B\<rparr>)" (is "flood_inv _ _ _ _ _ _ ?M")
proof -
  have rt: "router_of ?M i = router_of M i" "w_trace (world_of ?M i) = w_trace (world_of M i)" "ext (world_of ?M i) = ext (world_of M i)" for i
    using n w' by (cases "i = j"; simp)+
  have h: "holders V m ?M = holders V m M" unfolding holders_def rt ..
  have acc: "accepted m M0 ?M i = accepted m M0 M i" for i unfolding accepted_def rt ..
  note D = flood_invD [OF inv]
  show ?thesis
  proof (rule flood_invI; (unfold h acc)?)
    fix i assume "i \<in> V" "i \<notin> holders V m M"
    then show "m_node ?M i = m_node M0 i" using D(3) j by auto
  next
    fix i i' assume a: "i \<in> holders V m M" "feeds link M0 m i i'" "i' \<notin> holders V m M"
    then obtain d' where "(i', d') \<in># m_air M" using D(7) by blast
    then show "\<exists>d. (i', d) \<in># m_air ?M" using air a(3) j by auto
  next
    fix i d' assume "(i, d') \<in># m_air ?M"
    then have "(i, d') \<in># m_air M" using air by simp
    then show "i \<in> V" "\<exists>t. d' = wire (m\<lparr>msg_ttl := t\<rparr>) \<and> unat (msg_ttl m) < unat t + card (holders V m M)"
      using D(5,6) by blast+
  qed (use ok D(2,4) in blast)+
qed

text \<open>The first copy at a node is accepted, since it has hops left.\<close>

lemma flood_accept:
  assumes ready: "flood_ready J link V m M0" and inv: "flood_inv J link V m M0 i0 M"
    and air: "(j, d) \<in># m_air M" and j: "j \<notin> holders V m M" and n: "m_node M j = (r, w)"
    and recv: "bc_router_receive (Some r) (Some d) (length d) w = Some (rc, Some r', w')" and tr: "w_trace w' = w_trace w @ es"
  obtains t where "d = wire (m\<lparr>msg_ttl := t\<rparr>)" "t \<noteq> 0" "unat (msg_ttl m) < unat t + card (holders V m M)" "length d = length (wire m)"
    "rc = BC_OK" "seen r' (msg_uuid m)" "reaction r True (m\<lparr>msg_ttl := t\<rparr>) es" "m_node M0 j = (r, w)" "j \<in> V" "finite V"
    "eager r" "router_wf r" "\<not> seen r (msg_uuid m)"
proof -
  note D = flood_invD [OF inv]
  have R: "finite V" "storable m" "93 + msg_payload_len m < 2 ^ 31" "card V \<le> Suc (unat (msg_ttl m))"
      "\<And>j. j \<in> V \<Longrightarrow> \<not> seen (router_of M0 j) (msg_uuid m) \<and> eager (router_of M0 j) \<and> heap_ok (world_of M0 j)"
    using ready by (auto simp: flood_ready_def)
  obtain t where jV: "j \<in> V" and t: "d = wire (m\<lparr>msg_ttl := t\<rparr>)" "unat (msg_ttl m) < unat t + card (holders V m M)"
    using D(5,6) air by blast
  have "card (holders V m M) < card V" using jV j R(1) by (intro psubset_card_mono) (auto simp: holders_def)
  then have t0: "t \<noteq> 0" using t(2) R(4) by auto
  have n0: "m_node M0 j = (r, w)" using D(3) [OF jV j] n by simp
  have o: "router_ports (J j) r" "router_wf r" "J j (ext w)" using mesh_okD [OF D(1) n] by (simp_all add: node_ok_def)
  have new: "\<not> seen r (msg_uuid (m\<lparr>msg_ttl := t\<rparr>))" "eager r" "heap_ok w" using R(5) [OF jV] n0 by simp_all
  note c = copy_packet(2) [OF R(2,3), of t, folded t(1)] wire_packet(3) [OF R(2,3)]
  have wf: "message_wf (m\<lparr>msg_ttl := t\<rparr>)" using R(2) by (simp add: storable_def message_wf_ttl)
  obtain w1 where des: "bc_message_deserialize (Some d) (length d) w = Some (Some (m\<lparr>msg_ttl := t\<rparr>), w1)"
    using deserialize_wire [OF wf, of "length d" "[]" w] c new(3) R(3) by (auto simp: heap_ok_def t(1))
  have l31: "length d < 2 ^ 31" using c(1) R(3) by simp
  from receive_new [OF o des order.refl l31 new(1)] t0 recv tr have "rc = BC_OK" "seen r' (msg_uuid m)"
    "reaction r True (m\<lparr>msg_ttl := t\<rparr>) es" using new(3) by (auto simp: heap_ok_def)
  with that [of t] t t0 c n0 jV R(1) new o(2) show thesis by simp
qed

text \<open>It goes on to all nodes that hear the node, and the invariant is kept.\<close>

lemma flood_hop_new:
  assumes ready: "flood_ready J link V m M0" and inv: "flood_inv J link V m M0 i0 M"
    and air: "m_air M = add_mset (j, d) B" and j: "j \<notin> holders V m M" and n: "m_node M j = (r, w)"
    and recv: "bc_router_receive (Some r) (Some d) (length d) w = Some (rc, Some r', w')"
    and tr: "w_trace w' = w_trace w @ es" and car: "carried True link j es A"
    and ok: "mesh_ok J (M\<lparr>m_node := (m_node M)(j := (r', w')), m_air := B + A\<rparr>)"
  shows "flood_inv J link V m M0 i0 (M\<lparr>m_node := (m_node M)(j := (r', w')), m_air := B + A\<rparr>)" (is "flood_inv _ _ _ _ _ _ ?M")
proof -
  note D = flood_invD [OF inv]
  have "(j, d) \<in># m_air M" using air by simp
  from flood_accept [OF ready inv this j n recv tr] obtain t where
    t: "d = wire (m\<lparr>msg_ttl := t\<rparr>)" "t \<noteq> 0" "unat (msg_ttl m) < unat t + card (holders V m M)" "length d = length (wire m)"
    and rc: "rc = BC_OK" "seen r' (msg_uuid m)" and re: "reaction r True (m\<lparr>msg_ttl := t\<rparr>) es"
    and n0: "m_node M0 j = (r, w)" "j \<in> V" "finite V" and new: "eager r" "router_wf r" "\<not> seen r (msg_uuid (m\<lparr>msg_ttl := t\<rparr>))" by auto
  have link: "link i pk \<subseteq> V" for i pk using ready by (simp add: flood_ready_def)
  have h: "holders V m ?M = insert j (holders V m M)" using n0(2) rc(2) by (auto simp: holders_def)
  have card: "card (holders V m ?M) = Suc (card (holders V m M))" unfolding h using j n0(3) by (simp add: holders_def)
  have A: "i \<in> V \<and> d' = wire (m\<lparr>msg_ttl := t - 1\<rparr>)" if "(i, d') \<in># A" for i d'
  proof -
    obtain pk rc where s: "Sent pk d' rc \<in> set es" "i \<in> link j pk" using car \<open>(i, d') \<in># A\<close> unfolding carried_def by blast
    show ?thesis using reaction_sent [OF re s(1)] link s(2) by auto
  qed
  show ?thesis
  proof (rule flood_invI)
    fix i assume "i \<in> holders V m ?M" "i \<noteq> i0"
    then show "accepted m M0 ?M i"
      using D(4) [of i] recv rc(1) t n0(1) by (cases "i = j") (auto simp: h accepted_def)
  next
    fix i d' assume "(i, d') \<in># m_air ?M"
    then have "(i, d') \<in># m_air M \<or> (i, d') \<in># A" using air by auto
    then show "\<exists>t. d' = wire (m\<lparr>msg_ttl := t\<rparr>) \<and> unat (msg_ttl m) < unat t + card (holders V m ?M)"
      using D(6) [of i d'] A t(3) unat_pred [OF t(2)] unfolding card by fastforce
  next
    fix i i' assume a: "i \<in> holders V m ?M" "feeds link M0 m i i'" "i' \<notin> holders V m ?M"
    show "\<exists>d. (i', d) \<in># m_air ?M"
    proof (cases "i = j")
      case False
      then obtain d' where "(i', d') \<in># m_air M" using a D(7) by (auto simp: h)
      then show ?thesis using air a(3) by (auto simp: h)
    next
      case True
      with a(2) n0(1) obtain p where p: "p \<in> set (known_peers r)" "i' \<in> link j (peer_pubkey p)" "msg_receiver_pubkey m \<noteq> r_local_pubkey r"
        by (auto simp: feeds_def)
      obtain d' rc' where "Sent (peer_pubkey p) d' rc' \<in> set es" using reaction_feeds [OF re new _ _ p(1)] t(2) p(3) by auto
      then have "(i', d') \<in># A" using car p(2) unfolding carried_def by blast
      then show ?thesis by auto
    qed
  qed (use ok D A air h in auto)
qed

lemma flood_hop:
  assumes ready: "flood_ready J link V m M0" and inv: "flood_inv J link V m M0 i0 M" and h: "hop True link M M'"
  shows "flood_inv J link V m M0 i0 M'"
proof -
  note ok = flood_invD(1) [OF inv] hop_ok(1) [OF flood_invD(1) [OF inv] h]
  from h obtain j d B r w rc r' w' es A where a: "m_air M = add_mset (j, d) B" "m_node M j = (r, w)"
      "bc_router_receive (Some r) (Some d) (length d) w = Some (rc, Some r', w')" "w_trace w' = w_trace w @ es"
      "carried True link j es A" "M' = M\<lparr>m_node := (m_node M)(j := (r', w')), m_air := B + A\<rparr>"
    by (rule hopE) (rule that)
  show ?thesis
  proof (cases "j \<in> holders V m M")
    case False
    then show ?thesis using flood_hop_new [OF ready inv a(1) False a(2-5)] ok(2) a(6) by simp
  next
    case True
    have m: "storable m" "93 + msg_payload_len m < 2 ^ 31" using ready by (simp_all add: flood_ready_def)
    obtain t where t: "d = wire (m\<lparr>msg_ttl := t\<rparr>)" using flood_invD(6) [OF inv, of j d] a(1) by auto
    have s: "seen r (msg_uuid (decode d))" using True a(2) copy_packet(1) [OF m] by (simp add: holders_def t)
    have "packet_ok d" using ok(1) a(1) by (auto simp: mesh_ok_def)
    with mesh_okD [OF ok(1) a(2)] have "r' = r" "w_trace w' = w_trace w" "ext w' = ext w" "es = []"
      by (rule receive_summary [OF _ _ a(3)]; use s a(4) in simp)+
    moreover have "A = {#}" using a(5) \<open>es = []\<close> by (simp add: carried_none)
    ultimately show ?thesis using flood_hop_old [OF inv a(1) True a(2)] ok(2) a(6) by simp
  qed
qed

text \<open>The origin hands the message to all its peers.\<close>

lemma flood_start:
  assumes ready: "flood_ready J link V m M0" and i: "i \<in> V" and n: "node_ok (J i) r' w'" "seen r' (msg_uuid m)"
    and car: "carried True link i es A" and only: "\<And>pk d rc. Sent pk d rc \<in> set es \<Longrightarrow> d = wire m"
    and all: "\<And>p. p \<in> set (known_peers (router_of M0 i)) \<Longrightarrow> \<exists>d rc. Sent (peer_pubkey p) d rc \<in> set es"
  shows "flood_inv J link V m M0 i (M0\<lparr>m_node := (m_node M0)(i := (r', w')), m_air := A\<rparr>)" (is "flood_inv _ _ _ _ _ _ ?M")
proof -
  have R: "finite V" "\<And>i pk. link i pk \<subseteq> V" "storable m" "93 + msg_payload_len m < 2 ^ 31" "mesh_ok J M0"
      "\<And>j. j \<in> V \<Longrightarrow> \<not> seen (router_of M0 j) (msg_uuid m)"
    using ready by (auto simp: flood_ready_def)
  have h: "holders V m ?M = {i}" using R(6) i n(2) by (auto simp: holders_def)
  have A: "j \<in> V \<and> d = wire m" if a: "(j, d) \<in># A" for j d
  proof -
    obtain pk rc where "Sent pk d rc \<in> set es" "j \<in> link i pk" using car a unfolding carried_def by blast
    then show ?thesis using only R(2) by blast
  qed
  have ok: "mesh_ok J ?M" using R(5) n(1) A wire_packet(1) [OF R(3,4)] by (auto simp: mesh_ok_def)
  show ?thesis
  proof (rule flood_invI; (unfold h)?)
    fix j d assume "(j, d) \<in># m_air ?M"
    then have "d = wire (m\<lparr>msg_ttl := msg_ttl m\<rparr>)" using A by simp
    then show "\<exists>t. d = wire (m\<lparr>msg_ttl := t\<rparr>) \<and> unat (msg_ttl m) < unat t + card {i}" by fastforce
  next
    fix i' j assume "i' \<in> {i}" "feeds link M0 m i' j"
    then obtain p where p: "p \<in> set (known_peers (router_of M0 i))" "j \<in> link i (peer_pubkey p)" by (auto simp: feeds_def)
    then show "\<exists>d. (j, d) \<in># m_air ?M" using all car unfolding carried_def by fastforce
  qed (use ok A in auto)
qed

text \<open>At the end of the run every node that is connected to the origin has accepted the message.\<close>

lemma flood_end:
  assumes ready: "flood_ready J link V m M0" and inv: "flood_inv J link V m M0 i M1"
    and run: "(hop True link)\<^sup>*\<^sup>* M1 M" "m_air M = {#}" and path: "(feeds link M0 m)\<^sup>*\<^sup>* i j" and j: "j \<noteq> i"
  shows "accepted m M0 M j"
proof -
  have inv': "flood_inv J link V m M0 i M" using run(1) inv by (induction rule: rtranclp_induct) (blast intro: flood_hop [OF ready])+
  note D = flood_invD [OF inv']
  from path have "j \<in> holders V m M" by (induction rule: rtranclp_induct) (use D(2,7) run(2) in auto)
  then show ?thesis using D(4) j by blast
qed

text \<open>A node originates a message with \<open>bc_router_broadcast\<close>.\<close>

inductive originate :: "'n medium \<Rightarrow> 'n \<Rightarrow> bc_message \<Rightarrow> ('n, 'a) mesh \<Rightarrow> ('n, 'a) mesh \<Rightarrow> bool" for link i m where
  originate: "m_node M i = (r, w) \<Longrightarrow> bc_router_broadcast (Some r) (Some m) w = Some (rc, Some r', w') \<Longrightarrow>
    w_trace w' = w_trace w @ es \<Longrightarrow> carried True link i es A \<Longrightarrow>
    originate link i m M (M\<lparr>m_node := (m_node M)(i := (r', w')), m_air := m_air M + A\<rparr>)"

inductive_cases originateE: "originate link i m M M'"

lemma broadcast_flood:
  assumes ready: "flood_ready J link V m M0" and i: "i \<in> V" and o: "originate link i m M0 M1"
  shows "flood_inv J link V m M0 i M1"
proof -
  from o obtain r w rc r' w' es A where a: "m_node M0 i = (r, w)" "bc_router_broadcast (Some r) (Some m) w = Some (rc, Some r', w')"
      "w_trace w' = w_trace w @ es" "carried True link i es A" "M1 = M0\<lparr>m_node := (m_node M0)(i := (r', w')), m_air := m_air M0 + A\<rparr>"
    by (rule originateE) (rule that)
  have R: "mesh_ok J M0" "m_air M0 = {#}" "storable m" "eager r" "heap_ok w" using ready i a(1) by (auto simp: flood_ready_def)
  have n: "router_ports (J i) r" "router_wf r" "J i (ext w)" using mesh_okD [OF R(1) a(1)] by (simp_all add: node_ok_def)
  from broadcast_ok [OF n R(3)] R(5) a(2,3) obtain rcs st where b: "router_wf r'" "same_but_seen r r'" "seen r' (msg_uuid m)" "J i (ext w')"
      "gossiped r (wire m) rcs" "es = sends (wire m) (known_peers r) rcs @ st" "st = [] \<or> (\<exists>rc. st = [Stored m rc])"
    by (auto simp: heap_ok_def split: if_splits)
  have "node_ok (J i) r' w'" using b(1,4) same_but_seen_ports [OF b(2) n(1)] by (simp add: node_ok_def)
  moreover have "d = wire m" if "Sent pk d rc \<in> set es" for pk d rc using that b(6,7) by (auto simp: sends_def)
  moreover have "\<exists>d rc. Sent (peer_pubkey p) d rc \<in> set es" if "p \<in> set (known_peers (router_of M0 i))" for p
    using gossip_all [OF R(4) n(2) b(5), of p] that a(1) b(6) by auto
  ultimately show ?thesis using flood_start [OF ready i _ b(3) a(4)] R(2) a(5) by simp
qed

text \<open>
  A chain of three simulator nodes, for the witnesses: each can reach the next one's port, and the
  last one is the receiver of the sample message.
\<close>

definition chain_key :: "nat \<Rightarrow> bytes" where
  "chain_key j = replicate 32 (if j = 2 then 2 else 1)"

definition chain_peers :: "nat \<Rightarrow> bc_peer list" where
  "chain_peers j = (if j < 2 then [port_peer (9001 + of_nat j)] else [])"

definition chain :: "(nat \<times> bytes) multiset \<Rightarrow> (nat, udp_state) mesh" where
  "chain A = \<lparr>m_node = (\<lambda>j. (with_peers (chain_peers j) (udp_node 3 (9000 + of_nat j) [9001 + of_nat j] (chain_key j)), w0)), m_air = A\<rparr>"

definition chain_link :: "nat medium" where
  "chain_link i pk = (if i < 2 then {Suc i} else {})"

lemma chain_simps [simp]:
  "m_air (chain A) = A" "world_of (chain A) j = w0" "known_peers (router_of (chain A) j) = chain_peers j"
  "r_local_pubkey (router_of (chain A) j) = chain_key j" "length u = 16 \<Longrightarrow> \<not> seen (router_of (chain A) j) u"
  "finite (chain_link i pk)" "length (chain_key j) = 32"
  by (simp_all add: chain_def chain_link_def chain_key_def)

lemma chain_ok:
  assumes "\<And>j d. (j, d) \<in># A \<Longrightarrow> packet_ok d"
  shows "mesh_ok (\<lambda>_. udp_inv 0) (chain A)"
proof -
  have "node_ok (udp_inv 0) (router_of (chain A) j) (world_of (chain A) j)" for j
    by (auto simp: node_ok_def chain_def chain_peers_def peers_wf_def intro!: with_peers_ports nd.router_ports_axioms with_peers_wf)
  with assms show ?thesis by (simp add: mesh_ok_def)
qed

lemma chain_eager: "eager (router_of (chain A) j)"
  by (simp add: eager_def chain_def with_peers_def chain_peers_def udp_node_def new_router_def udp_transport_def BC_DEFAULT_FANOUT_def)

lemma sample_flood:
  "storable sample_msg" "93 + msg_payload_len sample_msg < 2 ^ 31" "length (msg_uuid sample_msg) = 16"
  "packet_ok (wire sample_msg)" "flood_ready (\<lambda>_. udp_inv 0) chain_link {0, 1, 2} sample_msg (chain {#})"
proof -
  show m: "storable sample_msg" "93 + msg_payload_len sample_msg < 2 ^ 31" "length (msg_uuid sample_msg) = 16"
    by (simp_all add: sample_msg_def storable_def message_wf_def size_defs)
  show "packet_ok (wire sample_msg)" using wire_packet(1) [OF m(1,2)] .
  have "msg_ttl sample_msg = 3" by (simp add: sample_msg_def)
  then show "flood_ready (\<lambda>_. udp_inv 0) chain_link {0, 1, 2} sample_msg (chain {#})"
    using m chain_ok [of "{#}"] by (auto simp: flood_ready_def chain_eager heap_ok_def chain_link_def)
qed

lemma chain_path: "(feeds chain_link (chain {#}) sample_msg)\<^sup>*\<^sup>* 0 2"
proof -
  have "msg_receiver_pubkey sample_msg = replicate 32 2" by (simp add: sample_msg_def)
  then have f: "feeds chain_link (chain {#}) sample_msg 0 1" "feeds chain_link (chain {#}) sample_msg 1 2"
    by (simp_all add: feeds_def chain_peers_def chain_link_def chain_key_def list_eq_iff_nth_eq exI [of _ 0])
  then show ?thesis by (meson converse_rtranclp_into_rtranclp rtranclp.rtrancl_refl)
qed

lemma originate_exists:
  assumes "mesh_ok J M" "storable m" "\<And>pk. finite (link i pk)"
  shows "\<exists>M'. originate link i m M M'"
proof -
  obtain r w where n: "m_node M i = (r, w)" by force
  have o: "router_ports (J i) r" "router_wf r" "J i (ext w)" using mesh_okD [OF assms(1) n] by (simp_all add: node_ok_def)
  obtain rc r' w' es where b: "bc_router_broadcast (Some r) (Some m) w = Some (rc, Some r', w')" "w_trace w' = w_trace w @ es"
    using broadcast_ok [OF o assms(2)] by blast
  obtain A where "carried True link i es A" using carried_exists [of link i es] assms(3) by blast
  from originate.originate [OF n b this] show ?thesis ..
qed

section \<open>The properties\<close>

text \<open>
  C5. Gossip dies out: from any state of any network whose nodes are in order, with any packets in
  the air, no sequence of arrivals and losses goes on for ever, because every packet a node sends has
  fewer hops left than the one that caused it; and there is a run without losses that ends in silence
  with all nodes in order.
\<close>

theorem mesh_quiesces:
  fixes M :: "('n, 'a) mesh" and link :: "'n medium"
  assumes "mesh_ok J M" "\<And>i pk. finite (link i pk)"
  shows "wf {(M', M :: ('n, 'a) mesh). mesh_ok J M \<and> mesh_step link M M'} \<and>
    (\<exists>M'. (hop True link)\<^sup>*\<^sup>* M M' \<and> m_air M' = {#} \<and> mesh_ok J M')"
  using wf_mesh [of J link] quiet_run [where link = link, OF assms] by blast

theorem mesh_quiesces_witness:
  "\<exists>M'. (hop True chain_link)\<^sup>*\<^sup>* (chain {#(1, wire sample_msg)#}) M' \<and> m_air M' = {#}"
  using mesh_quiesces [OF chain_ok, of "{#(1, wire sample_msg)#}" chain_link] sample_flood(4) by auto



text \<open>
  C3. Every connected node is reached: in a silent network of at most one node more than the hop count
  of the message, whose nodes have memory and no more peers than their fanout, a broadcast over a
  medium without losses ends in silence, and in whatever order the packets arrive, every node that is
  connected to the origin by nodes that pass the message on has then accepted it: it is in the state
  that one successful \<open>bc_router_receive\<close> of a copy with hops left gives.
\<close>

theorem mesh_flood_reaches:
  assumes "flood_ready J link V m M0" "i \<in> V" "originate link i m M0 M1"
  shows "(\<exists>M. (hop True link)\<^sup>*\<^sup>* M1 M \<and> m_air M = {#}) \<and>
    (\<forall>M j. (hop True link)\<^sup>*\<^sup>* M1 M \<and> m_air M = {#} \<and> (feeds link M0 m)\<^sup>*\<^sup>* i j \<and> j \<noteq> i \<longrightarrow> accepted m M0 M j)"
proof -
  note inv = broadcast_flood [OF assms]
  have "finite (link i pk)" for i pk using assms(1) finite_subset unfolding flood_ready_def by metis
  from quiet_run [where link = link, OF flood_invD(1) [OF inv] this] flood_end [OF assms(1) inv] show ?thesis by blast
qed

theorem mesh_flood_reaches_witness:
  "\<exists>M1 M. originate chain_link 0 sample_msg (chain {#}) M1 \<and> (hop True chain_link)\<^sup>*\<^sup>* M1 M \<and> m_air M = {#} \<and>
    accepted sample_msg (chain {#}) M 2"
proof -
  have ok: "mesh_ok (\<lambda>_. udp_inv 0) (chain {#})" by (rule chain_ok) simp
  obtain M1 where M1: "originate chain_link 0 sample_msg (chain {#}) M1" using originate_exists [where link = chain_link, OF ok sample_flood(1) chain_simps(6)] ..
  with mesh_flood_reaches [OF sample_flood(5) _ M1] chain_path show ?thesis by fastforce
qed

end
