(* ===== verification/Mesh_Chat.thy ===== *)
theory Mesh_Chat
  imports Cli_Chat Mesh
begin

text \<open>
  A network of simulator nodes: what one user types is printed at another node that is any number of
  relays away, up to the hop count.
\<close>

section \<open>Simulator nodes as nodes of a mesh\<close>

definition cli_net :: "sodium \<Rightarrow> ('n \<Rightarrow> bc_identity) \<Rightarrow> ('n \<Rightarrow> 'b cli_state_scheme cli) \<Rightarrow> ('n, 'b cli_state_scheme) mesh \<Rightarrow> bool" where
  "cli_net S ident g M \<longleftrightarrow> (\<forall>j. cli_ok S (ident j) (g j) (world_of M j) \<and> cl_router (g j) = Some (router_of M j))"

lemma udp_inv_mono: "udp_inv k x \<Longrightarrow> k \<le> k' \<Longrightarrow> udp_inv k' x"
  unfolding udp_inv_def udp_quota_def by (meson le_trans)

lemma cli_node_ok:
  assumes "cli_ok S i g w" "cl_router g = Some r"
  shows "\<exists>k. \<forall>k'\<ge>k. node_ok (cli_inv S i (c_running (ext w)) k') r w"
proof -
  obtain k where k: "cli_inv S i (c_running (ext w)) k (ext w)" using assms(1) by (auto simp: cli_ok_def)
  have "router_wf r" using assms by (auto simp: cli_ok_def)
  then have "node_ok (cli_inv S i (c_running (ext w)) k') r w" if "k \<le> k'" for k'
    using cli_ports(1) [OF assms] k udp_inv_mono [of k "ext w" k'] that by (simp add: node_ok_def cli_inv_def)
  then show ?thesis by blast
qed

text \<open>The invariants of all nodes, with room for a later state of one of them.\<close>

lemma cli_net_ok:
  assumes net: "cli_net S ident g M" "m_air M = {#}"
    and a: "cli_ok S (ident a) g' w'" "cl_router g' = Some r'" "c_running (ext w') = c_running (ext (world_of M a))"
  obtains J where "mesh_ok J M" "node_ok (J a) r' w'"
proof -
  have "\<forall>j. \<exists>k. \<forall>k'\<ge>k. node_ok (cli_inv S (ident j) (c_running (ext (world_of M j))) k') (router_of M j) (world_of M j)"
    using net(1) by (auto simp: cli_net_def intro: cli_node_ok)
  then obtain k where k: "\<And>j k'. k j \<le> k' \<Longrightarrow> node_ok (cli_inv S (ident j) (c_running (ext (world_of M j))) k') (router_of M j) (world_of M j)"
    by metis
  obtain ka where ka: "\<And>k'. ka \<le> k' \<Longrightarrow> node_ok (cli_inv S (ident a) (c_running (ext w')) k') r' w'"
    using cli_node_ok [OF a(1,2)] by blast
  show thesis
  proof (rule that [of "\<lambda>j. cli_inv S (ident j) (c_running (ext (world_of M j))) (max (k j) ka)"])
    show "mesh_ok (\<lambda>j. cli_inv S (ident j) (c_running (ext (world_of M j))) (max (k j) ka)) M"
      using k net(2) by (simp add: mesh_ok_def)
    show "node_ok (cli_inv S (ident a) (c_running (ext (world_of M a))) (max (k a) ka)) r' w'" using ka a(3) by simp
  qed
qed

text \<open>A node that has accepted the message has printed it.\<close>

lemma accepted_prints:
  assumes net: "cli_net S ident g M0" and acc: "accepted m M0 M j" and heap: "heap_ok (world_of M0 j)"
    and m: "storable m" "93 + msg_payload_len m < 2 ^ 31" "msg_receiver_pubkey m = id_pubkey (ident j)"
    and new: "\<not> seen (router_of M0 j) (msg_uuid m)" and pt: "open_message S (id_secret_key (ident j)) m = Some pt"
  shows "c_console (ext (world_of M j)) = c_console (ext (world_of M0 j)) @ [Stdout (incoming_text (msg_sender_pubkey m) pt)]"
proof -
  from acc obtain t w1 where t: "t \<noteq> 0" "bc_router_receive (Some (router_of M0 j)) (Some (wire (m\<lparr>msg_ttl := t\<rparr>))) (length (wire m)) (world_of M0 j)
      = Some (BC_OK, Some (router_of M j), w1)" "ext (world_of M j) = ext w1"
    by (auto simp: accepted_def)
  let ?m = "m\<lparr>msg_ttl := t\<rparr>"
  have wf: "message_wf ?m" using m(1) by (simp add: storable_def message_wf_ttl)
  have l: "length (wire ?m) = length (wire m)" "length (wire ?m) = 93 + msg_payload_len m"
    using copy_packet(2) [OF m(1,2), of t] wire_packet(3) [OF m(1,2)] by simp_all
  obtain w2 where d: "bc_message_deserialize (Some (wire ?m)) (length (wire ?m)) (world_of M0 j) = Some (Some ?m, w2)"
    using deserialize_wire [OF wf, of "length (wire ?m)" "[]" "world_of M0 j"] l(2) m(2) heap by (auto simp: heap_ok_def)
  have ok: "cli_ok S (ident j) (g j) (world_of M0 j)" "cl_router (g j) = Some (router_of M0 j)" using net by (simp_all add: cli_net_def)
  have "length (wire ?m) < 2 ^ 31" using l(2) m(2) by simp
  from receive_prints [OF ok heap d order.refl this, of pt] new m(3) pt t l(1) show ?thesis by simp
qed

text \<open>A line typed at a node starts a flood of one sealed message.\<close>

lemma line_floods:
  fixes M0 :: "('n, 'b cli_state_scheme) mesh" and link :: "'n medium"
  assumes seal: "can_seal S (ident alice) pkb (bytes_of text)" and pkb: "length pkb = 32"
    and net: "cli_net S ident g M0" "m_air M0 = {#}"
    and V: "finite V" "\<forall>i pk. link i pk \<subseteq> V" "card V \<le> 11" "alice \<in> V"
    and ready: "\<forall>j\<in>V. eager (router_of M0 j) \<and> heap_ok (world_of M0 j) \<and> (\<forall>u. length u = 16 \<longrightarrow> \<not> seen (router_of M0 j) u)"
    and typed: "text \<noteq> []" "hd text \<noteq> CHR '' ''" "NUL \<notin> set text" "length text < 2 ^ 30"
  obtains J m g' w' es where "handle_line S (msg_line pkb text) (g alice) (world_of M0 alice) = Some (g', w')"
    "w_trace w' = w_trace (world_of M0 alice) @ es" "sealed_for S (ident alice) pkb (bytes_of text) m" "flood_ready J link V m M0"
    "\<And>A. carried True link alice es A \<Longrightarrow>
      flood_inv J link V m M0 alice (M0\<lparr>m_node := (m_node M0)(alice := (the (cl_router g'), w')), m_air := A\<rparr>)"
proof -
  let ?r = "router_of M0 alice" and ?w = "world_of M0 alice"
  have al: "cli_ok S (ident alice) (g alice) ?w" "cl_router (g alice) = Some ?r" using net(1) by (simp_all add: cli_net_def)
  have r: "eager ?r" "heap_ok ?w" "router_wf ?r" using ready V(4) al by (auto simp: cli_ok_def)
  from send_text_spec [OF al pkb typed(4)] r(2) seal obtain g' w1 m rcs rc r' where
    s: "send_text S pkb text (g alice) ?w = Some (g', say (''Message sent.'' @ [NL]) w1)"
      "cli_ok S (ident alice) g' w1" "c_running (ext w1) = c_running (ext ?w)"
      "sealed_for S (ident alice) pkb (bytes_of text) m" "gossiped ?r (wire m) rcs"
      "w_trace w1 = w_trace ?w @ sends (wire m) (known_peers ?r) rcs @ [Stored m rc]" "cl_router g' = Some r'" "seen r' (msg_uuid m)"
    by auto
  let ?w' = "say (''Message sent.'' @ [NL]) w1" and ?es = "sends (wire m) (known_peers ?r) rcs @ [Stored m rc]"
  have "cli_ok S (ident alice) g' ?w'" using s(2) by simp
  from cli_net_ok [OF net this s(7)] s(3) obtain J where J: "mesh_ok J M0" "node_ok (J alice) r' ?w'" by auto
  have m: "storable m" "msg_ttl m = 10" "length (msg_uuid m) = 16" "93 + msg_payload_len m < 2 ^ 31"
    using s(4) sealed_sizes [OF s(4)] typed(4) by (simp_all add: sealed_for_def BC_DEFAULT_TTL_def)
  have rdy: "flood_ready J link V m M0" using J(1) net(2) V(1-3) m ready by (simp add: flood_ready_def)
  have only: "d = wire m" if "Sent pk d rc' \<in> set ?es" for pk d rc' using that by (auto simp: sends_def)
  have all: "\<exists>d rc'. Sent (peer_pubkey p) d rc' \<in> set ?es" if "p \<in> set (known_peers ?r)" for p
    using gossip_all [OF r(1,3) s(5) that] by auto
  show thesis
  proof (rule that [OF _ _ s(4) rdy])
    show "handle_line S (msg_line pkb text) (g alice) ?w = Some (g', ?w')"
      using handle_msg_line [OF pkb typed(1-3), of S "g alice" ?w] s(1) by simp
    show "w_trace ?w' = w_trace ?w @ ?es" using s(6) by simp
    show "flood_inv J link V m M0 alice (M0\<lparr>m_node := (m_node M0)(alice := (the (cl_router g'), ?w')), m_air := A\<rparr>)"
      if "carried True link alice ?es A" for A
      using flood_start [OF rdy V(4) J(2) s(8) that only all] s(7) by simp
  qed
qed

text \<open>Three simulator nodes in a chain, for the witness.\<close>

definition chat_key :: "nat \<Rightarrow> bytes" where
  "chat_key j = replicate 32 (if j = 0 then 1 else if j = 2 then 2 else 5)"

definition chat_ident :: "nat \<Rightarrow> bc_identity" where
  "chat_ident j = \<lparr>id_pubkey = chat_key j, id_secret_key = chat_key j\<rparr>"

definition chat_router :: "nat \<Rightarrow> cli_state bc_router" where
  "chat_router j = with_peers (chain_peers j)
     ((udp_node (int 3) 5001 [5002] (chat_key j))\<lparr>r_on_message := Some (cli_on_message_received toy_sodium)\<rparr>)"

definition chat_cli :: "nat \<Rightarrow> cli_state cli" where
  "chat_cli j = (node_cli toy_sodium (chat_key j))\<lparr>cl_router := Some (chat_router j)\<rparr>"

definition chat_net :: "(nat, cli_state) mesh" where
  "chat_net = \<lparr>m_node = (\<lambda>j. (chat_router j, with_ext (cli_with True (chat_key j)) 1000)), m_air = {#}\<rparr>"

lemma chat_simps [simp]:
  "m_air chat_net = {#}" "router_of chat_net j = chat_router j" "world_of chat_net j = with_ext (cli_with True (chat_key j)) 1000"
  "known_peers (chat_router j) = chain_peers j" "r_local_pubkey (chat_router j) = chat_key j" "length (chat_key j) = 32"
  by (simp_all add: chat_net_def chat_router_def chat_key_def udp_node_def)

lemma chat_unseen: "length u = 16 \<Longrightarrow> \<not> seen (chat_router j) u"
proof -
  have "seen (chat_router j) u = seen (udp_node (int 3) 5001 [5002] (chat_key j) :: cli_state bc_router) u"
    by (simp add: chat_router_def) (simp add: seen_def)
  then show "length u = 16 \<Longrightarrow> \<not> seen (chat_router j) u" by simp
qed

lemma chat_eager: "eager (chat_router j)"
  by (simp add: eager_def chat_router_def with_peers_def chain_peers_def udp_node_def new_router_def udp_transport_def BC_DEFAULT_FANOUT_def)

lemma chat_net_ok: "cli_net toy_sodium chat_ident chat_cli chat_net"
proof -
  have "cli_ok toy_sodium (chat_ident j) (chat_cli j) (with_ext (cli_with True (chat_key j)) 1000)" for j
  proof -
    have ok: "cli_ok toy_sodium (chat_ident j) (node_cli toy_sodium (chat_key j)) (with_ext (cli_with True (chat_key j)) 1000)"
      unfolding chat_ident_def by (rule node_cli_ok [OF toy_sodium_ok]) simp
    have "router_wf (chat_router j)"
      unfolding chat_router_def
    proof (rule with_peers_wf)
      have "router_wf (udp_node (int 3) 5001 [5002] (chat_key j) :: cli_state bc_router)" by simp
      then show "router_wf ((udp_node (int 3) 5001 [5002] (chat_key j) :: cli_state bc_router)\<lparr>r_on_message := Some (cli_on_message_received toy_sodium)\<rparr>)"
        by (simp add: router_wf_def known_peers_def)
    qed (simp add: chain_peers_def peers_wf_def)
    with ok show ?thesis by (simp add: cli_ok_def chat_cli_def node_cli_def chat_router_def chat_ident_def)
  qed
  then show ?thesis by (simp add: cli_net_def chat_cli_def)
qed

lemma chat_path: "msg_receiver_pubkey m = chat_key 2 \<Longrightarrow> (feeds chain_link chat_net m)\<^sup>*\<^sup>* 0 2"
proof -
  assume m: "msg_receiver_pubkey m = chat_key 2"
  have "hd (chat_key 0) \<noteq> hd (chat_key 2)" "hd (chat_key 1) \<noteq> hd (chat_key 2)" by (simp_all add: chat_key_def)
  then have k: "chat_key 0 \<noteq> chat_key 2" "chat_key 1 \<noteq> chat_key 2" by metis+
  have "feeds chain_link chat_net m 0 1" "feeds chain_link chat_net m 1 2"
    using k m by (simp_all add: feeds_def chain_peers_def chain_link_def)
  then show ?thesis by (meson converse_rtranclp_into_rtranclp rtranclp.rtrancl_refl)
qed

end
