(* ===== verification/Cli_Poll.thy ===== *)
theory Cli_Poll
  imports Cli_Run
begin

text \<open>
  The polling loop of the tick over UDP against a reference: receiving the queued datagrams one after
  the other. Each datagram is read into the same 4096-byte buffer, whose stale tail has no influence.
\<close>

section \<open>A packet in a longer buffer\<close>

lemma decode_take:
  assumes "93 + wire_plen d \<le> n" "n \<le> length d" "wire_plen (take n d) = wire_plen d"
  shows "decode (take n d) = decode d"
proof -
  have sub: "take k (drop j (take n d)) = take k (drop j d)" if "j + k \<le> n" for j k
    using that by (simp add: drop_take)
  have "take 16 (take n d) = take 16 d" "take n d ! 16 = d ! 16" using assms(1) by simp_all
  then show ?thesis using assms by (simp add: decode_def sub)
qed

lemma deserialize_take:
  assumes "n \<le> length d" "93 \<le> n \<Longrightarrow> 93 + wire_plen d < 2 ^ 32"
  shows "bc_message_deserialize (Some (take n d)) n w = bc_message_deserialize (Some d) n w"
proof (cases "93 \<le> n")
  case False
  then show ?thesis by (simp add: deserialize_short)
next
  case True
  have p: "wire_plen (take n d) = wire_plen d" using wire_plen_prefix [of n "take n d" d] True by simp
  have m: "(93 + wire_plen d) mod 2 ^ 32 = 93 + wire_plen d" using assms(2) [OF True] by simp
  have e: "bc_message_deserialize (Some x) n w =
      (if n < 93 + wire_plen d then Some (None, w)
       else let (ok, w1) = c_malloc sizeof_message w in
         if \<not> ok then Some (None, w1)
         else if wire_plen d = 0 then Some (Some (decode d), w1)
         else let (ok, w2) = c_malloc (wire_plen d) w1 in
           if \<not> ok then Some (None, c_free w2) else Some (Some (decode d), w2))"
    if "x = d \<or> x = take n d" for x
  proof -
    have x: "n \<le> length x" "wire_plen x = wire_plen d" "93 + wire_plen d \<le> n \<longrightarrow> decode x = decode d"
      using that assms(1) p decode_take [of d n] by auto
    note eq = deserialize_eq [OF True x(1), of w, unfolded x(2) m]
    show ?thesis
    proof (cases "n < 93 + wire_plen d")
      case False
      then have "93 + wire_plen d \<le> length x" "decode x = decode d" using x(1,3) by simp_all
      then show ?thesis unfolding eq by (simp add: Let_def case_prod_beta cong: if_cong)
    qed (simp only: eq if_True)
  qed
  show ?thesis using e [of d] e [of "take n d"] by simp
qed

lemma receive_take:
  assumes "n \<le> length d" "93 \<le> n \<Longrightarrow> 93 + wire_plen d < 2 ^ 32"
  shows "bc_router_receive (Some r) (Some (take n d)) n w = bc_router_receive (Some r) (Some d) n w"
proof -
  have "bc_message_deserialize (Some (take n d)) n w = bc_message_deserialize (Some d) n w" by (rule deserialize_take) fact+
  then show ?thesis by (simp add: bc_router_receive_def)
qed

section \<open>The loop\<close>

fun receive_all :: "'b udp_state_scheme bc_router \<Rightarrow> bytes list \<Rightarrow> 'b udp_world \<Rightarrow> ('b udp_state_scheme bc_router \<times> 'b udp_world) option" where
  "receive_all r [] w = Some (r, on_ext (u_nrecv_update Suc) w)"
| "receive_all r (d # ds) w =
     do {
       (_, ro, w) \<leftarrow> bc_router_receive (Some r) (Some d) (length d) (on_ext (u_nrecv_update Suc) w);
       r \<leftarrow> ro;
       receive_all r ds w
     }"

definition datagram :: "bytes \<Rightarrow> bool" where
  "datagram d \<longleftrightarrow> d \<noteq> [] \<and> length d \<le> RECV_BUF_SIZE \<and> (93 \<le> length d \<longrightarrow> 93 + wire_plen d < 2 ^ 32)"

text \<open>The queue from the next read on: the datagrams \<open>ds\<close> and then nothing.\<close>

definition queued :: "(nat \<Rightarrow> bytes option) \<Rightarrow> nat \<Rightarrow> bytes list \<Rightarrow> bool" where
  "queued inc n ds \<longleftrightarrow> (\<forall>i<length ds. inc (n + i) = Some (ds ! i)) \<and> inc (n + length ds) = None"

lemma queued_simps [simp]:
  "queued inc n [] \<longleftrightarrow> inc n = None"
  "queued inc n (d # ds) \<longleftrightarrow> inc n = Some d \<and> queued inc (Suc n) ds"
  by (simp_all add: queued_def All_less_Suc2 conj_ac)

lemma udp_recv_datagram:
  assumes "u_incoming (ext w) (u_nrecv (ext w)) = Some d" "datagram d" "length buf = RECV_BUF_SIZE"
  shows "udp_recv ctx buf RECV_BUF_SIZE k pk w
    = Some (BC_OK, d @ drop (length d) buf, length d, replicate BC_PUBKEY_SIZE 0, on_ext (u_nrecv_update Suc) w)"
  using assms by (simp add: udp_recv_def c_recvfrom_def datagram_def memcpy_first Let_def)

lemma udp_recv_nothing:
  assumes "u_incoming (ext w) (u_nrecv (ext w)) = None"
  shows "udp_recv ctx buf RECV_BUF_SIZE k pk w = Some (BC_ERR, buf, 0, pk, on_ext (u_nrecv_update Suc) w)"
  using assms by (simp add: udp_recv_def c_recvfrom_def)

lemma recv_loop_all:
  fixes P :: "'b udp_state_scheme \<Rightarrow> bool" and w :: "'b udp_world"
  assumes P: "\<And>f x. P (u_nrecv_update f x) = P x"
    and "\<And>k. router_ports (\<lambda>x. P x \<and> u_incoming x = inc \<and> u_nrecv x = k) r" "router_wf r"
    and "P (ext w)" "u_incoming (ext w) = inc" "queued inc (u_nrecv (ext w)) ds" "\<forall>d\<in>set ds. datagram d"
    and "length buf = RECV_BUF_SIZE"
  shows "\<exists>res. recv_loop (udp_recv ctx) r buf pk w = Some res \<and> receive_all r ds w = Some res"
  using assms(2-)
proof (induction ds arbitrary: r w buf pk)
  case Nil
  then show ?case by (subst recv_loop.simps) (simp add: udp_recv_nothing)
next
  case (Cons d ds)
  let ?w = "on_ext (u_nrecv_update Suc) w" and ?b = "d @ drop (length d) buf"
  let ?J = "\<lambda>x. P x \<and> u_incoming x = inc \<and> u_nrecv x = Suc (u_nrecv (ext w))"
  have d: "datagram d" "u_incoming (ext w) (u_nrecv (ext w)) = Some d" "length d \<le> RECV_BUF_SIZE" using Cons.prems by (auto simp: datagram_def)
  have b: "length ?b = RECV_BUF_SIZE" using d(3) Cons.prems(7) by simp
  have l: "length d \<le> length d" "length d < 2 ^ 31" "93 \<le> length d \<Longrightarrow> 93 + wire_plen d < 2 ^ 32"
    using d(1) by (simp_all add: datagram_def RECV_BUF_SIZE_def)
  have J: "?J (ext ?w)" using Cons.prems(3,4) P by simp
  obtain rc r' w' where r: "bc_router_receive (Some r) (Some d) (length d) ?w = Some (rc, Some r', w')"
      "router_wf r'" "same_but_seen r r'" "?J (ext w')"
    using receive_total [where J = ?J, OF Cons.prems(1,2) J l] by blast
  have "93 \<le> length d \<Longrightarrow> wire_plen ?b = wire_plen d" using wire_plen_prefix [of "length d" ?b d] by simp
  then have rb: "bc_router_receive (Some r) (Some ?b) (length d) ?w = Some (rc, Some r', w')"
    using receive_take [of "length d" ?b r ?w] l(3) r(1) by simp
  have "\<exists>res. recv_loop (udp_recv ctx) r' ?b (replicate BC_PUBKEY_SIZE 0) w' = Some res \<and> receive_all r' ds w' = Some res"
    using Cons.prems r(2,4) same_but_seen_ports [OF r(3)] b by (intro Cons.IH) auto
  moreover have "recv_loop (udp_recv ctx) r buf pk w = recv_loop (udp_recv ctx) r' ?b (replicate BC_PUBKEY_SIZE 0) w'"
    using d(1) rb by (subst recv_loop.simps) (simp add: udp_recv_datagram [OF d(2,1) Cons.prems(7)] datagram_def)
  ultimately show ?case using r(1) by simp
qed

section \<open>The simulator\<close>

text \<open>The node's invariant at a fixed place in the queue; neither the router nor its adapters read from the socket.\<close>

lemma cli_queue_ports:
  fixes w :: "'b cli_world"
  assumes ok: "cli_ok S i g w" "cl_router g = Some r"
  shows "router_ports (\<lambda>x. (sql_inv x \<and> sodium_ok S \<and> identity_wf i \<and> c_identity x = i) \<and> u_incoming x = inc \<and> u_nrecv x = k) r"
    (is "router_ports ?J r")
proof -
  obtain fd p ports where r: "r_transport r = Some (udp_transport (udp_ctx_of (int fd) p ports))" "r_storage r = Some sqlite_storage"
      "r_on_message r = Some (cli_on_message_received S)"
    using ok by (auto simp: cli_ok_def)
  have "transport_port ?J (udp_transport (udp_ctx_of (int fd) p ports))" by (rule udp_transport_port) simp_all
  moreover have "storage_port ?J sqlite_storage"
    using sqlite_storage_port [of "\<lambda>x. sodium_ok S \<and> identity_wf i \<and> c_identity x = i \<and> u_incoming x = inc \<and> u_nrecv x = k"]
    by (simp add: conj_assoc)
  moreover have "callback_port ?J (cli_on_message_received S)"
  proof
    fix m ud and w :: "'b cli_world"
    assume "storable m" "?J (ext w)"
    then show "\<exists>w' es. cli_on_message_received S ud m w = Some w' \<and> w_trace w' = w_trace w @ es \<and>
        (\<forall>e\<in>set es. to_user e) \<and> ?J (ext w')"
      using cli_callback_spec [of S m w ud] by (fastforce simp: sql_inv_def)
  qed
  ultimately show ?thesis using r by (simp add: router_ports_def)
qed

text \<open>
  C15. Polling over UDP: the loop of the tick handles exactly the queued datagrams, each once and in the
  order of their arrival, as if \<open>bc_router_receive\<close> were called with each of them in a buffer of its own, and
  returns when the queue is empty.
\<close>

theorem poll_receives_in_order:
  fixes w :: "'b cli_world"
  assumes "cli_ok S i g w" "cl_router g = Some r"
    and "queued (u_incoming (ext w)) (u_nrecv (ext w)) ds" "\<forall>d\<in>set ds. datagram d"
  shows "\<exists>res. tick_poll r w = Some res \<and> receive_all r ds w = Some res"
proof -
  let ?P = "\<lambda>x :: 'b cli_state_scheme. sql_inv x \<and> sodium_ok S \<and> identity_wf i \<and> c_identity x = i"
  obtain fd p ports where t: "r_transport r = Some (udp_transport (udp_ctx_of (int fd) p ports))" and rwf: "router_wf r"
      and P: "?P (ext w)"
    using assms(1,2) by (auto simp: cli_ok_def cli_inv_def udp_inv_def)
  have "tick_poll r w = recv_loop (udp_recv (udp_ctx_of (int fd) p ports)) r (replicate RECV_BUF_SIZE 0) (replicate BC_PUBKEY_SIZE 0) w"
    using t by (simp add: tick_poll_def udp_transport_def)
  then show ?thesis
    using recv_loop_all [where P = ?P, OF _ cli_queue_ports [OF assms(1,2)] rwf P refl assms(3,4)] by simp
qed

theorem poll_receives_in_order_witness:
  "\<exists>(w :: cli_state world_scheme) res. u_incoming (ext w) 0 = Some (wire sample_msg) \<and>
    tick_poll (the (cl_router (node_cli toy_sodium (replicate 32 2)))) w = Some res \<and>
    receive_all (the (cl_router (node_cli toy_sodium (replicate 32 2)))) [wire sample_msg] w = Some res"
proof -
  let ?g = "node_cli toy_sodium (replicate 32 2)"
  let ?x = "(cli_with True (replicate 32 2))\<lparr>u_incoming := (\<lambda>n. if n = 0 then Some (wire sample_msg) else None)\<rparr>"
  have p: "length (wire sample_msg) = 95" "wire_plen (wire sample_msg) = 2"
    using wire_length [OF sample_msg_wf(1)] wire_plen_wire [OF sample_msg_wf(1), of "[]"] by simp_all
  have n: "u_nrecv ?x = 0" by (simp add: cli_with_def cli_idle_def udp_state.extend_def)
  have "\<exists>k\<ge>m. u_incoming ?x k = None" for m by (rule exI [of _ "Suc m"]) simp
  then have "udp_live ?x" using p by (auto simp: udp_live_def)
  moreover have "sql_inv ?x" by (simp add: sql_inv_def cli_with_def cli_idle_def udp_state.extend_def)
  ultimately have "udp_inv 1 ?x" by (auto simp: udp_inv_def udp_quota_def n intro!: exI [of _ 1])
  moreover have "cli_ok toy_sodium \<lparr>id_pubkey = replicate 32 2, id_secret_key = replicate 32 2\<rparr> ?g (with_ext (cli_with True (replicate 32 2)) 0)"
    by (rule node_cli_ok [OF toy_sodium_ok]) simp
  ultimately have ok: "cli_ok toy_sodium \<lparr>id_pubkey = replicate 32 2, id_secret_key = replicate 32 2\<rparr> ?g (with_ext ?x 0)"
    by (auto simp: cli_ok_def cli_inv_def)
  have r: "cl_router ?g = Some (the (cl_router ?g))" by (simp add: node_cli_def)
  have q: "queued (u_incoming (ext (with_ext ?x 0))) (u_nrecv (ext (with_ext ?x 0))) [wire sample_msg]" using n by simp
  have d: "\<forall>d\<in>set [wire sample_msg]. datagram d" using p by (auto simp: datagram_def RECV_BUF_SIZE_def)
  have "u_incoming (ext (with_ext ?x 0)) 0 = Some (wire sample_msg)" by simp
  with poll_receives_in_order [OF ok r q d] show ?thesis by blast
qed

end
