(* ===== verification/Inbox.thy ===== *)
theory Inbox
  imports Entities
begin

text \<open>
  The received-message ring buffer of \<^verbatim>\<open>src/bridge/bitchat_ffi.c\<close>: an array of 256 slots with a head
  (next slot to write) and a tail (next slot to read), empty when they meet, so that it holds at most
  255 messages. It is shown to be a bounded first-in first-out queue.
\<close>

definition INBOX_SIZE :: nat where "INBOX_SIZE = 256"

record 'm ring =
  rg_slots :: "'m option list"
  rg_head :: nat
  rg_tail :: nat

definition ring_zero :: "'m ring" where
  "ring_zero = \<lparr>rg_slots = replicate INBOX_SIZE None, rg_head = 0, rg_tail = 0\<rparr>"

definition ring_full :: "'m ring \<Rightarrow> bool" where
  "ring_full r \<longleftrightarrow> (rg_head r + 1) mod INBOX_SIZE = rg_tail r"

definition ring_empty :: "'m ring \<Rightarrow> bool" where
  "ring_empty r \<longleftrightarrow> rg_tail r = rg_head r"

definition ring_put :: "'m \<Rightarrow> 'm ring \<Rightarrow> 'm ring option" where
  "ring_put m r =
     do {
       slots \<leftarrow> mem_set (rg_slots r) (rg_head r) (Some m);
       Some (r\<lparr>rg_slots := slots, rg_head := (rg_head r + 1) mod INBOX_SIZE\<rparr>)
     }"

text \<open>The slot keeps the pointer after it was read; only the tail moves.\<close>

definition ring_get :: "'m ring \<Rightarrow> ('m option \<times> 'm ring) option" where
  "ring_get r =
     do {
       m \<leftarrow> mem_get (rg_slots r) (rg_tail r);
       Some (m, r\<lparr>rg_tail := (rg_tail r + 1) mod INBOX_SIZE\<rparr>)
     }"

section \<open>The queue interface\<close>

locale bounded_queue =
  fixes inv :: "'s \<Rightarrow> bool" and items :: "'s \<Rightarrow> 'm list" and cap :: nat
    and full :: "'s \<Rightarrow> bool" and empty :: "'s \<Rightarrow> bool"
    and put :: "'m \<Rightarrow> 's \<Rightarrow> 's option" and get :: "'s \<Rightarrow> ('m option \<times> 's) option"
  assumes bound: "inv s \<Longrightarrow> length (items s) \<le> cap"
    and full_iff: "inv s \<Longrightarrow> full s \<longleftrightarrow> length (items s) = cap"
    and empty_iff: "inv s \<Longrightarrow> empty s \<longleftrightarrow> items s = []"
    and put_ok: "inv s \<Longrightarrow> \<not> full s \<Longrightarrow> \<exists>s'. put m s = Some s' \<and> inv s' \<and> items s' = items s @ [m]"
    and get_ok: "inv s \<Longrightarrow> \<not> empty s \<Longrightarrow>
      \<exists>s'. get s = Some (Some (hd (items s)), s') \<and> inv s' \<and> items s' = tl (items s)"
begin

text \<open>Putting what fits and dropping the rest, as the receive callback does.\<close>

primrec put_all :: "'m list \<Rightarrow> 's \<Rightarrow> 's option" where
  "put_all [] s = Some s"
| "put_all (m # ms) s = (if full s then put_all ms s else Option.bind (put m s) (put_all ms))"

primrec get_n :: "nat \<Rightarrow> 's \<Rightarrow> ('m list \<times> 's) option" where
  "get_n 0 s = Some ([], s)"
| "get_n (Suc n) s = (if empty s then Some ([], s)
     else Option.bind (get s) (\<lambda>(m, s). Option.bind m (\<lambda>m. Option.bind (get_n n s) (\<lambda>(ms, s). Some (m # ms, s)))))"

lemma put_all_spec:
  "inv s \<Longrightarrow> \<exists>s'. put_all ms s = Some s' \<and> inv s' \<and> items s' = take cap (items s @ ms)"
proof (induction ms arbitrary: s)
  case Nil
  then show ?case using bound by simp
next
  case (Cons m ms)
  show ?case
  proof (cases "full s")
    case True
    then have "length (items s) = cap" using full_iff [OF Cons.prems] by simp
    moreover obtain s' where "put_all ms s = Some s'" "inv s'" "items s' = take cap (items s @ ms)"
      using Cons.IH [OF Cons.prems] by blast
    ultimately show ?thesis using True by simp
  next
    case False
    then obtain s' where s': "put m s = Some s'" "inv s'" "items s' = items s @ [m]"
      using put_ok [OF Cons.prems] by blast
    from Cons.IH [OF s'(2)] s' False show ?thesis by auto
  qed
qed

lemma get_n_spec:
  "inv s \<Longrightarrow> \<exists>s'. get_n n s = Some (take n (items s), s') \<and> inv s' \<and> items s' = drop n (items s)"
proof (induction n arbitrary: s)
  case (Suc n)
  show ?case
  proof (cases "empty s")
    case True
    then show ?thesis using Suc.prems empty_iff by auto
  next
    case False
    obtain s' where s': "get s = Some (Some (hd (items s)), s')" "inv s'" "items s' = tl (items s)"
      using get_ok [OF Suc.prems False] by blast
    have ne: "items s \<noteq> []" using False Suc.prems empty_iff by auto
    obtain s'' where "get_n n s' = Some (take n (tl (items s)), s'')" "inv s''" "items s'' = drop n (tl (items s))"
      using Suc.IH [OF s'(2)] s'(3) by auto
    with s' False ne show ?thesis by (cases "items s") auto
  qed
qed simp

text \<open>First in, first out: what was accepted comes back in the order it arrived.\<close>

lemma fifo:
  assumes "inv s" "items s = []"
  shows "\<exists>s' s''. put_all ms s = Some s' \<and> get_n (length ms) s' = Some (take cap ms, s'') \<and> items s'' = []"
proof -
  obtain s' where s': "put_all ms s = Some s'" "inv s'" "items s' = take cap ms"
    using put_all_spec [OF assms(1), of ms] assms(2) by auto
  with get_n_spec [OF s'(2), of "length ms"] show ?thesis by (auto simp: min_def)
qed

end

section \<open>The ring is a queue of 255\<close>

definition ring_len :: "'m ring \<Rightarrow> nat" where
  "ring_len r = (rg_head r + 256 - rg_tail r) mod 256"

definition ring_items :: "'m ring \<Rightarrow> 'm list" where
  "ring_items r = map (\<lambda>i. the (rg_slots r ! ((rg_tail r + i) mod 256))) [0..<ring_len r]"

definition ring_wf :: "'m ring \<Rightarrow> bool" where
  "ring_wf r \<longleftrightarrow> length (rg_slots r) = 256 \<and> rg_head r < 256 \<and> rg_tail r < 256 \<and>
     (\<forall>i<ring_len r. rg_slots r ! ((rg_tail r + i) mod 256) \<noteq> None)"

lemma ring_len_lt: "ring_len r < 256"
  by (simp add: ring_len_def)

lemma ring_head_eq: "ring_wf r \<Longrightarrow> (rg_tail r + ring_len r) mod 256 = rg_head r"
  unfolding ring_wf_def ring_len_def by (cases "rg_tail r \<le> rg_head r") (auto simp: mod_if)

lemma ring_pos_neq_head:
  assumes "ring_wf r" "i < ring_len r"
  shows "(rg_tail r + i) mod 256 \<noteq> rg_head r"
proof -
  have b: "rg_head r < 256" "rg_tail r < 256" using assms(1) by (simp_all add: ring_wf_def)
  have len: "ring_len r = (if rg_tail r \<le> rg_head r then rg_head r - rg_tail r else rg_head r + 256 - rg_tail r)"
    using b by (auto simp: ring_len_def mod_if)
  have "(rg_tail r + i) mod 256 = (if rg_tail r + i < 256 then rg_tail r + i else rg_tail r + i - 256)"
    using b ring_len_lt [of r] assms(2) by (simp add: mod_if)
  then show ?thesis using b len assms(2) by (auto split: if_splits)
qed

lemma ring_items_length [simp]: "length (ring_items r) = ring_len r"
  by (simp add: ring_items_def)

lemma ring_put_ok:
  assumes wf: "ring_wf r" and "\<not> ring_full r"
  shows "\<exists>r'. ring_put m r = Some r' \<and> ring_wf r' \<and> ring_items r' = ring_items r @ [m]"
proof -
  let ?r = "r\<lparr>rg_slots := (rg_slots r)[rg_head r := Some m], rg_head := (rg_head r + 1) mod 256\<rparr>"
  have put: "ring_put m r = Some ?r"
    using wf by (simp add: ring_put_def mem_simps ring_wf_def INBOX_SIZE_def)
  have len: "ring_len ?r = Suc (ring_len r)"
    using assms unfolding ring_wf_def ring_len_def ring_full_def INBOX_SIZE_def
    by (cases "rg_tail r \<le> rg_head r") (auto simp: mod_if split: if_splits)
  have slot: "rg_slots ?r ! ((rg_tail r + i) mod 256) =
      (if i = ring_len r then Some m else rg_slots r ! ((rg_tail r + i) mod 256))" if "i \<le> ring_len r" for i
    using that wf ring_head_eq [OF wf] ring_pos_neq_head [OF wf, of i] by (auto simp: ring_wf_def)
  have "ring_wf ?r"
    using wf slot len unfolding ring_wf_def [of ?r] by (auto simp: ring_wf_def less_Suc_eq_le)
  moreover have "ring_items ?r = ring_items r @ [m]"
    unfolding ring_items_def len using slot by (auto simp: ring_items_def)
  ultimately show ?thesis using put by blast
qed

lemma ring_get_ok:
  assumes wf: "ring_wf r" and "\<not> ring_empty r"
  shows "\<exists>r'. ring_get r = Some (Some (hd (ring_items r)), r') \<and> ring_wf r' \<and> ring_items r' = tl (ring_items r)"
proof -
  let ?r = "r\<lparr>rg_tail := (rg_tail r + 1) mod 256\<rparr>"
  have len: "ring_len r = Suc (ring_len ?r)"
    using assms unfolding ring_wf_def ring_len_def ring_empty_def
    by (cases "rg_tail r \<le> rg_head r") (auto simp: mod_if split: if_splits)
  have pos: "((rg_tail r + 1) mod 256 + i) mod 256 = (rg_tail r + Suc i) mod 256" for i
    by (simp add: mod_add_left_eq)
  have "rg_slots r ! rg_tail r \<noteq> None"
    using wf len unfolding ring_wf_def by (metis add.right_neutral mod_less zero_less_Suc)
  then obtain m where m: "rg_slots r ! rg_tail r = Some m" by blast
  have upt: "[0..<Suc n] = 0 # map Suc [0..<n]" for n by (simp add: map_Suc_upt upt_conv_Cons del: upt_Suc)
  have items: "ring_items r = m # ring_items ?r"
    unfolding ring_items_def len upt using wf m pos
    by (simp add: ring_wf_def comp_def del: upt_Suc)
  have "ring_get r = Some (Some m, ?r)"
    using wf m by (simp add: ring_get_def mem_simps ring_wf_def INBOX_SIZE_def)
  moreover have "ring_wf ?r" using wf pos len by (auto simp: ring_wf_def)
  ultimately show ?thesis using items by simp
qed

interpretation rq: bounded_queue ring_wf ring_items 255 ring_full ring_empty ring_put ring_get
proof unfold_locales
  fix r :: "'m ring" assume wf: "ring_wf r"
  show "length (ring_items r) \<le> 255" using ring_len_lt [of r] by simp
  show "ring_full r \<longleftrightarrow> length (ring_items r) = 255"
    using wf unfolding ring_items_length ring_wf_def ring_len_def ring_full_def INBOX_SIZE_def
    by (cases "rg_tail r \<le> rg_head r") (auto simp: mod_if split: if_splits)
  show "ring_empty r \<longleftrightarrow> ring_items r = []"
    using wf unfolding length_0_conv [symmetric] ring_items_length ring_wf_def ring_len_def ring_empty_def
    by (cases "rg_tail r \<le> rg_head r") (auto simp: mod_if split: if_splits)
qed (fact ring_put_ok ring_get_ok)+

lemma ring_zero_wf [simp]: "ring_wf ring_zero" "ring_items ring_zero = []"
  by (simp_all add: ring_zero_def ring_wf_def ring_items_def ring_len_def INBOX_SIZE_def)

end
