(* ===== verification/Ffi.thy ===== *)
theory Ffi
  imports Router_Correct Transport_Stubs Discovery Sqlite Crypto Inbox
begin

text \<open>
  The public C interface, \<^verbatim>\<open>src/bridge/bitchat_ffi.c\<close>, which wires the modules together around one
  global object. The object is split in two: what the delivery callback reaches while the router
  runs (identity, inbox, user callback) is part of the world as \<open>inbox_state\<close>; the handles that only the
  interface functions use are the record \<open>ffi\<close>, threaded through them.

  Locking an uninitialised mutex is undefined in POSIX and therefore a fault; \<open>f_lock_depth\<close> counts how
  often the recursive mutex is held.
\<close>

record inbox_state = sql_state +
  g_identity :: bc_identity
  g_inbox :: "bc_message ring"
  g_user_callback :: "nat option"

type_synonym 'b ffi_world = "'b inbox_state_scheme world_scheme"

record 'a ffi =
  f_initialized :: bool
  f_transport :: "'a bc_transport option"
  f_storage :: "'a bc_storage option"
  f_router :: "'a bc_router option"
  f_discovery :: "'a bc_discovery option"
  f_mutex_initialized :: bool
  f_lock_depth :: nat

text \<open>The global object before the first call: all zero.\<close>

definition ffi_zero :: "'a ffi" where
  "ffi_zero = \<lparr>f_initialized = False, f_transport = None, f_storage = None, f_router = None,
     f_discovery = None, f_mutex_initialized = False, f_lock_depth = 0\<rparr>"

section \<open>Mutex\<close>

text \<open>\<open>mutex_rc\<close> is what \<open>pthread_mutex_init\<close> returns.\<close>

definition ensure_mutex :: "int \<Rightarrow> 'a ffi \<Rightarrow> bc_err \<times> 'a ffi" where
  "ensure_mutex mutex_rc g =
     (if f_mutex_initialized g then (BC_OK, g)
      else if mutex_rc \<noteq> 0 then (BC_ERR, g)
      else (BC_OK, g\<lparr>f_mutex_initialized := True, f_lock_depth := 0\<rparr>))"

definition ffi_lock :: "'a ffi \<Rightarrow> 'a ffi option" where
  "ffi_lock g = (if f_mutex_initialized g then Some (g\<lparr>f_lock_depth := f_lock_depth g + 1\<rparr>) else None)"

definition ffi_unlock :: "'a ffi \<Rightarrow> 'a ffi" where
  "ffi_unlock g = g\<lparr>f_lock_depth := f_lock_depth g - 1\<rparr>"

section \<open>The delivery callback\<close>

definition inbox_store :: "bc_message \<Rightarrow> 'b ffi_world \<Rightarrow> 'b ffi_world option" where
  "inbox_store msg w =
     (if ring_full (g_inbox (ext w)) then Some w
      else do {
        (copy, w) \<leftarrow> bc_message_create (Some (msg_sender_pubkey msg)) (Some (msg_receiver_pubkey msg))
          (msg_payload msg) (msg_payload_len msg) w;
        (case copy of
           None \<Rightarrow> Some w
         | Some c \<Rightarrow> do {
             u \<leftarrow> memcpy (msg_uuid c) 0 (msg_uuid msg) 0 BC_UUID_SIZE;
             let c = c\<lparr>msg_uuid := u, msg_ttl := msg_ttl msg, msg_timestamp := msg_timestamp msg\<rparr>;
             q \<leftarrow> ring_put c (g_inbox (ext w));
             Some (on_ext (g_inbox_update (\<lambda>_. q)) w)
           })
      })"

definition push_user :: "sodium \<Rightarrow> bc_message \<Rightarrow> 'b ffi_world \<Rightarrow> 'b ffi_world option" where
  "push_user S msg w =
     (case (g_user_callback (ext w), msg_payload msg) of
        (Some cb, Some payload) \<Rightarrow>
          if msg_payload_len msg < BC_NONCE_SIZE + BC_TAG_SIZE then Some w
          else do {
            (rc, key) \<leftarrow> bc_crypto_derive_shared S (Some (id_secret_key (g_identity (ext w))))
              (Some (msg_sender_pubkey msg)) (Some (replicate BC_SHARED_KEY_SIZE 0));
            (if rc \<noteq> BC_OK then Some w
             else do {
               let ct_len = msg_payload_len msg - BC_NONCE_SIZE;
               let pt_len = ct_len - BC_TAG_SIZE;
               let (ok, w) = c_malloc pt_len w;
               (if \<not> ok then Some w
                else do {
                  (rc, plaintext) \<leftarrow> bc_crypto_decrypt S (Some (drop BC_NONCE_SIZE payload)) ct_len key
                    (Some payload) (Some (replicate pt_len 0));
                  plaintext \<leftarrow> plaintext;
                  Some (c_free (if rc = BC_OK
                    then emit (UserMessage (msg_sender_pubkey msg) (take pt_len plaintext)) w else w))
                })
             })
          }
      | _ \<Rightarrow> Some w)"

definition on_message_received :: "sodium \<Rightarrow> 'b inbox_state_scheme on_message_fn" where
  "on_message_received S userdata msg w = do { w \<leftarrow> inbox_store msg w; push_user S msg w }"

section \<open>Life cycle\<close>

definition bitchat_init ::
  "sodium \<Rightarrow> int \<Rightarrow> string option \<Rightarrow> 'b inbox_state_scheme ffi \<Rightarrow> 'b ffi_world \<Rightarrow>
   (bc_err \<times> 'b inbox_state_scheme ffi \<times> 'b ffi_world) option" where
  "bitchat_init S mutex_rc storage_path g w =
     (let (rc, g) = ensure_mutex mutex_rc g in
      if rc \<noteq> BC_OK then Some (rc, g, w)
      else do {
        g \<leftarrow> ffi_lock g;
        (if f_initialized g then Some (BC_OK, ffi_unlock g, w)
         else
           let rc = bc_crypto_init S in
           if rc \<noteq> BC_OK then Some (rc, ffi_unlock g, w)
           else
             let (st, w) = bc_storage_sqlite_create storage_path w;
                 g = g\<lparr>f_storage := st\<rparr> in
             if st = None then Some (BC_ERR_STORAGE, ffi_unlock g, w)
             else
               let (t, w) = bc_transport_ble_create w;
                   g = g\<lparr>f_transport := t, f_initialized := True\<rparr> in
               Some (BC_OK, ffi_unlock g, w))
      })"

text \<open>
  Both ways to set the identity end with the same block: a new router with the delivery callback
  registered, and a new discovery, replacing the old ones.
\<close>

definition attach_identity ::
  "sodium \<Rightarrow> 'b inbox_state_scheme ffi \<Rightarrow> 'b ffi_world \<Rightarrow>
   (bc_err \<times> 'b inbox_state_scheme ffi \<times> 'b ffi_world) option" where
  "attach_identity S g w =
     (let w = (if f_router g \<noteq> None then bc_router_destroy (f_router g) w else w) in
      do {
        (r, w) \<leftarrow> bc_router_create (f_transport g) (f_storage g) (Some (id_pubkey (g_identity (ext w)))) None w;
        let g = g\<lparr>f_router := r\<rparr>;
        (if r = None then Some (BC_ERR_NOMEM, ffi_unlock g, w)
         else
           let g = g\<lparr>f_router := bc_router_set_on_message r (Some (on_message_received S)) 0\<rparr>;
               w = (if f_discovery g \<noteq> None then bc_discovery_destroy (f_discovery g) w else w);
               (d, w) = bc_discovery_create (f_transport g) w in
           Some (BC_OK, ffi_unlock (g\<lparr>f_discovery := d\<rparr>), w))
      })"

definition copy_out :: "bytes option \<Rightarrow> bytes \<Rightarrow> nat \<Rightarrow> bytes option option" where
  "copy_out dst src n =
     (case dst of None \<Rightarrow> Some None | Some d \<Rightarrow> do { d \<leftarrow> memcpy d 0 src 0 n; Some (Some d) })"

definition bitchat_generate_identity ::
  "sodium \<Rightarrow> bytes option \<Rightarrow> bytes option \<Rightarrow> 'b inbox_state_scheme ffi \<Rightarrow> 'b ffi_world \<Rightarrow>
   (bc_err \<times> bytes option \<times> bytes option \<times> 'b inbox_state_scheme ffi \<times> 'b ffi_world) option" where
  "bitchat_generate_identity S pubkey_out secret_out g w =
     do {
       g \<leftarrow> ffi_lock g;
       (if \<not> f_initialized g then Some (BC_ERR, pubkey_out, secret_out, ffi_unlock g, w)
        else
          case bc_identity_generate S (Some (g_identity (ext w))) w of (rc, i, w) \<Rightarrow>
          do {
            i \<leftarrow> i;
            let w = on_ext (g_identity_update (\<lambda>_. i)) w;
            (if rc \<noteq> BC_OK then Some (rc, pubkey_out, secret_out, ffi_unlock g, w)
             else do {
               pubkey_out \<leftarrow> copy_out pubkey_out (id_pubkey i) BC_PUBKEY_SIZE;
               secret_out \<leftarrow> copy_out secret_out (id_secret_key i) BC_SECRET_KEY_SIZE;
               (rc, g, w) \<leftarrow> attach_identity S g w;
               Some (rc, pubkey_out, secret_out, g, w)
             })
          })
     }"

definition bitchat_load_identity ::
  "sodium \<Rightarrow> bytes option \<Rightarrow> nat \<Rightarrow> 'b inbox_state_scheme ffi \<Rightarrow> 'b ffi_world \<Rightarrow>
   (bc_err \<times> 'b inbox_state_scheme ffi \<times> 'b ffi_world) option" where
  "bitchat_load_identity S identity_data len g w =
     do {
       g \<leftarrow> ffi_lock g;
       (if \<not> f_initialized g \<or> identity_data = None then Some (BC_ERR_INVALID, ffi_unlock g, w)
        else do {
          (rc, i) \<leftarrow> bc_identity_deserialize (Some (g_identity (ext w))) identity_data len;
          i \<leftarrow> i;
          let w = on_ext (g_identity_update (\<lambda>_. i)) w;
          (if rc \<noteq> BC_OK then Some (rc, ffi_unlock g, w) else attach_identity S g w)
        })
     }"

section \<open>Messages\<close>

definition bitchat_send_message ::
  "sodium \<Rightarrow> bytes option \<Rightarrow> bytes option \<Rightarrow> nat \<Rightarrow> 'b inbox_state_scheme ffi \<Rightarrow> 'b ffi_world \<Rightarrow>
   (bc_err \<times> 'b inbox_state_scheme ffi \<times> 'b ffi_world) option" where
  "bitchat_send_message S recipient plaintext len g w =
     do {
       g \<leftarrow> ffi_lock g;
       (if \<not> f_initialized g \<or> f_router g = None \<or> recipient = None \<or> plaintext = None
        then Some (BC_ERR_INVALID, ffi_unlock g, w)
        else do {
          (rc, key) \<leftarrow> bc_crypto_derive_shared S (Some (id_secret_key (g_identity (ext w)))) recipient
            (Some (replicate BC_SHARED_KEY_SIZE 0));
          (if rc \<noteq> BC_OK then Some (rc, ffi_unlock g, w)
           else do {
             let ct_len = size_add len BC_TAG_SIZE;
             let total = size_add BC_NONCE_SIZE ct_len;
             let (ok, w) = c_malloc total w;
             (if \<not> ok then Some (BC_ERR_NOMEM, ffi_unlock g, w)
              else do {
                let ciphertext = replicate total 0;
                (rc, ct, nonce, w) \<leftarrow> bc_crypto_encrypt S plaintext len key
                  (Some (drop BC_NONCE_SIZE ciphertext)) (Some (take BC_NONCE_SIZE ciphertext)) w;
                (if rc \<noteq> BC_OK then Some (rc, ffi_unlock g, c_free w)
                 else do {
                   nonce \<leftarrow> nonce; ct \<leftarrow> ct;
                   (msg, w) \<leftarrow> bc_message_create (Some (id_pubkey (g_identity (ext w)))) recipient
                     (Some (nonce @ ct)) total w;
                   let w = c_free w;
                   (if msg = None then Some (BC_ERR_NOMEM, ffi_unlock g, w)
                    else do {
                      (rc, r, w) \<leftarrow> bc_router_broadcast (f_router g) msg w;
                      Some (rc, ffi_unlock (g\<lparr>f_router := r\<rparr>), bc_message_destroy msg w)
                    })
                 })
              })
           })
        })
     }"

text \<open>\<open>buf\<close>, \<open>*msg_len\<close> and the sender array are passed in and returned with their new contents.\<close>

definition bitchat_poll_messages ::
  "sodium \<Rightarrow> bytes option \<Rightarrow> nat \<Rightarrow> nat option \<Rightarrow> bytes option \<Rightarrow> 'b inbox_state_scheme ffi \<Rightarrow> 'b ffi_world \<Rightarrow>
   (bc_err \<times> bytes option \<times> nat option \<times> bytes option \<times> 'b inbox_state_scheme ffi \<times> 'b ffi_world) option" where
  "bitchat_poll_messages S buf buf_len msg_len sender_out g w =
     do {
       g \<leftarrow> ffi_lock g;
       (if \<not> f_initialized g \<or> buf = None \<or> msg_len = None
        then Some (BC_ERR_INVALID, buf, msg_len, sender_out, ffi_unlock g, w)
        else if ring_empty (g_inbox (ext w)) then Some (BC_OK, buf, Some 0, sender_out, ffi_unlock g, w)
        else do {
          (msg, q) \<leftarrow> ring_get (g_inbox (ext w));
          let w = on_ext (g_inbox_update (\<lambda>_. q)) w;
          (case msg of
             None \<Rightarrow> Some (BC_OK, buf, Some 0, sender_out, ffi_unlock g, w)
           | Some m \<Rightarrow>
               (case msg_payload m of
                  None \<Rightarrow> Some (BC_OK, buf, Some 0, sender_out, ffi_unlock g, bc_message_destroy msg w)
                | Some payload \<Rightarrow>
                    if msg_payload_len m < BC_NONCE_SIZE + BC_TAG_SIZE
                    then Some (BC_OK, buf, Some 0, sender_out, ffi_unlock g, bc_message_destroy msg w)
                    else do {
                      (rc, key) \<leftarrow> bc_crypto_derive_shared S (Some (id_secret_key (g_identity (ext w))))
                        (Some (msg_sender_pubkey m)) (Some (replicate BC_SHARED_KEY_SIZE 0));
                      (if rc \<noteq> BC_OK
                       then Some (rc, buf, Some 0, sender_out, ffi_unlock g, bc_message_destroy msg w)
                       else do {
                         let ct_len = msg_payload_len m - BC_NONCE_SIZE;
                         let pt_len = ct_len - BC_TAG_SIZE;
                         (if buf_len < pt_len
                          then Some (BC_ERR_BUFFER_TOO_SMALL, buf, Some pt_len, sender_out, ffi_unlock g,
                                 bc_message_destroy msg w)
                          else do {
                            (rc, buf) \<leftarrow> bc_crypto_decrypt S (Some (drop BC_NONCE_SIZE payload)) ct_len key
                              (Some payload) buf;
                            (if rc = BC_OK then do {
                               sender_out \<leftarrow> copy_out sender_out (msg_sender_pubkey m) BC_PUBKEY_SIZE;
                               Some (rc, buf, Some pt_len, sender_out, ffi_unlock g, bc_message_destroy msg w)
                             }
                             else Some (rc, buf, Some 0, sender_out, ffi_unlock g, bc_message_destroy msg w))
                          })
                       })
                    }))
        })
     }"

section \<open>Maintenance and shutdown\<close>

definition bitchat_start_discovery ::
  "'b inbox_state_scheme ffi \<Rightarrow> 'b ffi_world \<Rightarrow> (bc_err \<times> 'b inbox_state_scheme ffi \<times> 'b ffi_world) option" where
  "bitchat_start_discovery g w =
     do {
       g \<leftarrow> ffi_lock g;
       (if \<not> f_initialized g \<or> f_discovery g = None then Some (BC_ERR, ffi_unlock g, w)
        else do {
          (rc, d, w) \<leftarrow> bc_discovery_scan (f_discovery g) w;
          Some (rc, ffi_unlock (g\<lparr>f_discovery := d\<rparr>), w)
        })
     }"

definition bitchat_tick ::
  "'b inbox_state_scheme ffi \<Rightarrow> 'b ffi_world \<Rightarrow> ('b inbox_state_scheme ffi \<times> 'b ffi_world) option" where
  "bitchat_tick g w =
     do {
       g \<leftarrow> ffi_lock g;
       (if \<not> f_initialized g \<or> f_router g = None then Some (ffi_unlock g, w)
        else do {
          (r, w) \<leftarrow> bc_router_tick (f_router g) w;
          Some (ffi_unlock (g\<lparr>f_router := r\<rparr>), w)
        })
     }"

definition bitchat_set_on_message_callback ::
  "nat option \<Rightarrow> 'b inbox_state_scheme ffi \<Rightarrow> 'b ffi_world \<Rightarrow>
   (bc_err \<times> 'b inbox_state_scheme ffi \<times> 'b ffi_world) option" where
  "bitchat_set_on_message_callback callback g w =
     do {
       g \<leftarrow> ffi_lock g;
       (if \<not> f_initialized g then Some (BC_ERR, ffi_unlock g, w)
        else Some (BC_OK, ffi_unlock g, on_ext (g_user_callback_update (\<lambda>_. callback)) w))
     }"

text \<open>
  The drain loop of the shutdown, as a partial function: it is shown below to return for every ring
  the callback can build.
\<close>

partial_function (option) drain_inbox ::
  "bc_message ring \<Rightarrow> 'a world_scheme \<Rightarrow> (bc_message ring \<times> 'a world_scheme) option" where
  "drain_inbox q w =
     (if ring_empty q then Some (q, w)
      else do {
        (m, q) \<leftarrow> ring_get q;
        drain_inbox q (bc_message_destroy m w)
      })"

definition bitchat_shutdown ::
  "'b inbox_state_scheme ffi \<Rightarrow> 'b ffi_world \<Rightarrow> ('b inbox_state_scheme ffi \<times> 'b ffi_world) option" where
  "bitchat_shutdown g w =
     do {
       g \<leftarrow> ffi_lock g;
       (if \<not> f_initialized g then Some (ffi_unlock g, w)
        else do {
          let w = on_ext (g_user_callback_update (\<lambda>_. None)) w;
          (q, w) \<leftarrow> drain_inbox (g_inbox (ext w)) w;
          let w = (if f_discovery g \<noteq> None then bc_discovery_destroy (f_discovery g) w else w);
          let w = (if f_router g \<noteq> None then bc_router_destroy (f_router g) w else w);
          w \<leftarrow> (case f_storage g of None \<Rightarrow> Some w
                | Some s \<Rightarrow> do { d \<leftarrow> st_destroy s; Some (d w) });
          w \<leftarrow> (case f_transport g of None \<Rightarrow> Some w
                | Some t \<Rightarrow> do { d \<leftarrow> tr_destroy t; Some (c_free (d w)) });
          i \<leftarrow> bc_identity_wipe (Some (g_identity (ext w)));
          let w = on_ext (g_identity_update (\<lambda>_. i) \<circ> g_inbox_update (\<lambda>_. q\<lparr>rg_head := 0, rg_tail := 0\<rparr>)) w;
          let g = ffi_unlock (g\<lparr>f_initialized := False, f_transport := None, f_storage := None,
                    f_router := None, f_discovery := None\<rparr>);
          Some (g\<lparr>f_mutex_initialized := False\<rparr>, w)
        })
     }"

end
