(* ===== verification/Jni.thy ===== *)
theory Jni
  imports Ffi
begin

text \<open>
  The Android bridge, \<^verbatim>\<open>src/bridge/bitchat_jni.c\<close>, which maps the methods of the Kotlin class
  \<open>BitChatCore\<close> to the public interface and hands incoming messages to a Kotlin listener.

  A Java object is a natural number, a Java byte array a list of bytes, a null reference \<open>None\<close>. What
  the virtual machine answers is an unconstrained function of a call counter. Ghost counters record
  the global references, local references, pinned arrays and strings and thread attachments the
  bridge holds, and \<open>j_calls\<close> the calls of the listener. The listener's mutex is not recursive: to lock
  it twice blocks for ever, which is a fault.
\<close>

datatype env_status = JNI_OK | JNI_EDETACHED | JNI_ERR

record jni =
  j_jvm :: bool
  j_listener :: "nat option"
  j_method :: bool
  j_locked :: bool
  j_answers :: "nat \<Rightarrow> bool"
  j_status :: "nat \<Rightarrow> env_status"
  j_ncall :: nat
  j_exception :: bool
  j_globals :: int
  j_locals :: int
  j_pins :: int
  j_attached :: int
  j_calls :: "(nat \<times> bytes \<times> bytes) list"

section \<open>What the virtual machine does\<close>

definition jvm_ask :: "jni \<Rightarrow> bool \<times> jni" where
  "jvm_ask j = (j_answers j (j_ncall j), j\<lparr>j_ncall := Suc (j_ncall j)\<rparr>)"

definition get_env :: "jni \<Rightarrow> env_status \<times> jni" where
  "get_env j = (j_status j (j_ncall j), j\<lparr>j_ncall := Suc (j_ncall j)\<rparr>)"

definition jni_lock :: "jni \<Rightarrow> jni option" where
  "jni_lock j = (if j_locked j then None else Some (j\<lparr>j_locked := True\<rparr>))"

definition jni_unlock :: "jni \<Rightarrow> jni" where
  "jni_unlock j = j\<lparr>j_locked := False\<rparr>"

text \<open>The conversion of a \<open>size_t\<close> to \<open>jsize\<close>, a 32-bit signed integer.\<close>

definition jsize :: "nat \<Rightarrow> int" where
  "jsize n = signed_take_bit 31 (int n)"

text \<open>A new array is a local reference; a failure leaves an exception pending.\<close>

definition new_byte_array :: "int \<Rightarrow> jni \<Rightarrow> bytes option \<times> jni" where
  "new_byte_array n j =
     (let (ok, j) = jvm_ask j in
      if n < 0 \<or> \<not> ok then (None, j\<lparr>j_exception := True\<rparr>)
      else (Some (replicate (nat n) 0), j\<lparr>j_locals := j_locals j + 1\<rparr>))"

definition delete_local :: "'r option \<Rightarrow> jni \<Rightarrow> jni" where
  "delete_local r j = (if r = None then j else j\<lparr>j_locals := j_locals j - 1\<rparr>)"

text \<open>\<open>SetByteArrayRegion\<close>: out of the array's bounds an exception, beyond the source a fault.\<close>

definition set_region :: "bytes \<Rightarrow> nat \<Rightarrow> int \<Rightarrow> bytes \<Rightarrow> jni \<Rightarrow> (bytes \<times> jni) option" where
  "set_region arr start n src j =
     (if n < 0 \<or> int (length arr) < int start + n then Some (arr, j\<lparr>j_exception := True\<rparr>)
      else do { arr \<leftarrow> memcpy arr start src 0 (nat n); Some (arr, j) })"

text \<open>\<open>GetByteArrayElements\<close> and \<open>GetStringUTFChars\<close> pin their argument until it is released.\<close>

definition pin :: "jni \<Rightarrow> bool \<times> jni" where
  "pin j = (let (ok, j) = jvm_ask j in (ok, if ok then j\<lparr>j_pins := j_pins j + 1\<rparr> else j))"

definition unpin :: "jni \<Rightarrow> jni" where
  "unpin j = j\<lparr>j_pins := j_pins j - 1\<rparr>"

definition delete_global :: "jni \<Rightarrow> jni" where
  "delete_global j = j\<lparr>j_globals := j_globals j - 1\<rparr>"

section \<open>Loading and unloading\<close>

definition JNI_OnLoad :: "jni \<Rightarrow> jni" where
  "JNI_OnLoad j = j\<lparr>j_jvm := True\<rparr>"

definition JNI_OnUnload :: "jni \<Rightarrow> jni option" where
  "JNI_OnUnload j =
     do {
       j \<leftarrow> jni_lock j;
       let j = (if j_listener j \<noteq> None
                then let (rc, j) = get_env j;
                         j = (if rc = JNI_OK then delete_global j else j) in
                     j\<lparr>j_listener := None\<rparr>
                else j);
       Some ((jni_unlock (j\<lparr>j_method := False\<rparr>))\<lparr>j_jvm := False\<rparr>)
     }"

section \<open>The callback\<close>

text \<open>Both arrays are created and, when that succeeded, filled and passed to the listener.\<close>

definition call_listener :: "bytes \<Rightarrow> bytes \<Rightarrow> nat \<Rightarrow> jni \<Rightarrow> jni option" where
  "call_listener sender payload len j =
     (let (j_sender, j) = new_byte_array 32 j;
          (j_payload, j) = new_byte_array (jsize len) j in
      do {
        j \<leftarrow> (case (j_listener j, j_sender, j_payload) of
               (Some l, Some s, Some p) \<Rightarrow> do {
                 (s, j) \<leftarrow> set_region s 0 32 sender j;
                 (p, j) \<leftarrow> set_region p 0 (jsize len) payload j;
                 let (thrown, j) = jvm_ask (j\<lparr>j_calls := j_calls j @ [(l, s, p)]\<rparr>);
                 let j = (if thrown then j\<lparr>j_exception := True\<rparr> else j);
                 Some (if j_exception j then j\<lparr>j_exception := False\<rparr> else j)
               }
             | _ \<Rightarrow> Some j);
        Some (delete_local j_payload (delete_local j_sender j))
      })"

definition jni_on_message_callback :: "bytes \<Rightarrow> bytes \<Rightarrow> nat \<Rightarrow> jni \<Rightarrow> jni option" where
  "jni_on_message_callback sender payload len j =
     (if \<not> j_jvm j then Some j
      else do {
        j \<leftarrow> jni_lock j;
        (if j_listener j = None \<or> \<not> j_method j then Some (jni_unlock j)
         else
           let (get_rc, j) = get_env j in
           case get_rc of
             JNI_EDETACHED \<Rightarrow>
               let (ok, j) = jvm_ask j in
               if \<not> ok then Some (jni_unlock j)
               else do {
                 j \<leftarrow> call_listener sender payload len (j\<lparr>j_attached := j_attached j + 1\<rparr>);
                 let j = jni_unlock j;
                 Some (j\<lparr>j_attached := j_attached j - 1\<rparr>)
               }
           | JNI_OK \<Rightarrow> do {
               j \<leftarrow> call_listener sender payload len j;
               Some (jni_unlock j)
             }
           | JNI_ERR \<Rightarrow> Some (jni_unlock j))
      })"

text \<open>
  The calls of the registered callback during a call of the interface, in order. The interface's
  trace records them; neither the interface nor the callback reads the other's state, so the
  callback's effects can be computed after the call.
\<close>

fun run_callbacks :: "event list \<Rightarrow> jni \<Rightarrow> jni option" where
  "run_callbacks [] j = Some j"
| "run_callbacks (UserMessage sender payload # es) j =
     do { j \<leftarrow> jni_on_message_callback sender payload (length payload) j; run_callbacks es j }"
| "run_callbacks (e # es) j = run_callbacks es j"

definition JNI_CALLBACK :: nat where "JNI_CALLBACK = 1"

section \<open>The methods of the Kotlin class\<close>

type_synonym 'b bridge = "jni \<times> 'b inbox_state_scheme ffi \<times> 'b ffi_world"

definition jni_init ::
  "sodium \<Rightarrow> int \<Rightarrow> string option \<Rightarrow> 'b bridge \<Rightarrow> (bc_err \<times> 'b bridge) option" where
  "jni_init S mutex_rc storage_path = (\<lambda>(j, g, w).
     if storage_path = None then Some (BC_ERR_INVALID, j, g, w)
     else
       let (ok, j) = pin j in
       if \<not> ok then Some (BC_ERR_INVALID, j, g, w)
       else do {
         (rc, g, w) \<leftarrow> bitchat_init S mutex_rc storage_path g w;
         Some (rc, unpin j, g, w)
       })"

text \<open>The result is the new array, or null.\<close>

definition jni_generateIdentity ::
  "sodium \<Rightarrow> 'b bridge \<Rightarrow> (bytes option \<times> 'b bridge) option" where
  "jni_generateIdentity S = (\<lambda>(j, g, w).
     do {
       (rc, pubkey, secret, g, w) \<leftarrow> bitchat_generate_identity S (Some (replicate 32 0)) (Some (replicate 32 0)) g w;
       (if rc \<noteq> BC_OK then Some (None, j, g, w)
        else
          case new_byte_array 64 j of
            (None, j) \<Rightarrow> Some (None, j, g, w)
          | (Some result, j) \<Rightarrow> do {
              pubkey \<leftarrow> pubkey;
              secret \<leftarrow> secret;
              (result, j) \<leftarrow> set_region result 0 32 pubkey j;
              (result, j) \<leftarrow> set_region result 32 32 secret j;
              Some (Some result, j, g, w)
            })
     })"

definition jni_loadIdentity ::
  "sodium \<Rightarrow> bytes option \<Rightarrow> 'b bridge \<Rightarrow> (bc_err \<times> 'b bridge) option" where
  "jni_loadIdentity S identity_data = (\<lambda>(j, g, w).
     case identity_data of
       None \<Rightarrow> Some (BC_ERR_INVALID, j, g, w)
     | Some d \<Rightarrow>
         if length d < 64 then Some (BC_ERR_INVALID, j, g, w)
         else
           let (ok, j) = pin j in
           if \<not> ok then Some (BC_ERR_INVALID, j, g, w)
           else do {
             (rc, g, w) \<leftarrow> bitchat_load_identity S (Some d) (length d) g w;
             Some (rc, unpin j, g, w)
           })"

definition jni_sendMessage ::
  "sodium \<Rightarrow> bytes option \<Rightarrow> bytes option \<Rightarrow> 'b bridge \<Rightarrow> (bc_err \<times> 'b bridge) option" where
  "jni_sendMessage S recipient plaintext = (\<lambda>(j, g, w).
     case (recipient, plaintext) of
       (Some rcpt, Some pt) \<Rightarrow>
         if length rcpt \<noteq> 32 \<or> length pt \<le> 0 then Some (BC_ERR_INVALID, j, g, w)
         else
           let (rcpt_ok, j) = pin j;
               (pt_ok, j) = pin j in
           if \<not> rcpt_ok \<or> \<not> pt_ok
           then
             let j = (if rcpt_ok then unpin j else j);
                 j = (if pt_ok then unpin j else j) in
             Some (BC_ERR_INVALID, j, g, w)
           else do {
             (rc, g, w) \<leftarrow> bitchat_send_message S (Some rcpt) (Some pt) (length pt) g w;
             Some (rc, unpin (unpin j), g, w)
           }
     | _ \<Rightarrow> Some (BC_ERR_INVALID, j, g, w))"

definition POLL_BUF_SIZE :: nat where "POLL_BUF_SIZE = 4096"

definition jni_pollMessages :: "sodium \<Rightarrow> 'b bridge \<Rightarrow> (bytes option \<times> 'b bridge) option" where
  "jni_pollMessages S = (\<lambda>(j, g, w).
     do {
       (rc, buf, msg_len, sender, g, w) \<leftarrow> bitchat_poll_messages S (Some (replicate POLL_BUF_SIZE 0)) POLL_BUF_SIZE
         (Some 0) (Some (replicate 32 0)) g w;
       msg_len \<leftarrow> msg_len;
       (if rc \<noteq> BC_OK \<or> msg_len = 0 then Some (None, j, g, w)
        else
          case new_byte_array (jsize (size_add 32 msg_len)) j of
            (None, j) \<Rightarrow> Some (None, j, g, w)
          | (Some result, j) \<Rightarrow> do {
              sender \<leftarrow> sender;
              buf \<leftarrow> buf;
              (result, j) \<leftarrow> set_region result 0 32 sender j;
              (result, j) \<leftarrow> set_region result 32 (jsize msg_len) buf j;
              Some (Some result, j, g, w)
            })
     })"

definition jni_startDiscovery :: "'b bridge \<Rightarrow> (bc_err \<times> 'b bridge) option" where
  "jni_startDiscovery = (\<lambda>(j, g, w). do { (rc, g, w) \<leftarrow> bitchat_start_discovery g w; Some (rc, j, g, w) })"

definition jni_tick :: "'b bridge \<Rightarrow> 'b bridge option" where
  "jni_tick = (\<lambda>(j, g, w).
     do {
       (g, w') \<leftarrow> bitchat_tick g w;
       j \<leftarrow> run_callbacks (drop (length (w_trace w)) (w_trace w')) j;
       Some (j, g, w')
     })"

text \<open>
  The listener is kept as a global reference; the method identifier is looked up in its class, whose
  local reference is deleted again.
\<close>

definition cache_listener :: "nat \<Rightarrow> jni \<Rightarrow> bc_err \<times> jni" where
  "cache_listener l j =
     (let (ok, j) = jvm_ask j in
      if \<not> ok then (BC_ERR_NOMEM, j)
      else
        let j = j\<lparr>j_listener := Some l, j_globals := j_globals j + 1, j_locals := j_locals j + 1\<rparr>;
            (found, j) = jvm_ask j;
            j = j\<lparr>j_method := found, j_exception := (j_exception j \<or> \<not> found), j_locals := j_locals j - 1\<rparr> in
        if \<not> found
        then
          let j = (delete_global j)\<lparr>j_listener := None\<rparr>;
              j = (if j_exception j then j\<lparr>j_exception := False\<rparr> else j) in
          (BC_ERR_INVALID, j)
        else (BC_OK, j))"

definition release_listener :: "jni \<Rightarrow> jni" where
  "release_listener j =
     (if j_listener j \<noteq> None then (delete_global j)\<lparr>j_listener := None, j_method := False\<rparr> else j)"

definition jni_nativeSetOnMessageCallback ::
  "nat option \<Rightarrow> 'b bridge \<Rightarrow> (bc_err \<times> 'b bridge) option" where
  "jni_nativeSetOnMessageCallback listener = (\<lambda>(j, g, w).
     do {
       j \<leftarrow> jni_lock j;
       let j = release_listener j;
       let (rc, j) = (case listener of None \<Rightarrow> (BC_OK, j) | Some l \<Rightarrow> cache_listener l j);
       let j = jni_unlock j;
       (if rc \<noteq> BC_OK then Some (rc, j, g, w)
        else do {
          (rc, g, w) \<leftarrow> bitchat_set_on_message_callback (if listener = None then None else Some JNI_CALLBACK) g w;
          Some (rc, j, g, w)
        })
     })"

definition jni_shutdown :: "'b bridge \<Rightarrow> 'b bridge option" where
  "jni_shutdown = (\<lambda>(j, g, w).
     do {
       j \<leftarrow> jni_lock j;
       let j = jni_unlock (release_listener j);
       (g, w') \<leftarrow> bitchat_shutdown g w;
       j \<leftarrow> run_callbacks (drop (length (w_trace w)) (w_trace w')) j;
       Some (j, g, w')
     })"

end
