(* ===== verification/Ffi_Correct.thy ===== *)
theory Ffi_Correct
  imports Ffi Router_Props Sealing
begin

text \<open>
  Correctness of the public interface: the delivery callback keeps the contract the router relies
  on, the inbox is a queue, messages survive the way from one node's \<open>bitchat_send_message\<close> to the
  other's \<open>bitchat_poll_messages\<close>, and shutting down releases what the interface owns.
\<close>

section \<open>The callback\<close>

definition inbox_wf :: "'b inbox_state_scheme \<Rightarrow> bool" where
  "inbox_wf x \<longleftrightarrow> ring_wf (g_inbox x) \<and> (\<forall>m\<in>set (ring_items (g_inbox x)). storable m) \<and>
     identity_wf (g_identity x)"

definition ffi_inv :: "'b inbox_state_scheme \<Rightarrow> bool" where
  "ffi_inv x \<longleftrightarrow> sql_inv x \<and> inbox_wf x"

lemma inbox_wf_sql [simp]:
  "inbox_wf (q_ncall_update f x) = inbox_wf x" "inbox_wf (q_rows_update g x) = inbox_wf x"
  by (simp_all add: inbox_wf_def)

lemma sql_inv_inbox [simp]:
  "sql_inv (g_inbox_update f x) = sql_inv x" "sql_inv (g_identity_update g x) = sql_inv x"
  "sql_inv (g_user_callback_update h x) = sql_inv x"
  by (simp_all add: sql_inv_def)

text \<open>A creation that copies an existing message.\<close>

lemma create_copy:
  assumes "storable m"
  obtains (nomem) w' where "bc_message_create (Some (msg_sender_pubkey m)) (Some (msg_receiver_pubkey m))
        (msg_payload m) (msg_payload_len m) w = Some (None, w')"
      "w_live w' = w_live w" "w_trace w' = w_trace w" "ext w' = ext w" "\<exists>k s. \<not> w_heap w k s"
  | (ok) c w' where "bc_message_create (Some (msg_sender_pubkey m)) (Some (msg_receiver_pubkey m))
        (msg_payload m) (msg_payload_len m) w = Some (Some c, w')"
      "length (msg_uuid c) = 16"
      "c\<lparr>msg_uuid := msg_uuid m, msg_ttl := msg_ttl m, msg_timestamp := msg_timestamp m\<rparr> = m"
      "w_live w' = w_live w + msg_blocks m" "w_trace w' = w_trace w" "ext w' = ext w" "oracles w' = oracles w"
proof -
  have wf: "message_wf m" using assms by (simp add: storable_def)
  let ?R = "bc_message_create (Some (msg_sender_pubkey m)) (Some (msg_receiver_pubkey m))
        (msg_payload m) (msg_payload_len m) w"
  have "(\<exists>w'. ?R = Some (None, w') \<and> w_live w' = w_live w \<and> w_trace w' = w_trace w \<and> ext w' = ext w \<and>
      (\<exists>k s. \<not> w_heap w k s)) \<or>
    (\<exists>c w'. ?R = Some (Some c, w') \<and> length (msg_uuid c) = 16 \<and>
       c\<lparr>msg_uuid := msg_uuid m, msg_ttl := msg_ttl m, msg_timestamp := msg_timestamp m\<rparr> = m \<and>
       w_live w' = w_live w + msg_blocks m \<and> w_trace w' = w_trace w \<and> ext w' = ext w \<and> oracles w' = oracles w)"
    using wf
    by (cases "w_heap w (w_nalloc w) sizeof_message"; cases "w_heap w (Suc (w_nalloc w)) (msg_payload_len m)";
        cases "msg_payload m")
      (auto simp: bc_message_create_def c_malloc_def c_free_def c_time_def randombytes_buf_def oracles_def
        mem_simps Let_def message_wf_def msg_blocks_def size_defs intro!: message_eqI)
  then show ?thesis using nomem ok by blast
qed

lemma inbox_store_ok:
  assumes m: "storable m" and inv: "inbox_wf (ext w)"
  shows "\<exists>w' q. inbox_store m w = Some w' \<and> ext w' = (ext w)\<lparr>g_inbox := q\<rparr> \<and> ring_wf q \<and>
    w_trace w' = w_trace w \<and>
    (ring_items q = ring_items (g_inbox (ext w)) @ [m] \<and> w_live w' = w_live w + msg_blocks m \<and> oracles w' = oracles w \<or>
     ring_items q = ring_items (g_inbox (ext w)) \<and> w_live w' = w_live w \<and>
       (length (ring_items (g_inbox (ext w))) = 255 \<or> (\<exists>k s. \<not> w_heap w k s)))"
proof (cases "ring_full (g_inbox (ext w))")
  case True
  have wf: "ring_wf (g_inbox (ext w))" using inv by (simp add: inbox_wf_def)
  have "inbox_store m w = Some w" using True by (simp add: inbox_store_def)
  moreover have "ext w = (ext w)\<lparr>g_inbox := g_inbox (ext w)\<rparr>" by simp
  ultimately show ?thesis using wf True rq.full_iff [OF wf] by blast
next
  case False
  have wf: "ring_wf (g_inbox (ext w))" using inv by (simp add: inbox_wf_def)
  from m show ?thesis
  proof (cases rule: create_copy [where w = w])
    case (nomem w')
    then have "inbox_store m w = Some w'" using False by (simp add: inbox_store_def)
    moreover have "ext w' = (ext w)\<lparr>g_inbox := g_inbox (ext w)\<rparr>" using nomem(4) by simp
    ultimately show ?thesis using wf nomem by blast
  next
    case (ok c w')
    let ?c = "c\<lparr>msg_uuid := msg_uuid m, msg_ttl := msg_ttl m, msg_timestamp := msg_timestamp m\<rparr>"
    obtain q where q: "ring_put m (g_inbox (ext w)) = Some q" "ring_wf q"
        "ring_items q = ring_items (g_inbox (ext w)) @ [m]"
      using rq.put_ok [OF wf False] by blast
    have "length (msg_uuid m) = 16" using m by (simp add: storable_def message_wf_def size_defs)
    then have "inbox_store m w = Some (on_ext (g_inbox_update (\<lambda>_. q)) w')"
      using False ok q(1) by (simp add: inbox_store_def memcpy_first size_defs)
    with q ok show ?thesis
      by (intro exI [of _ "on_ext (g_inbox_update (\<lambda>_. q)) w'"] exI [of _ q]) simp
  qed
qed

lemma push_user_eq:
  assumes S: "sodium_ok S" and m: "storable m" and i: "identity_wf (g_identity (ext w))"
    and p: "msg_payload m = Some p" "40 \<le> length p" and cb: "g_user_callback (ext w) = Some cb"
  defines "sk \<equiv> id_secret_key (g_identity (ext w))" and "w1 \<equiv> snd (c_malloc (length p - 40) w)"
  shows "push_user S m w = Some (case sd_box_beforenm S (msg_sender_pubkey m) sk of None \<Rightarrow> w
    | Some k \<Rightarrow> if \<not> fst (c_malloc (length p - 40) w) then w1
        else c_free (case open_message S sk m of None \<Rightarrow> w1 | Some pt \<Rightarrow> emit (UserMessage (msg_sender_pubkey m) pt) w1))"
proof -
  have l: "message_wf m" "length sk = 32" "msg_payload_len m = length p"
    using m i p by (simp_all add: sk_def storable_def message_wf_def identity_wf_def size_defs)
  note os = open_steps [OF S l(1,2) p] and defs = push_user_def crypto_sizes l(3) p(1) cb sk_def [symmetric]
  show ?thesis
  proof (cases "sd_box_beforenm S (msg_sender_pubkey m) sk")
    case None
    then show ?thesis using p(2) os(1) by (simp add: defs)
  next
    case (Some k)
    have "take (length p - 40) pt = pt" if "open_message S sk m = Some pt" for pt using os(4) [OF that] by simp
    then show ?thesis
      using p(2) os(1) os(3) [OF Some, of "replicate (length p - 40) 0"] Some
      by (simp add: defs w1_def case_prod_beta Let_def diff_diff_left split: option.split cong: if_cong)
  qed
qed

text \<open>
  Pushing to the user: one call with the decrypted text if a callback is registered, the message can
  be opened and the buffer can be allocated; otherwise nothing. The buffer is freed.
\<close>

lemma push_user_ok:
  assumes S: "sodium_ok S" and m: "storable m" and i: "identity_wf (g_identity (ext w))"
  shows "\<exists>w' es. push_user S m w = Some w' \<and> ext w' = ext w \<and> w_live w' = w_live w \<and>
    w_trace w' = w_trace w @ es \<and>
    (es = [] \<or> (\<exists>pt. open_message S (id_secret_key (g_identity (ext w))) m = Some pt \<and>
       es = [UserMessage (msg_sender_pubkey m) pt])) \<and>
    (g_user_callback (ext w) \<noteq> None \<and> (\<forall>k s. w_heap w k s) \<longrightarrow>
       (\<forall>pt. open_message S (id_secret_key (g_identity (ext w))) m = Some pt \<longrightarrow>
         es = [UserMessage (msg_sender_pubkey m) pt]))"
proof (cases "g_user_callback (ext w) \<noteq> None \<and> (\<exists>p. msg_payload m = Some p \<and> 40 \<le> msg_payload_len m)")
  case False
  then have "push_user S m w = Some w"
    by (auto simp: push_user_def crypto_sizes split: option.split)
  moreover have "open_message S sk m = None" if "g_user_callback (ext w) \<noteq> None" for sk
    using False that m by (auto simp: open_message_def storable_def message_wf_def split: option.split)
  ultimately show ?thesis by (auto intro!: exI [of _ "[]"])
next
  case True
  then obtain p cb where p: "msg_payload m = Some p" "40 \<le> length p" and cb: "g_user_callback (ext w) = Some cb"
    using m by (auto simp: storable_def message_wf_def)
  let ?sk = "id_secret_key (g_identity (ext w))" and ?n = "length p - 40"
  let ?w1 = "snd (c_malloc ?n w)" and ?o = "open_message S (id_secret_key (g_identity (ext w))) m"
  note pu = push_user_eq [OF S m i p cb]
  have os: "?o = None" if "sd_box_beforenm S (msg_sender_pubkey m) ?sk = None" using p that by (simp add: open_message_def)
  have h: "fst (c_malloc ?n w)" if "\<forall>k s. w_heap w k s" using that by (simp add: c_malloc_def)
  show ?thesis
  proof (cases "sd_box_beforenm S (msg_sender_pubkey m) ?sk \<noteq> None \<and> fst (c_malloc ?n w) \<and> ?o \<noteq> None")
    case True
    then obtain pt where "?o = Some pt" by blast
    with True pu show ?thesis
      by (intro exI [of _ "c_free (emit (UserMessage (msg_sender_pubkey m) pt) ?w1)"]
          exI [of _ "[UserMessage (msg_sender_pubkey m) pt]"]) auto
  next
    case False
    then have "\<exists>w'. push_user S m w = Some w' \<and> ext w' = ext w \<and> w_live w' = w_live w \<and> w_trace w' = w_trace w"
      using pu by (cases ?o) (auto split: option.split)
    moreover have "?o = None" if "\<forall>k s. w_heap w k s" using False os h that by blast
    ultimately show ?thesis by auto
  qed
qed

text \<open>
  The interface's invariant with a fixed identity, which only the identity functions change, over a
  library that keeps its laws. Under it the interface's callback keeps the router's contract.
\<close>

definition ffi_inv_for :: "sodium \<Rightarrow> bc_identity \<Rightarrow> 'b inbox_state_scheme \<Rightarrow> bool" where
  "ffi_inv_for S i x \<longleftrightarrow> sodium_ok S \<and> ffi_inv x \<and> g_identity x = i"

interpretation cb: callback_port "ffi_inv_for S i" "on_message_received S" for S i
proof
  fix m ud and w :: "'a ffi_world"
  assume m: "storable m" and J: "ffi_inv_for S i (ext w)"
  then have inv: "inbox_wf (ext w)" and laws: "sodium_ok S" by (simp_all add: ffi_inv_for_def ffi_inv_def)
  obtain w1 q where w1: "inbox_store m w = Some w1" "ext w1 = (ext w)\<lparr>g_inbox := q\<rparr>" "ring_wf q"
      "w_trace w1 = w_trace w" "ring_items q = ring_items (g_inbox (ext w)) @ [m] \<or>
        ring_items q = ring_items (g_inbox (ext w))"
    using inbox_store_ok [OF m inv] by blast
  have "identity_wf (g_identity (ext w1))" using inv w1(2) by (simp add: inbox_wf_def)
  from push_user_ok [OF laws m this] obtain w2 es where w2: "push_user S m w1 = Some w2" "ext w2 = ext w1"
      "w_trace w2 = w_trace w1 @ es" and es: "es = [] \<or> (\<exists>pt. open_message S (id_secret_key (g_identity (ext w1))) m = Some pt \<and>
        es = [UserMessage (msg_sender_pubkey m) pt])"
    by blast
  have "to_user (UserMessage (msg_sender_pubkey m) pt)" if "open_message S sk m = Some pt" for sk pt
    using open_message_length [OF laws _ that] m by (simp add: to_user_def storable_def message_wf_def size_defs)
  with es have w2': "\<forall>e\<in>set es. to_user e" by auto
  have "ffi_inv_for S i (ext w2)" using J w1 w2(2) m by (auto simp: ffi_inv_for_def ffi_inv_def inbox_wf_def)
  with w1 w2 w2' show "\<exists>w' es. on_message_received S ud m w = Some w' \<and> w_trace w' = w_trace w @ es \<and>
      (\<forall>e\<in>set es. to_user e) \<and> ffi_inv_for S i (ext w')"
    by (simp add: on_message_received_def)
qed

interpretation fs: storage_port "ffi_inv_for S i" sqlite_storage for S i
  using sqlite_storage_port [of "\<lambda>x. sodium_ok S \<and> inbox_wf x \<and> g_identity x = i"]
  by (simp add: ffi_inv_def ffi_inv_for_def [abs_def] conj_left_commute)

section \<open>The invariant of the interface\<close>

definition ffi_router_ok :: "sodium \<Rightarrow> 'b inbox_state_scheme ffi \<Rightarrow> bc_identity \<Rightarrow> 'b inbox_state_scheme bc_router \<Rightarrow> bool" where
  "ffi_router_ok S g i r \<longleftrightarrow> router_wf r \<and> r_transport r = f_transport g \<and> r_storage r = f_storage g \<and>
     r_on_message r = Some (on_message_received S) \<and> r_local_pubkey r = id_pubkey i"

definition ffi_ok :: "sodium \<Rightarrow> 'b inbox_state_scheme ffi \<Rightarrow> 'b ffi_world \<Rightarrow> bool" where
  "ffi_ok S g w \<longleftrightarrow> f_mutex_initialized g \<and> f_initialized g \<and> f_storage g = Some sqlite_storage \<and>
     f_transport g \<in> {None, Some ble_transport} \<and>
     (\<forall>r. f_router g = Some r \<longrightarrow> ffi_router_ok S g (g_identity (ext w)) r) \<and>
     (\<forall>d. f_discovery g = Some d \<longrightarrow> disc_wf d \<and> d_transport d = f_transport g) \<and>
     ffi_inv (ext w)"

lemma ffi_inv_for_self: "sodium_ok S \<Longrightarrow> ffi_ok S g w \<Longrightarrow> ffi_inv_for S (g_identity (ext w)) (ext w)"
  by (simp add: ffi_ok_def ffi_inv_for_def)

lemma ffi_ports:
  assumes "ffi_ok S g w" "f_router g = Some r"
  shows "router_ports (ffi_inv_for S i) r"
  using assms ble.transport_port_axioms fs.storage_port_axioms cb.callback_port_axioms [of S i]
  by (auto simp: ffi_ok_def ffi_router_ok_def router_ports_def)

lemma ffi_draining:
  assumes "ffi_ok S g w" "f_router g = Some r"
  shows "draining_ports (\<lambda>k. ffi_inv_for S i) r"
  using assms ffi_ports [OF assms] ble_poll.draining_transport_axioms
  by (auto simp: ffi_ok_def ffi_router_ok_def draining_ports_def)

text \<open>A tick of the interface returns, keeps the invariant and releases the mutex.\<close>

lemma tick_ok:
  assumes S: "sodium_ok S" and ok: "ffi_ok S g w"
  shows "\<exists>g' w'. bitchat_tick g w = Some (g', w') \<and> ffi_ok S g' w' \<and> f_lock_depth g' = f_lock_depth g \<and> grows w w'"
proof (cases "f_router g")
  case None
  with ok show ?thesis by (simp add: grows_same bitchat_tick_def ffi_lock_def ffi_unlock_def ffi_ok_def)
next
  case (Some r)
  let ?i = "g_identity (ext w)"
  have r: "ffi_router_ok S g ?i r" using ok Some by (simp add: ffi_ok_def)
  obtain r' w' where r': "bc_router_tick (Some r) w = Some (Some r', w')" "router_wf r'"
      "ffi_inv_for S ?i (ext w')" "r_local_pubkey r' = r_local_pubkey r" "grows w w'"
      "r_transport r' = r_transport r" "r_storage r' = r_storage r" "r_on_message r' = r_on_message r"
    using tick_total [OF ffi_draining [OF ok Some], of ?i w] r ffi_inv_for_self [OF S ok]
    by (auto simp: ffi_router_ok_def)
  have "bitchat_tick g w = Some (ffi_unlock (g\<lparr>f_lock_depth := f_lock_depth g + 1, f_router := Some r'\<rparr>), w')"
    using ok Some r'(1) by (simp add: bitchat_tick_def ffi_lock_def ffi_ok_def)
  moreover have "ffi_ok S (ffi_unlock (g\<lparr>f_lock_depth := f_lock_depth g + 1, f_router := Some r'\<rparr>)) w'"
    using ok r r' by (auto simp: ffi_ok_def ffi_router_ok_def ffi_unlock_def ffi_inv_for_def)
  ultimately show ?thesis using r'(5) by (simp add: ffi_unlock_def)
qed

section \<open>Receiving and polling\<close>

lemma copy_out_opt: "pred_option (\<lambda>d. length d = n) d \<Longrightarrow> length src = n \<Longrightarrow> copy_out d src n = Some (map_option (\<lambda>_. src) d)"
  by (cases d) (simp_all add: copy_out_def memcpy_first)

text \<open>The common start of a poll that finds a message: the message leaves the queue.\<close>

lemma poll_head:
  assumes "ffi_ok S g w" "ring_items (g_inbox (ext w)) = m # ms"
  obtains q where "ring_get (g_inbox (ext w)) = Some (Some m, q)" "ring_wf q" "ring_items q = ms"
    "\<not> ring_empty (g_inbox (ext w))" "storable m"
    "length (id_secret_key (g_identity (ext w))) = 32"
proof -
  have wf: "ring_wf (g_inbox (ext w))" "\<forall>m\<in>set (ring_items (g_inbox (ext w))). storable m"
      "identity_wf (g_identity (ext w))"
    using assms(1) by (simp_all add: ffi_ok_def ffi_inv_def inbox_wf_def)
  have ne: "\<not> ring_empty (g_inbox (ext w))" using rq.empty_iff [OF wf(1)] assms(2) by simp
  from rq.get_ok [OF wf(1) ne] assms(2) that ne wf(2,3) show ?thesis
    by (auto simp: identity_wf_def size_defs)
qed

lemma poll_length:
  assumes "sodium_ok S" "ffi_ok S g w" "ring_items (g_inbox (ext w)) = m # ms" "msg_payload m = Some p" "open_message S sk m = Some pt"
  shows "length pt = length p - 40"
proof -
  have "storable m" by (rule poll_head [OF assms(2,3)])
  then have "message_wf m" "msg_payload_len m = length p" using assms(4) by (simp_all add: storable_def message_wf_def)
  with open_message_length [OF assms(1) _ assms(5)] show ?thesis by simp
qed

lemma poll_eq:
  assumes S: "sodium_ok S" and ok: "ffi_ok S g w" and items: "ring_items (g_inbox (ext w)) = m # ms"
    and p: "msg_payload m = Some p" "40 \<le> length p" and b: "n \<le> length buf" "pred_option (\<lambda>d. length d = 32) so"
  obtains q where "ring_wf q" "ring_items q = ms"
    "bitchat_poll_messages S (Some buf) n (Some k0) so g w =
      (let g = ffi_unlock (g\<lparr>f_lock_depth := f_lock_depth g + 1\<rparr>);
           w' = bc_message_destroy (Some m) (on_ext (g_inbox_update (\<lambda>_. q)) w) in
       if sd_box_beforenm S (msg_sender_pubkey m) (id_secret_key (g_identity (ext w))) = None
       then Some (BC_ERR_CRYPTO, Some buf, Some 0, so, g, w')
       else if n < length p - 40 then Some (BC_ERR_BUFFER_TOO_SMALL, Some buf, Some (length p - 40), so, g, w')
       else case open_message S (id_secret_key (g_identity (ext w))) m of
         None \<Rightarrow> Some (BC_ERR_CRYPTO, Some buf, Some 0, so, g, w')
       | Some pt \<Rightarrow> Some (BC_OK, Some (pt @ drop (length pt) buf), Some (length pt),
           map_option (\<lambda>_. msg_sender_pubkey m) so, g, w'))"
proof -
  obtain q where q: "ring_get (g_inbox (ext w)) = Some (Some m, q)" "ring_wf q" "ring_items q = ms"
      "\<not> ring_empty (g_inbox (ext w))" "storable m" "length (id_secret_key (g_identity (ext w))) = 32"
    using poll_head [OF ok items] .
  have m: "message_wf m" "length (msg_sender_pubkey m) = 32" "msg_payload_len m = length p"
    using q(5) p by (simp_all add: storable_def message_wf_def size_defs)
  note os = open_steps [OF S m(1) q(6) p]
  have init: "f_mutex_initialized g" "f_initialized g" using ok by (simp_all add: ffi_ok_def)
  have "\<not> length p < 40" using p(2) by simp
  note simps = bitchat_poll_messages_def ffi_lock_def crypto_sizes size_defs Let_def init q(1,4) p(1) this m(3) os(1)
  let ?k = "sd_box_beforenm S (msg_sender_pubkey m) (id_secret_key (g_identity (ext w)))"
  let ?o = "open_message S (id_secret_key (g_identity (ext w))) m"
  consider "?k = None" | k where "?k = Some k" "n < length p - 40" | k where "?k = Some k" "\<not> n < length p - 40" by fastforce
  then show ?thesis
  proof cases
    case 1
    then show ?thesis by (intro that [OF q(2,3)]) (simp add: simps)
  next
    case 2
    then show ?thesis by (intro that [OF q(2,3)]) (simp add: simps not_less)
  next
    case 3
    then show ?thesis
      using os(3) [OF 3(1), of buf] os(4) copy_out_opt [OF b(2) m(2)] b(1) p(2)
      by (intro that [OF q(2,3)]) (cases ?o; simp add: simps)
  qed
qed

text \<open>The invariant after a message has left the inbox.\<close>

lemma poll_inv:
  assumes "ffi_ok S g w" "ring_items (g_inbox (ext w)) = m # ms" "ring_wf q" "ring_items q = ms"
  shows "ffi_ok S (ffi_unlock (g\<lparr>f_lock_depth := f_lock_depth g + 1\<rparr>))
    (bc_message_destroy (Some m) (on_ext (g_inbox_update (\<lambda>_. q)) w))"
  using assms by (auto simp: ffi_ok_def ffi_unlock_def ffi_router_ok_def ffi_inv_def inbox_wf_def)

lemma open_payload:
  assumes "open_message S sk m = Some pt"
  obtains p where "msg_payload m = Some p" "40 \<le> length p" "sd_box_beforenm S (msg_sender_pubkey m) sk \<noteq> None"
  using assms by (auto simp: open_message_def bind_Some_iff split: option.splits if_splits)

lemma poll_ok:
  assumes S: "sodium_ok S" and ok: "ffi_ok S g w" and items: "ring_items (g_inbox (ext w)) = m # ms"
    and pt: "open_message S (id_secret_key (g_identity (ext w))) m = Some pt"
    and b: "length pt \<le> n" "n \<le> length buf" "length so = 32"
  shows "\<exists>g' w'. bitchat_poll_messages S (Some buf) n (Some k) (Some so) g w =
      Some (BC_OK, Some (pt @ drop (length pt) buf), Some (length pt), Some (msg_sender_pubkey m), g', w') \<and>
    ring_items (g_inbox (ext w')) = ms \<and> w_live w' = w_live w - msg_blocks m \<and> ffi_ok S g' w' \<and>
    f_lock_depth g' = f_lock_depth g"
proof -
  obtain p where p: "msg_payload m = Some p" "40 \<le> length p" "sd_box_beforenm S (msg_sender_pubkey m) (id_secret_key (g_identity (ext w))) \<noteq> None"
    using open_payload [OF pt] .
  obtain q where q: "ring_wf q" "ring_items q = ms" "bitchat_poll_messages S (Some buf) n (Some k) (Some so) g w =
      Some (BC_OK, Some (pt @ drop (length pt) buf), Some (length pt), Some (msg_sender_pubkey m),
        ffi_unlock (g\<lparr>f_lock_depth := f_lock_depth g + 1\<rparr>), bc_message_destroy (Some m) (on_ext (g_inbox_update (\<lambda>_. q)) w))"
    using poll_eq [OF S ok items p(1,2) b(2), of "Some so" k] poll_length [OF S ok items p(1) pt] pt p(3) b by (auto simp: Let_def)
  with poll_inv [OF ok items q(1,2)] show ?thesis by (auto simp: ffi_unlock_def)
qed

text \<open>
  C35. A poll with a buffer that is too small reports the size that is needed, but the message is
  gone: it has left the inbox and been freed, so that a second poll with a larger buffer cannot get it.
\<close>

theorem poll_small_buffer_loses_message:
  assumes S: "sodium_ok S" and ok: "ffi_ok S g w" and items: "ring_items (g_inbox (ext w)) = m # ms"
    and pt: "open_message S (id_secret_key (g_identity (ext w))) m = Some pt" and b: "n < length pt"
    and buf: "n \<le> length buf" "pred_option (\<lambda>d. length d = 32) so"
  shows "\<exists>g' w'. bitchat_poll_messages S (Some buf) n (Some k) so g w =
      Some (BC_ERR_BUFFER_TOO_SMALL, Some buf, Some (length pt), so, g', w') \<and>
    ring_items (g_inbox (ext w')) = ms \<and> w_live w' = w_live w - msg_blocks m"
proof -
  obtain p where p: "msg_payload m = Some p" "40 \<le> length p" "sd_box_beforenm S (msg_sender_pubkey m) (id_secret_key (g_identity (ext w))) \<noteq> None"
    using open_payload [OF pt] .
  obtain q where q: "ring_wf q" "ring_items q = ms" "bitchat_poll_messages S (Some buf) n (Some k) so g w =
      Some (BC_ERR_BUFFER_TOO_SMALL, Some buf, Some (length pt), so, ffi_unlock (g\<lparr>f_lock_depth := f_lock_depth g + 1\<rparr>),
        bc_message_destroy (Some m) (on_ext (g_inbox_update (\<lambda>_. q)) w))"
    using poll_eq [OF S ok items p(1,2) buf, of k] poll_length [OF S ok items p(1) pt] p(3) b by (auto simp: Let_def)
  then show ?thesis by auto
qed

section \<open>Delivery\<close>

text \<open>
  A packet for this node that is new, alive and well-formed ends up in the inbox as it was sent, with
  one hop less, when there is room and memory.
\<close>

lemma receive_to_inbox:
  assumes laws: "sodium_ok S" and ok: "ffi_ok S g w" and r: "f_router g = Some r"
    and d: "bc_message_deserialize (Some d) n w = Some (Some m, w1)" "n \<le> length d" "length d < 2 ^ 31"
    and new: "\<not> seen r (msg_uuid m)" "msg_ttl m \<noteq> 0" and us: "msg_receiver_pubkey m = r_local_pubkey r"
    and heap: "\<forall>k s. w_heap w k s" and room: "length (ring_items (g_inbox (ext w))) < 255"
  shows "\<exists>r' w'. bc_router_receive (Some r) (Some d) n w = Some (BC_OK, Some r', w') \<and>
    ring_items (g_inbox (ext w')) = ring_items (g_inbox (ext w)) @ [m\<lparr>msg_ttl := msg_ttl m - 1\<rparr>] \<and>
    ffi_ok S (g\<lparr>f_router := Some r'\<rparr>) w' \<and> w_live w' = w_live w + msg_blocks m \<and>
    g_identity (ext w') = g_identity (ext w)"
proof -
  have wf: "router_wf r" using ok r by (simp add: ffi_ok_def ffi_router_ok_def)
  note m = decoded_storable [OF d]
  let ?m = "m\<lparr>msg_ttl := msg_ttl m - 1\<rparr>"
  obtain r' where r': "router_mark r (msg_uuid m) w1 = Some (r', snd (c_time w1))"
      "router_wf r'" "same_but_seen r r'"
    using router_mark_ok [OF wf m(2)] .
  note fr = same_but_seen_frame [OF r'(3)]
  let ?w2 = "emit (Delivered ?m) (snd (c_time w1))"
  have cb: "r_on_message r' = Some (on_message_received S)" using ok r fr by (simp add: ffi_ok_def ffi_router_ok_def)
  have sm: "storable ?m" and inv: "inbox_wf (ext ?w2)"
    using m ok by (simp_all add: ffi_ok_def ffi_inv_def)
  have heap2: "w_heap ?w2 k s" for k s using heap oracles_heap [of ?w2 w] m(8) by simp
  from inbox_store_ok [OF sm inv] obtain w3 q where w3: "inbox_store ?m ?w2 = Some w3"
      "ext w3 = (ext ?w2)\<lparr>g_inbox := q\<rparr>" "ring_wf q" "ring_items q = ring_items (g_inbox (ext ?w2)) @ [?m]"
      "w_live w3 = w_live ?w2 + msg_blocks ?m"
    using heap2 room m(6) by fastforce
  have "identity_wf (g_identity (ext w3))" using inv w3(2) by (simp add: inbox_wf_def)
  from push_user_ok [OF laws sm this] obtain w4 where w4: "push_user S ?m w3 = Some w4" "ext w4 = ext w3"
      "w_live w4 = w_live w3" by blast
  have res: "bc_router_receive (Some r) (Some d) n w = Some (BC_OK, Some r', bc_message_destroy (Some ?m) w4)"
    using receive_live [OF m(7) d(1) wf m(2) new r'(1)] us fr(4) cb w3(1) w4(1)
    by (simp add: Let_def on_message_received_def)
  have "ffi_ok S (g\<lparr>f_router := Some r'\<rparr>) (bc_message_destroy (Some ?m) w4)"
    using ok r r'(2) fr w3 w4(2) m(6) sm
    by (auto simp: ffi_ok_def ffi_router_ok_def ffi_inv_def inbox_wf_def)
  with res w3 w4 m show ?thesis by auto
qed

section \<open>Sending\<close>

lemma send_eq:
  fixes w :: "'b ffi_world"
  assumes S: "sodium_ok S" and ok: "ffi_ok S g w" and r: "f_router g = Some r" and rcpt: "length rcpt = 32" and n: "length pt < 2 ^ 30"
  defines "gl \<equiv> g\<lparr>f_lock_depth := f_lock_depth g + 1\<rparr>"
  shows "bitchat_send_message S (Some rcpt) (Some pt) (length pt) g w =
    (case seal S (g_identity (ext w)) rcpt pt w of
       (No_Key, w) \<Rightarrow> Some (BC_ERR_CRYPTO, ffi_unlock gl, w) | (No_Buffer, w) \<Rightarrow> Some (BC_ERR_NOMEM, ffi_unlock gl, w)
     | (No_Cipher, w) \<Rightarrow> Some (BC_ERR_CRYPTO, ffi_unlock gl, w) | (No_Message, w) \<Rightarrow> Some (BC_ERR_NOMEM, ffi_unlock gl, w)
     | (Sealed m, w) \<Rightarrow> do {
         (rc, r, w) \<leftarrow> bc_router_broadcast (f_router g) (Some m) w;
         Some (rc, ffi_unlock (gl\<lparr>f_router := r\<rparr>), bc_message_destroy (Some m) w) })"
proof -
  have i: "identity_wf (g_identity (ext w))" using ok by (simp add: ffi_ok_def ffi_inv_def inbox_wf_def)
  have lock: "ffi_lock g = Some gl" "f_initialized gl" "f_router gl = Some r" using ok r by (simp_all add: gl_def ffi_ok_def ffi_lock_def)
  have gr: "f_router g = f_router gl" by (simp add: gl_def)
  have guard: "(\<not> f_initialized gl \<or> f_router gl = None \<or> Some rcpt = None \<or> Some pt = None) = False" using lock by simp
  show ?thesis
    using seal_steps [of S g_identity w rcpt pt "\<lambda>rc w. Some (rc, ffi_unlock gl, w)" "\<lambda>w. Some (BC_ERR_NOMEM, ffi_unlock gl, w)"
        "\<lambda>rc w. Some (rc, ffi_unlock gl, w)" "\<lambda>w. Some (BC_ERR_NOMEM, ffi_unlock gl, w)"
        "\<lambda>m w. do { (rc, r, w) \<leftarrow> bc_router_broadcast (f_router gl) m w;
           Some (rc, ffi_unlock (gl\<lparr>f_router := r\<rparr>), bc_message_destroy m w) }", OF S i rcpt n]
    unfolding bitchat_send_message_def lock(1) gr bind.bind_lunit guard if_False .
qed

text \<open>
  Sending returns and keeps the invariant; with memory, a key and a cipher, one sealed message is
  gossiped and persisted and its identifier is seen.
\<close>

lemma send_spec:
  fixes w :: "'b ffi_world"
  assumes laws: "sodium_ok S" and ok: "ffi_ok S g w" and r: "f_router g = Some r"
    and rcpt: "length rcpt = 32" and n: "length pt < 2 ^ 30"
  shows "\<exists>rc g' w'. bitchat_send_message S (Some rcpt) (Some pt) (length pt) g w = Some (rc, g', w') \<and>
    ffi_ok S g' w' \<and> f_lock_depth g' = f_lock_depth g \<and> w_live w' = w_live w \<and>
    ((\<forall>k s. w_heap w k s) \<and> can_seal S (g_identity (ext w)) rcpt pt \<longrightarrow> rc = BC_OK) \<and>
    (if rc = BC_OK
     then \<exists>m rcs rc2 r'. sealed_for S (g_identity (ext w)) rcpt pt m \<and> gossiped r (wire m) rcs \<and>
        w_trace w' = w_trace w @ sends (wire m) (known_peers r) rcs @ [Stored m rc2] \<and>
        f_router g' = Some r' \<and> seen r' (msg_uuid m)
     else rc \<in> {BC_ERR_CRYPTO, BC_ERR_NOMEM} \<and> w_trace w' = w_trace w)"
proof -
  let ?i = "g_identity (ext w)" and ?gl = "g\<lparr>f_lock_depth := f_lock_depth g + 1\<rparr>"
  have i: "identity_wf ?i" using ok by (simp add: ffi_ok_def ffi_inv_def inbox_wf_def)
  have rok: "ffi_router_ok S g ?i r" using ok r by (simp add: ffi_ok_def)
  obtain res w1 where sl: "seal S ?i rcpt pt w = (res, w1)" "ext w1 = ext w" "w_trace w1 = w_trace w" "oracles w1 = oracles w"
      "w_live w1 = w_live w + (case res of Sealed m \<Rightarrow> msg_blocks m | _ \<Rightarrow> 0)"
      "\<forall>m. res = Sealed m \<longrightarrow> sealed_for S ?i rcpt pt m"
      "(\<forall>k s. w_heap w k s) \<and> can_seal S ?i rcpt pt \<longrightarrow> (\<exists>m. res = Sealed m)"
    using seal_spec [OF laws i rcpt n] by blast
  note eq = send_eq [OF laws ok r rcpt n, unfolded sl(1)]
  show ?thesis
  proof (cases "\<exists>m. res = Sealed m")
    case False
    have "ffi_ok S (ffi_unlock ?gl) w1" using ok sl(2) by (auto simp: ffi_ok_def ffi_unlock_def ffi_router_ok_def)
    with eq False sl(3,5,7) show ?thesis by (cases res) (auto simp: ffi_unlock_def)
  next
    case True
    then obtain m where m: "res = Sealed m" by blast
    have sm: "sealed_for S ?i rcpt pt m" "storable m" using sl(6) m by (simp_all add: sealed_for_def)
    have J: "ffi_inv_for S ?i (ext w1)" using ffi_inv_for_self [OF laws ok] sl(2) by simp
    obtain rc r' w2 fw st where b: "bc_router_broadcast (Some r) (Some m) w1 = Some (rc, Some r', w2)"
        "router_wf r'" "same_but_seen r r'" "seen r' (msg_uuid m)" "ffi_inv_for S ?i (ext w2)" "w_live w2 = w_live w1"
        "w_trace w2 = w_trace w1 @ fw @ st"
        "if w_heap w1 (w_nalloc w1) (93 + msg_payload_len m)
         then rc = BC_OK \<and> (\<exists>rcs. gossiped r (wire m) rcs \<and> fw = sends (wire m) (known_peers r) rcs) \<and>
            (if has_store r then \<exists>rc. st = [Stored m rc] else st = [])
         else rc = BC_ERR_NOMEM \<and> fw = [] \<and> st = []"
      using broadcast_ok [OF ffi_ports [OF ok r] _ J sm(2)] rok unfolding ffi_router_ok_def by blast
    have st: "has_store r" using rok ok by (simp add: ffi_router_ok_def ffi_ok_def has_store_def sqlite_storage_def)
    let ?g = "ffi_unlock (?gl\<lparr>f_router := Some r'\<rparr>)" and ?w = "bc_message_destroy (Some m) w2"
    have ok': "ffi_ok S ?g ?w"
      using ok rok b(2,5) same_but_seen_frame [OF b(3)] by (auto simp: ffi_ok_def ffi_router_ok_def ffi_unlock_def ffi_inv_for_def)
    have w: "w_trace ?w = w_trace w @ fw @ st" "w_live ?w = w_live w" using b(6,7) sl(3,5) m by simp_all
    have send: "bitchat_send_message S (Some rcpt) (Some pt) (length pt) g w = Some (rc, ?g, ?w)"
      using eq m b(1) r by simp
    show ?thesis
    proof (cases "w_heap w1 (w_nalloc w1) (93 + msg_payload_len m)")
      case True
      with b(8) st obtain rcs rc2 where "rc = BC_OK" "gossiped r (wire m) rcs"
          "w_trace ?w = w_trace w @ sends (wire m) (known_peers r) rcs @ [Stored m rc2]" using w(1) by auto
      with send ok' w(2) sm(1) b(4) show ?thesis
        by (intro exI [of _ rc] exI [of _ ?g] exI [of _ ?w]) (fastforce simp: ffi_unlock_def)
    next
      case False
      then have "rc = BC_ERR_NOMEM" "w_trace ?w = w_trace w" "\<not> (\<forall>k s. w_heap w k s)"
        using b(8) w(1) oracles_heap [OF sl(4)] by auto
      with send ok' w(2) show ?thesis by (simp add: ffi_unlock_def)
    qed
  qed
qed

section \<open>From one node to the other\<close>

text \<open>A node as the interface sets it up, for the witnesses.\<close>

definition node_ffi :: "sodium \<Rightarrow> bytes \<Rightarrow> 'b inbox_state_scheme ffi" where
  "node_ffi S pk = \<lparr>f_initialized = True, f_transport = Some ble_transport, f_storage = Some sqlite_storage,
     f_router = Some ((new_router (Some ble_transport) (Some sqlite_storage) pk)
        \<lparr>r_on_message := Some (on_message_received S), r_on_message_userdata := 0\<rparr>),
     f_discovery = None, f_mutex_initialized = True, f_lock_depth = 0\<rparr>"

definition node_state :: "bytes \<Rightarrow> bytes \<Rightarrow> inbox_state" where
  "node_state pk sk = sql_state.extend sql_empty
     (inbox_state.fields \<lparr>id_pubkey = pk, id_secret_key = sk\<rparr> ring_zero None)"

lemma node_state_simps [simp]:
  "g_identity (node_state pk sk) = \<lparr>id_pubkey = pk, id_secret_key = sk\<rparr>" "g_inbox (node_state pk sk) = ring_zero"
  "g_user_callback (node_state pk sk) = None" "q_rows (node_state pk sk) = []" "q_answers (node_state pk sk) n"
  by (simp_all add: node_state_def sql_state.extend_def inbox_state.fields_def sql_empty_def)

lemma node_ok:
  assumes "length pk = 32" "length sk = 32"
  shows "ffi_ok S (node_ffi S pk) (with_ext (node_state pk sk) t)"
  using assms new_router_wf [OF assms(1)]
  by (simp add: ffi_ok_def node_ffi_def ffi_router_ok_def ffi_inv_def inbox_wf_def identity_wf_def size_defs sql_inv_def)

text \<open>A message that the instance of the library opens to \<open>hi\<close>, and a node that has it in its inbox.\<close>

definition sealed_msg :: bc_message where
  "sealed_msg = sample_msg\<lparr>msg_payload := Some (replicate 24 0 @ [104, 105] @ replicate 16 0), msg_payload_len := 42\<rparr>"

lemma sealed_msg_simps:
  "storable sealed_msg" "open_message toy_sodium (replicate 32 2) sealed_msg = Some [104, 105]" "msg_blocks sealed_msg = 2"
  by (simp_all add: sealed_msg_def sample_msg_def storable_def message_wf_def size_defs open_message_def
      toy_sodium_def msg_blocks_def)

theorem poll_small_buffer_loses_message_witness:
  "\<exists>(w :: inbox_state world_scheme) g' w'. ring_items (g_inbox (ext w)) = [sealed_msg] \<and>
    bitchat_poll_messages toy_sodium (Some [0]) 1 (Some 0) None (node_ffi toy_sodium (replicate 32 2)) w =
      Some (BC_ERR_BUFFER_TOO_SMALL, Some [0], Some 2, None, g', w') \<and> ring_items (g_inbox (ext w')) = []"
proof -
  obtain q where q: "ring_wf q" "ring_items q = [sealed_msg]"
    using rq.put_ok [of ring_zero sealed_msg] rq.full_iff [of ring_zero] by auto
  let ?x = "(node_state (replicate 32 2) (replicate 32 2))\<lparr>g_inbox := q\<rparr>"
  let ?w = "with_ext ?x 0"
  have "ffi_ok toy_sodium (node_ffi toy_sodium (replicate 32 2)) ?w"
    using node_ok [of "replicate 32 2" "replicate 32 2" toy_sodium 0] q sealed_msg_simps(1)
    by (auto simp: ffi_ok_def ffi_inv_def inbox_wf_def)
  from poll_small_buffer_loses_message [OF toy_sodium_ok this, of sealed_msg "[]" "[104, 105]" 1 "[0]" None 0]
    q(2) sealed_msg_simps(2) show ?thesis
    by (intro exI [of _ ?w]) (auto simp: numeral_2_eq_2)
qed

theorem receive_delivers_witness:
  "\<exists>r' w' us. bc_router_receive (f_router (node_ffi toy_sodium (replicate 32 2))) (Some (wire sample_msg)) 95
      (with_ext (node_state (replicate 32 2) (replicate 32 2)) 0) = Some (BC_OK, Some r', w') \<and>
    w_trace w' = Delivered (sample_msg\<lparr>msg_ttl := 2\<rparr>) # us"
proof -
  let ?g = "node_ffi toy_sodium (replicate 32 2) :: unit inbox_state_scheme ffi" and ?r = "the (f_router (node_ffi toy_sodium (replicate 32 2) :: unit inbox_state_scheme ffi))"
  let ?w = "with_ext (node_state (replicate 32 2) (replicate 32 2)) 0"
  have ok: "ffi_ok toy_sodium ?g ?w" by (rule node_ok) simp_all
  have r: "f_router ?g = Some ?r" by (simp add: node_ffi_def)
  note p = ffi_ports [OF ok r, of "g_identity (ext ?w)"]
  have J: "ffi_inv_for toy_sodium (g_identity (ext ?w)) (ext ?w)" using ffi_inv_for_self [OF toy_sodium_ok ok] .
  have l: "length (wire sample_msg) = 95" using wire_length [of sample_msg] by simp
  obtain w1 where d: "bc_message_deserialize (Some (wire sample_msg)) 95 ?w = Some (Some sample_msg, w1)"
    using deserialize_wire [of sample_msg 95 "[]" ?w] l by auto
  have "router_wf ?r" "\<not> seen ?r (msg_uuid sample_msg)" "r_on_message ?r \<noteq> None" "msg_ttl sample_msg \<noteq> 0"
      "msg_receiver_pubkey sample_msg = r_local_pubkey ?r" "msg_ttl sample_msg - 1 = 2"
    by (simp_all add: node_ffi_def new_router_wf sample_msg_def)
  with receive_delivers [OF p _ J d] l r show ?thesis by auto
qed

text \<open>
  C1. End to end: what Alice sends with \<open>bitchat_send_message\<close> goes out as one sealed message with her
  key as the sender and the default hop count, is persisted, and marks its identifier as seen; when
  it reaches Bob with any hop count left, his router delivers it and his next \<open>bitchat_poll_messages\<close>
  returns exactly Alice's plaintext and her key.
\<close>

theorem ffi_end_to_end:
  fixes wa wb :: "'b ffi_world"
  assumes S: "sodium_ok S" and a: "sd_box_keypair S ra = Some (pka, ska)" and b: "sd_box_keypair S rb = Some (pkb, skb)"
    and key: "sd_box_beforenm S pkb ska = Some k"
    and enc: "\<forall>nonce. length nonce = 24 \<longrightarrow> sd_aead_encrypt S pt nonce k \<noteq> None" and n: "length pt < 2 ^ 30"
    and alice: "ffi_ok S ga wa" "f_router ga = Some rA" "g_identity (ext wa) = \<lparr>id_pubkey = pka, id_secret_key = ska\<rparr>"
    and bob: "ffi_ok S gb wb" "f_router gb = Some rB" "g_identity (ext wb) = \<lparr>id_pubkey = pkb, id_secret_key = skb\<rparr>"
    and heap: "\<forall>k s. w_heap wa k s" "\<forall>k s. w_heap wb k s"
    and fresh: "\<forall>u. length u = 16 \<longrightarrow> \<not> seen rB u" "ring_items (g_inbox (ext wb)) = []"
    and hops: "ttl \<noteq> 0" and buf: "length pt \<le> length buf" "length so = 32"
  shows "\<exists>m ga' wa' rcs rc. bitchat_send_message S (Some pkb) (Some pt) (length pt) ga wa = Some (BC_OK, ga', wa') \<and>
    msg_sender_pubkey m = pka \<and> msg_receiver_pubkey m = pkb \<and> msg_ttl m = BC_DEFAULT_TTL \<and>
    w_trace wa' = w_trace wa @ sends (wire m) (known_peers rA) rcs @ [Stored m rc] \<and>
    (\<exists>r' wb' gb'' wb''.
      bc_router_receive (Some rB) (Some (wire (m\<lparr>msg_ttl := ttl\<rparr>))) (length (wire m)) wb = Some (BC_OK, Some r', wb') \<and>
      bitchat_poll_messages S (Some buf) (length buf) (Some 0) (Some so) (gb\<lparr>f_router := Some r'\<rparr>) wb' =
        Some (BC_OK, Some (pt @ drop (length pt) buf), Some (length pt), Some pka, gb'', wb''))"
proof -
  have keys: "length pka = 32" "length pkb = 32" "length skb = 32" using sodium_keypair [OF S a] sodium_keypair [OF S b] by simp_all
  have "can_seal S (g_identity (ext wa)) pkb pt" using key enc alice(3) by (auto simp: can_seal_def)
  then obtain m ga' wa' rcs rc where m: "bitchat_send_message S (Some pkb) (Some pt) (length pt) ga wa = Some (BC_OK, ga', wa')"
      "sealed_for S (g_identity (ext wa)) pkb pt m" "w_trace wa' = w_trace wa @ sends (wire m) (known_peers rA) rcs @ [Stored m rc]"
    using send_spec [OF S alice(1,2) keys(2) n] heap(1) by auto
  have sm: "storable m" "msg_sender_pubkey m = pka" "msg_receiver_pubkey m = pkb" "msg_ttl m = BC_DEFAULT_TTL"
      "msg_payload_len m = 40 + length pt" "\<And>sk. sd_box_beforenm S pka sk = Some k \<Longrightarrow> open_message S sk m = Some pt"
    using m(2) key alice(3) by (simp_all add: sealed_for_def)
  let ?m = "m\<lparr>msg_ttl := ttl\<rparr>"
  have wf: "message_wf ?m" "msg_payload_len ?m = 40 + length pt" using sm(1,5) by (simp_all add: storable_def message_wf_ttl)
  have lw: "length (wire ?m) = 133 + length pt" "length (wire m) = length (wire ?m)"
    using wire_length [OF wf(1)] wire_length [of m] wf(2) sm(1,5) by (simp_all add: storable_def)
  obtain w1 where d: "bc_message_deserialize (Some (wire ?m)) (length (wire ?m)) wb = Some (Some ?m, w1)"
    using deserialize_wire [OF wf(1), of "length (wire ?m)" "[]" wb] lw(1) wf(2) n heap(2) by auto
  have us: "msg_receiver_pubkey ?m = r_local_pubkey rB" using bob sm(3) by (simp add: ffi_ok_def ffi_router_ok_def)
  have "\<not> seen rB (msg_uuid ?m)" using fresh(1) wf(1) by (simp add: message_wf_def size_defs)
  moreover have "length (wire ?m) < 2 ^ 31" using lw(1) n by simp
  ultimately obtain r' wb' where rcv: "bc_router_receive (Some rB) (Some (wire ?m)) (length (wire ?m)) wb = Some (BC_OK, Some r', wb')"
      "ring_items (g_inbox (ext wb')) = [?m\<lparr>msg_ttl := ttl - 1\<rparr>]" "ffi_ok S (gb\<lparr>f_router := Some r'\<rparr>) wb'"
      "g_identity (ext wb') = g_identity (ext wb)"
    using receive_to_inbox [OF S bob(1,2) d order.refl _ _ _ us heap(2)] hops fresh(2) by auto
  have "sd_box_beforenm S pka skb = Some k" using sodium_agree [OF S a b] key by simp
  then have "open_message S (id_secret_key (g_identity (ext wb'))) (?m\<lparr>msg_ttl := ttl - 1\<rparr>) = Some pt"
    using sm(6) bob(3) rcv(4) by simp
  from poll_ok [OF S rcv(3,2) this buf(1) order.refl buf(2), of 0] obtain gb'' wb'' where
    "bitchat_poll_messages S (Some buf) (length buf) (Some 0) (Some so) (gb\<lparr>f_router := Some r'\<rparr>) wb' =
        Some (BC_OK, Some (pt @ drop (length pt) buf), Some (length pt), Some pka, gb'', wb'')"
    using sm(2) by auto
  with m sm(2-4) rcv(1) lw(2) show ?thesis by metis
qed

lemma toy_keys:
  "length (r :: bytes) = 32 \<Longrightarrow> sd_box_keypair toy_sodium r = Some (r, r)"
  "sd_box_beforenm toy_sodium (replicate 32 2) (replicate 32 1) = Some (replicate 32 3)"
  "sd_aead_encrypt toy_sodium pt nonce k = Some (pt @ replicate 16 0)"
  by (simp_all add: toy_sodium_def zip_replicate)

theorem ffi_end_to_end_witness:
  "\<exists>m ga' wa' r' wb' gb'' wb''.
    bitchat_send_message toy_sodium (Some (replicate 32 2)) (Some [104, 105]) 2
      (node_ffi toy_sodium (replicate 32 1)) (with_ext (node_state (replicate 32 1) (replicate 32 1)) 1000)
      = Some (BC_OK, ga', wa') \<and>
    bc_router_receive (f_router (node_ffi toy_sodium (replicate 32 2))) (Some (wire (m\<lparr>msg_ttl := 9\<rparr>))) (length (wire m))
      (with_ext (node_state (replicate 32 2) (replicate 32 2)) 1000) = Some (BC_OK, Some r', wb') \<and>
    bitchat_poll_messages toy_sodium (Some [0, 0, 0]) 3 (Some 0) (Some (replicate 32 0))
      ((node_ffi toy_sodium (replicate 32 2))\<lparr>f_router := Some r'\<rparr>) wb' =
      Some (BC_OK, Some [104, 105, 0], Some 2, Some (replicate 32 1), gb'', wb'')"
proof -
  let ?a = "replicate 32 1 :: bytes" and ?b = "replicate 32 2 :: bytes"
  let ?ga = "node_ffi toy_sodium ?a :: unit inbox_state_scheme ffi" and ?gb = "node_ffi toy_sodium ?b :: unit inbox_state_scheme ffi"
  let ?wa = "with_ext (node_state ?a ?a) 1000" and ?wb = "with_ext (node_state ?b ?b) 1000"
  have l: "length ?a = 32" "length ?b = 32" by simp_all
  have r: "f_router ?ga = Some (the (f_router ?ga))" "f_router ?gb = Some (the (f_router ?gb))"
    by (simp_all add: node_ffi_def)
  have "\<exists>m ga' wa' rcs rc. bitchat_send_message toy_sodium (Some ?b) (Some [104, 105]) (length [104, 105 :: u8]) ?ga ?wa
      = Some (BC_OK, ga', wa') \<and>
    msg_sender_pubkey m = ?a \<and> msg_receiver_pubkey m = ?b \<and> msg_ttl m = BC_DEFAULT_TTL \<and>
    w_trace wa' = w_trace ?wa @ sends (wire m) (known_peers (the (f_router ?ga))) rcs @ [Stored m rc] \<and>
    (\<exists>r' wb' gb'' wb''.
      bc_router_receive (Some (the (f_router ?gb))) (Some (wire (m\<lparr>msg_ttl := 9\<rparr>))) (length (wire m)) ?wb = Some (BC_OK, Some r', wb') \<and>
      bitchat_poll_messages toy_sodium (Some [0, 0, 0]) (length [0, 0, 0 :: u8]) (Some 0) (Some (replicate 32 0))
          (?gb\<lparr>f_router := Some r'\<rparr>) wb' =
        Some (BC_OK, Some ([104, 105] @ drop (length [104, 105 :: u8]) [0, 0, 0]), Some (length [104, 105 :: u8]), Some ?a, gb'', wb''))"
    by (rule ffi_end_to_end [OF toy_sodium_ok toy_keys(1) [OF l(1)] toy_keys(1) [OF l(2)] toy_keys(2) _ _
        node_ok [OF l(1) l(1)] r(1) _ node_ok [OF l(2) l(2)] r(2)])
      (simp_all add: toy_keys(3) node_ffi_def new_router_wf(3))
  then show ?thesis using r(2) by (simp del: One_nat_def) (metis numeral_2_eq_2 numeral_3_eq_3)
qed

section \<open>Life cycle\<close>

definition opt_blocks :: "int \<Rightarrow> 'h option \<Rightarrow> int" where
  "opt_blocks n h = (if h = None then 0 else n)"

text \<open>The heap blocks the interface owns through its handles and the inbox.\<close>

definition owned :: "'b inbox_state_scheme ffi \<Rightarrow> 'b ffi_world \<Rightarrow> int" where
  "owned g w = opt_blocks 2 (f_router g) + opt_blocks 1 (f_discovery g) + opt_blocks 2 (f_storage g) +
     opt_blocks 1 (f_transport g) + (\<Sum>m\<leftarrow>ring_items (g_inbox (ext w)). msg_blocks m)"

lemma drain_inbox_ok:
  assumes "ring_wf q"
  shows "\<exists>q' w'. drain_inbox q w = Some (q', w') \<and> length (rg_slots q') = 256 \<and> ext w' = ext w \<and>
    w_trace w' = w_trace w \<and> w_live w' = w_live w - (\<Sum>m\<leftarrow>ring_items q. msg_blocks m)"
  using assms
proof (induction "ring_items q" arbitrary: q w)
  case Nil
  then have "ring_empty q" using rq.empty_iff [of q] by simp
  with Nil show ?case by (subst drain_inbox.simps) (simp add: ring_wf_def flip: Nil.hyps)
next
  case (Cons m ms)
  have ne: "\<not> ring_empty q" using rq.empty_iff [OF Cons.prems] Cons.hyps(2) by auto
  obtain q' where q': "ring_get q = Some (Some m, q')" "ring_wf q'" "ring_items q' = ms"
    using rq.get_ok [OF Cons.prems ne] Cons.hyps(2) by (metis list.sel(1,3))
  obtain q'' w' where "drain_inbox q' (bc_message_destroy (Some m) w) = Some (q'', w')"
      "length (rg_slots q'') = 256" "ext w' = ext w" "w_trace w' = w_trace w"
      "w_live w' = w_live w - msg_blocks m - (\<Sum>m\<leftarrow>ms. msg_blocks m)"
    using Cons.hyps(1) [OF q'(3) [symmetric] q'(2), of "bc_message_destroy (Some m) w"] q'(3) by auto
  with q' ne show ?case by (subst drain_inbox.simps) (simp flip: Cons.hyps(2))
qed

lemma shutdown_spec:
  assumes ok: "ffi_ok S g w"
  shows "\<exists>g' w'. bitchat_shutdown g w = Some (g', w') \<and> w_live w' = w_live w - owned g w \<and>
    q_handles (ext w') = q_handles (ext w) - 6 \<and>
    id_secret_key (g_identity (ext w')) = replicate 32 0 \<and> ring_items (g_inbox (ext w')) = [] \<and>
    g_user_callback (ext w') = None \<and>
    g' = ffi_zero\<lparr>f_lock_depth := f_lock_depth g\<rparr> \<and> w_trace w' = w_trace w"
proof -
  have wf: "ring_wf (g_inbox (ext w))" using ok by (simp add: ffi_ok_def ffi_inv_def inbox_wf_def)
  define w1 where "w1 = on_ext (g_user_callback_update (\<lambda>_. None)) w"
  obtain q w2 where w2: "drain_inbox (g_inbox (ext w1)) w1 = Some (q, w2)" "length (rg_slots q) = 256"
      "ext w2 = ext w1" "w_trace w2 = w_trace w1"
      "w_live w2 = w_live w1 - (\<Sum>m\<leftarrow>ring_items (g_inbox (ext w1)). msg_blocks m)"
    using drain_inbox_ok [of "g_inbox (ext w1)" w1] wf by (auto simp: w1_def)
  have w1: "w_live w1 = w_live w" "w_trace w1 = w_trace w"
      "ext w1 = g_user_callback_update (\<lambda>_. None) (ext w)" by (simp_all add: w1_def)
  have st: "f_storage g = Some sqlite_storage" "f_transport g = None \<or> f_transport g = Some ble_transport"
      "f_mutex_initialized g" "f_initialized g"
    using ok by (auto simp: ffi_ok_def)
  have e: "ring_items (q\<lparr>rg_head := 0, rg_tail := 0\<rparr>) = []" by (simp add: ring_items_def ring_len_def)
  show ?thesis
    using st(2)
  proof
    assume "f_transport g = None"
    with st w1 w2 e show ?thesis
      by (auto simp: bitchat_shutdown_def ffi_lock_def w1_def [symmetric] sqlite_storage_def sqlite_destroy_def
          bc_identity_wipe_def size_defs ffi_unlock_def ffi_zero_def owned_def opt_blocks_def bc_router_destroy_def
          bc_discovery_destroy_def Let_def)
  next
    assume "f_transport g = Some ble_transport"
    with st w1 w2 e show ?thesis
      by (auto simp: bitchat_shutdown_def ffi_lock_def w1_def [symmetric] sqlite_storage_def sqlite_destroy_def
          bc_identity_wipe_def size_defs ffi_unlock_def ffi_zero_def owned_def opt_blocks_def bc_router_destroy_def
          bc_discovery_destroy_def Let_def ble_transport_def ble_destroy_def)
  qed
qed

text \<open>Everything of the invariant but the router, whose key must match the identity.\<close>

definition ffi_base :: "'b inbox_state_scheme ffi \<Rightarrow> 'b ffi_world \<Rightarrow> bool" where
  "ffi_base g w \<longleftrightarrow> f_mutex_initialized g \<and> f_initialized g \<and> f_storage g = Some sqlite_storage \<and>
     f_transport g \<in> {None, Some ble_transport} \<and>
     (\<forall>d. f_discovery g = Some d \<longrightarrow> disc_wf d \<and> d_transport d = f_transport g) \<and> ffi_inv (ext w)"

lemma ffi_ok_base: "ffi_ok S g w \<longleftrightarrow> ffi_base g w \<and>
    (\<forall>r. f_router g = Some r \<longrightarrow> ffi_router_ok S g (g_identity (ext w)) r)"
  by (auto simp: ffi_ok_def ffi_base_def)

lemma new_discovery_wf:
  "disc_wf \<lparr>d_transport = t, d_peers = replicate BC_MAX_PEERS peer_zero, d_peer_count = 0,
     d_on_found = None, d_userdata = 0\<rparr>"
  by (simp add: disc_wf_def disc_known_def peers_wf_def size_defs)

lemma destroy_frames [simp]:
  "w_live (bc_router_destroy r w) = w_live w - opt_blocks 2 r" "ext (bc_router_destroy r w) = ext w"
  "w_live (bc_discovery_destroy d w) = w_live w - opt_blocks 1 d" "ext (bc_discovery_destroy d w) = ext w"
  by (auto simp: bc_router_destroy_def bc_discovery_destroy_def opt_blocks_def split: option.split)

lemma router_for_cases:
  assumes "length lk = 32"
  obtains (nomem) w1 where "bc_router_create t st (Some lk) None w = Some (None, w1)" "w_live w1 = w_live w" "ext w1 = ext w"
  | (ok) w1 where "bc_router_create t st (Some lk) None w = Some (Some (new_router t st lk), w1)" "w_live w1 = w_live w + 2" "ext w1 = ext w"
proof -
  have "(\<exists>w1. bc_router_create t st (Some lk) None w = Some (None, w1) \<and> w_live w1 = w_live w \<and> ext w1 = ext w) \<or>
    (\<exists>w1. bc_router_create t st (Some lk) None w = Some (Some (new_router t st lk), w1) \<and> w_live w1 = w_live w + 2 \<and> ext w1 = ext w)"
    unfolding create_default [OF assms] by (auto simp: Let_def case_prod_beta)
  then show thesis using that by blast
qed

lemma discovery_for:
  assumes "bc_discovery_create t w = (d, w')"
  shows "\<forall>d'. d = Some d' \<longrightarrow> disc_wf d' \<and> d_transport d' = t" "w_live w' = w_live w + opt_blocks 1 d" "ext w' = ext w"
  using assms new_discovery_wf
  by (auto simp: bc_discovery_create_def Let_def case_prod_beta opt_blocks_def split: if_splits)

lemma attach_ok:
  assumes base: "ffi_base g w"
  shows "\<exists>rc g' w'. attach_identity S g w = Some (rc, g', w') \<and> ffi_ok S g' w' \<and>
    w_live w' - owned g' w' = w_live w - owned g w \<and> f_lock_depth g' = f_lock_depth g - 1 \<and>
    ext w' = ext w \<and> (rc = BC_OK \<longleftrightarrow> f_router g' \<noteq> None)"
proof -
  define w0 where "w0 = (if f_router g \<noteq> None then bc_router_destroy (f_router g) w else w)"
  have w0: "w_live w0 = w_live w - opt_blocks 2 (f_router g)" "ext w0 = ext w"
    by (auto simp: w0_def opt_blocks_def)
  let ?lk = "id_pubkey (g_identity (ext w))"
  have lk: "length ?lk = 32" using base by (simp add: ffi_base_def ffi_inv_def inbox_wf_def identity_wf_def size_defs)
  have un: "attach_identity S g w =
      do { (r, w) \<leftarrow> bc_router_create (f_transport g) (f_storage g) (Some ?lk) None w0;
        let g = g\<lparr>f_router := r\<rparr>;
        (if r = None then Some (BC_ERR_NOMEM, ffi_unlock g, w)
         else
           let g = g\<lparr>f_router := bc_router_set_on_message r (Some (on_message_received S)) 0\<rparr>;
               w = (if f_discovery g \<noteq> None then bc_discovery_destroy (f_discovery g) w else w);
               (d, w) = bc_discovery_create (f_transport g) w in
           Some (BC_OK, ffi_unlock (g\<lparr>f_discovery := d\<rparr>), w)) }"
    by (simp only: attach_identity_def w0_def [symmetric] w0(2) Let_def)
  from lk show ?thesis
  proof (cases rule: router_for_cases [where t = "f_transport g" and st = "f_storage g" and w = w0])
    case (nomem w1)
    with un base w0 show ?thesis
      by (simp add: ffi_ok_base ffi_base_def ffi_unlock_def owned_def opt_blocks_def)
  next
    case c: (ok w1)
    let ?r = "(new_router (f_transport g) (f_storage g) ?lk)\<lparr>r_on_message := Some (on_message_received S), r_on_message_userdata := 0\<rparr>"
    define w2 where "w2 = (if f_discovery g \<noteq> None then bc_discovery_destroy (f_discovery g) w1 else w1)"
    have w2: "w_live w2 = w_live w1 - opt_blocks 1 (f_discovery g)" "ext w2 = ext w"
      using c(3) w0(2) by (auto simp: w2_def opt_blocks_def)
    obtain d w3 where dc: "bc_discovery_create (f_transport g) w2 = (d, w3)" by force
    note d = discovery_for [OF dc, unfolded w2(2)]
    have "attach_identity S g w = Some (BC_OK, ffi_unlock (g\<lparr>f_router := Some ?r, f_discovery := d\<rparr>), w3)"
      using un c(1) dc unfolding w2_def by (auto simp: bc_router_set_on_message_def Let_def)
    moreover have "ffi_ok S (ffi_unlock (g\<lparr>f_router := Some ?r, f_discovery := d\<rparr>)) w3"
      using base d new_router_wf(1) [OF lk]
      by (auto simp: ffi_ok_base ffi_base_def ffi_unlock_def ffi_router_ok_def)
    ultimately show ?thesis
      using d w2 c w0 by (simp add: ffi_unlock_def owned_def opt_blocks_def)
  qed
qed

text \<open>Both identity functions first lock the mutex and replace the identity; what holds then.\<close>

lemma identity_setup:
  assumes ok: "ffi_ok S g w"
  defines "gl \<equiv> g\<lparr>f_lock_depth := f_lock_depth g + 1\<rparr>"
  shows "ffi_lock g = Some gl" "f_initialized gl" "f_lock_depth gl - 1 = f_lock_depth g" "owned gl w = owned g w"
    "ext w1 = ext w \<Longrightarrow> ffi_ok S (ffi_unlock gl) w1" "f_lock_depth (ffi_unlock gl) = f_lock_depth g"
    "ext w1 = ext w \<Longrightarrow> owned (ffi_unlock gl) w1 = owned g w"
    "identity_wf i \<Longrightarrow> ext w1 = ext w \<Longrightarrow> ffi_base gl (on_ext (g_identity_update (\<lambda>_. i)) w1)"
    "ext w1 = ext w \<Longrightarrow> owned gl (on_ext (g_identity_update (\<lambda>_. i)) w1) = owned g w"
  using ok by (auto simp: gl_def ffi_ok_def ffi_lock_def ffi_unlock_def ffi_router_ok_def owned_def ffi_base_def ffi_inv_def inbox_wf_def)

lemma generate_ok:
  assumes S: "sodium_ok S" and ok: "ffi_ok S g w"
    and po: "pred_option (\<lambda>d. length d = 32) po" and so: "pred_option (\<lambda>d. length d = 32) so"
  shows "\<exists>rc po' so' g' w'. bitchat_generate_identity S po so g w = Some (rc, po', so', g', w') \<and>
    (po' = None \<longleftrightarrow> po = None) \<and> (so' = None \<longleftrightarrow> so = None) \<and>
    ffi_ok S g' w' \<and> w_live w' - owned g' w' = w_live w - owned g w \<and> f_lock_depth g' = f_lock_depth g \<and>
    (rc = BC_OK \<longrightarrow> po' = map_option (\<lambda>_. id_pubkey (g_identity (ext w'))) po \<and>
       so' = map_option (\<lambda>_. id_secret_key (g_identity (ext w'))) so \<and> f_router g' \<noteq> None)"
proof -
  let ?gl = "g\<lparr>f_lock_depth := f_lock_depth g + 1\<rparr>"
  note set = identity_setup [OF ok]
  obtain rc io w1 where gen: "bc_identity_generate S (Some (g_identity (ext w))) w = (rc, io, w1)" by (metis prod_cases3)
  then have w1: "w_live w1 = w_live w" "ext w1 = ext w" "rc \<noteq> BC_OK \<Longrightarrow> io = Some (g_identity (ext w))"
    by (auto simp: bc_identity_generate_def case_prod_beta split: option.splits)
  show ?thesis
  proof (cases "rc = BC_OK")
    case False
    let ?w = "on_ext (g_identity_update (\<lambda>_. g_identity (ext w))) w1"
    have "bitchat_generate_identity S po so g w = Some (rc, po, so, ffi_unlock ?gl, ?w)"
      using set(1,2) gen False w1(3) by (simp add: bitchat_generate_identity_def)
    with set(5,7) [of ?w] set(6) w1 False show ?thesis by simp
  next
    case True
    then obtain i where i: "io = Some i" "identity_wf i" using identity_generate_wf [OF S, of "g_identity (ext w)" w io w1] gen by auto
    let ?w = "on_ext (g_identity_update (\<lambda>_. i)) w1"
    have li: "length (id_pubkey i) = 32" "length (id_secret_key i) = 32" using i(2) by (simp_all add: identity_wf_def size_defs)
    obtain rc' g' w' where a: "attach_identity S ?gl ?w = Some (rc', g', w')" "ffi_ok S g' w'"
        "w_live w' - owned g' w' = w_live ?w - owned ?gl ?w" "f_lock_depth g' = f_lock_depth ?gl - 1"
        "ext w' = ext ?w" "rc' = BC_OK \<longleftrightarrow> f_router g' \<noteq> None"
      using attach_ok [OF set(8) [OF i(2) w1(2)], of S] by blast
    have "bitchat_generate_identity S po so g w =
        Some (rc', map_option (\<lambda>_. id_pubkey i) po, map_option (\<lambda>_. id_secret_key i) so, g', w')"
      using set(1,2) gen True i a(1) copy_out_opt [OF po li(1)] copy_out_opt [OF so li(2)]
      by (simp add: bitchat_generate_identity_def size_defs)
    with a w1 set(3) set(9) [OF w1(2), of i] show ?thesis by simp
  qed
qed

lemma load_ok:
  assumes ok: "ffi_ok S g w" and d: "n \<le> length d"
  shows "\<exists>rc g' w'. bitchat_load_identity S (Some d) n g w = Some (rc, g', w') \<and>
    ffi_ok S g' w' \<and> w_live w' - owned g' w' = w_live w - owned g w \<and> f_lock_depth g' = f_lock_depth g \<and>
    (rc = BC_OK \<longrightarrow> 64 \<le> n \<and> f_router g' \<noteq> None \<and>
       g_identity (ext w') = \<lparr>id_pubkey = take 32 d, id_secret_key = take 32 (drop 32 d)\<rparr>)"
proof (cases "n < 64")
  case True
  let ?w = "on_ext (g_identity_update (\<lambda>_. g_identity (ext w))) w"
  have "bitchat_load_identity S (Some d) n g w = Some (BC_ERR_INVALID, ffi_unlock (g\<lparr>f_lock_depth := f_lock_depth g + 1\<rparr>), ?w)"
    using identity_setup(1,2) [OF ok] identity_deserialize_short [OF True] by (simp add: bitchat_load_identity_def)
  with identity_setup(5,7) [OF ok, of ?w] identity_setup(6) [OF ok] show ?thesis by simp
next
  case False
  let ?gl = "g\<lparr>f_lock_depth := f_lock_depth g + 1\<rparr>" and ?i = "\<lparr>id_pubkey = take 32 d, id_secret_key = take 32 (drop 32 d)\<rparr>"
  let ?w = "on_ext (g_identity_update (\<lambda>_. ?i)) w"
  have i: "identity_wf ?i" using False d by (simp add: identity_wf_def size_defs)
  obtain rc' g' w' where a: "attach_identity S ?gl ?w = Some (rc', g', w')" "ffi_ok S g' w'"
      "w_live w' - owned g' w' = w_live ?w - owned ?gl ?w" "f_lock_depth g' = f_lock_depth ?gl - 1" "ext w' = ext ?w"
      "rc' = BC_OK \<longleftrightarrow> f_router g' \<noteq> None"
    using attach_ok [OF identity_setup(8) [OF ok i refl], of S] by blast
  have "bitchat_load_identity S (Some d) n g w = Some (rc', g', w')"
    using identity_setup(1,2) [OF ok] identity_deserialize_ok [of n d "g_identity (ext w)"] False d a(1)
    by (simp add: bitchat_load_identity_def)
  with a False identity_setup(3) [OF ok] identity_setup(9) [OF ok refl, of ?i] show ?thesis by simp
qed

text \<open>
  Initialisation: from the zeroed global object, \<open>bitchat_init\<close> never faults; on success the node is
  in order, has no router yet and owns exactly the blocks that were allocated; on failure it is not
  initialised and no heap block is left over. The mutex is released on every path, and a second
  initialisation is a no-op.
\<close>

lemma init_spec:
  assumes inv: "ffi_inv (ext w)" "ring_items (g_inbox (ext w)) = []"
  shows "\<exists>rc g' w'. bitchat_init S mutex_rc path ffi_zero w = Some (rc, g', w') \<and> f_lock_depth g' = 0 \<and>
    (if rc = BC_OK then ffi_ok S g' w' \<and> f_router g' = None \<and> w_live w' = w_live w + owned g' w' \<and>
        bitchat_init S mutex_rc path g' w' = Some (BC_OK, g', w')
     else \<not> f_initialized g' \<and> w_live w' = w_live w)"
proof (cases "mutex_rc = 0 \<and> bc_crypto_init S = BC_OK")
  case False
  then show ?thesis
    by (auto simp: bitchat_init_def ensure_mutex_def ffi_zero_def ffi_lock_def ffi_unlock_def Let_def)
next
  case True
  obtain so w1 where c: "bc_storage_sqlite_create path w = (so, w1)" by force
  note cs = sqlite_create_spec [OF c]
  show ?thesis
  proof (cases so)
    case None
    with c cs True show ?thesis
      by (auto simp: bitchat_init_def ensure_mutex_def ffi_zero_def ffi_lock_def ffi_unlock_def Let_def)
  next
    case (Some s)
    obtain t w2 where t: "bc_transport_ble_create w1 = (t, w2)" by force
    have tt: "t \<in> {None, Some ble_transport}" "w_live w2 = w_live w1 + opt_blocks 1 t" "ext w2 = ext w1"
      using t by (auto simp: bc_transport_ble_create_def Let_def case_prod_beta opt_blocks_def split: if_splits)
    have s: "s = sqlite_storage" "w_live w1 = w_live w + 2" "q_rows (ext w1) = q_rows (ext w)"
      using cs Some by (auto simp: sqlite_destroy_def)
    have "inbox_wf (ext w1) = inbox_wf (ext w)" "g_inbox (ext w1) = g_inbox (ext w)"
      using sqlite_create_frame [of inbox_wf path w] sqlite_create_frame [of g_inbox path w] c
      by (simp_all add: inbox_wf_def)
    then have x: "ffi_inv (ext w2)" "ring_items (g_inbox (ext w2)) = []"
      using inv s(3) tt(3) by (simp_all add: ffi_inv_def sql_inv_def)
    let ?g = "ffi_zero\<lparr>f_mutex_initialized := True, f_storage := Some sqlite_storage, f_transport := t, f_initialized := True\<rparr>"
    have "bitchat_init S mutex_rc path ffi_zero w = Some (BC_OK, ?g, w2)"
      using True c Some s(1) t
      by (simp add: bitchat_init_def ensure_mutex_def ffi_zero_def ffi_lock_def ffi_unlock_def)
    moreover have "bitchat_init S mutex_rc path ?g w2 = Some (BC_OK, ?g, w2)"
      by (simp add: bitchat_init_def ensure_mutex_def ffi_zero_def ffi_lock_def ffi_unlock_def)
    moreover have "ffi_ok S ?g w2" "f_lock_depth ?g = 0" "f_router ?g = None" "w_live w2 = w_live w + owned ?g w2"
      using x tt s(2) by (simp_all add: ffi_ok_def ffi_zero_def owned_def opt_blocks_def)
    ultimately show ?thesis by auto
  qed
qed

text \<open>
  The interface is unusable outside the window between initialisation and shutdown: before the
  first \<open>bitchat_init\<close> and after a \<open>bitchat_shutdown\<close>, the entry points that take the lock first operate on a
  mutex that is not initialised, which POSIX leaves undefined.
\<close>

lemma unlocked_calls_fault:
  assumes "\<not> f_mutex_initialized g"
  shows "bitchat_tick g w = None \<and> bitchat_shutdown g w = None \<and> bitchat_start_discovery g w = None \<and>
    bitchat_poll_messages S buf n len so g w = None \<and> bitchat_send_message S rcpt pt n g w = None \<and>
    bitchat_generate_identity S po seco g w = None \<and> bitchat_load_identity S d n g w = None \<and>
    bitchat_set_on_message_callback cb g w = None"
  using assms
  by (simp add: bitchat_tick_def bitchat_shutdown_def bitchat_start_discovery_def bitchat_poll_messages_def
      bitchat_send_message_def bitchat_generate_identity_def bitchat_load_identity_def
      bitchat_set_on_message_callback_def ffi_lock_def)


end
