(* ===== verification/Ffi_Total.thy ===== *)
theory Ffi_Total
  imports Ffi_Correct
begin

text \<open>
  Every call of the public interface on a running node returns, whatever the memory, the library and
  the database answer: it keeps the interface's invariant and releases the mutex.
\<close>

text \<open>The invariant after the lock and the unlock around a call that leaves the handles alone.\<close>

lemma ffi_relock:
  assumes ok: "ffi_ok S g w"
  shows "ffi_lock g = Some (g\<lparr>f_lock_depth := f_lock_depth g + 1\<rparr>)" "f_initialized g"
    "ext w' = ext w \<Longrightarrow> ffi_ok S (ffi_unlock (g\<lparr>f_lock_depth := f_lock_depth g + 1\<rparr>)) w'"
    "f_lock_depth (ffi_unlock (g\<lparr>f_lock_depth := f_lock_depth g + 1\<rparr>)) = f_lock_depth g"
  using ok by (auto simp: ffi_ok_def ffi_lock_def ffi_unlock_def ffi_router_ok_def)

section \<open>Sending\<close>

lemma send_total:
  fixes w :: "'b ffi_world"
  assumes S: "sodium_ok S" and ok: "ffi_ok S g w" and rcpt: "length rcpt = 32" and n: "length pt < 2 ^ 30"
  shows "\<exists>rc g' w'. bitchat_send_message S (Some rcpt) (Some pt) (length pt) g w = Some (rc, g', w') \<and>
    ffi_ok S g' w' \<and> f_lock_depth g' = f_lock_depth g \<and> w_live w' = w_live w"
proof (cases "f_router g")
  case None
  with ffi_relock [OF ok] show ?thesis by (simp add: bitchat_send_message_def)
next
  case (Some r)
  from send_spec [OF S ok this rcpt n] show ?thesis by blast
qed

section \<open>Polling\<close>

text \<open>What a poll does with the oldest message, for a buffer of \<open>n\<close> bytes.\<close>

lemma poll_total:
  fixes w :: "'b ffi_world"
  assumes S: "sodium_ok S" and ok: "ffi_ok S g w" and b: "n \<le> length buf" "pred_option (\<lambda>d. length d = 32) so"
  shows "\<exists>rc buf' len so' g' w'. bitchat_poll_messages S (Some buf) n (Some k0) so g w =
      Some (rc, Some buf', Some len, so', g', w') \<and>
    ffi_ok S g' w' \<and> f_lock_depth g' = f_lock_depth g \<and> w_trace w' = w_trace w \<and>
    length buf' = length buf \<and> pred_option (\<lambda>d. length d = 32) so' \<and>
    (so' = None \<longleftrightarrow> so = None) \<and> (rc = BC_OK \<longrightarrow> len \<le> n)"
proof (cases "ring_items (g_inbox (ext w))")
  case Nil
  have "ring_wf (g_inbox (ext w))" using ok by (simp add: ffi_ok_def ffi_inv_def inbox_wf_def)
  then have "ring_empty (g_inbox (ext w))" using rq.empty_iff Nil by blast
  with ffi_relock [OF ok] b show ?thesis by (simp add: bitchat_poll_messages_def)
next
  case (Cons m ms)
  let ?sk = "id_secret_key (g_identity (ext w))"
  note rl = ffi_relock [OF ok]
  show ?thesis
  proof (cases "\<exists>p. msg_payload m = Some p \<and> 40 \<le> length p")
    case True
    then obtain p where p: "msg_payload m = Some p" "40 \<le> length p" by blast
    obtain q where q: "ring_wf q" "ring_items q = ms" and eq: "bitchat_poll_messages S (Some buf) n (Some k0) so g w =
      (let g = ffi_unlock (g\<lparr>f_lock_depth := f_lock_depth g + 1\<rparr>);
           w' = bc_message_destroy (Some m) (on_ext (g_inbox_update (\<lambda>_. q)) w) in
       if sd_box_beforenm S (msg_sender_pubkey m) ?sk = None
       then Some (BC_ERR_CRYPTO, Some buf, Some 0, so, g, w')
       else if n < length p - 40 then Some (BC_ERR_BUFFER_TOO_SMALL, Some buf, Some (length p - 40), so, g, w')
       else case open_message S ?sk m of
         None \<Rightarrow> Some (BC_ERR_CRYPTO, Some buf, Some 0, so, g, w')
       | Some pt \<Rightarrow> Some (BC_OK, Some (pt @ drop (length pt) buf), Some (length pt),
           map_option (\<lambda>_. msg_sender_pubkey m) so, g, w'))"
      using poll_eq [OF S ok Cons p b] .
    have "length (msg_sender_pubkey m) = 32"
      using poll_head [OF ok Cons] by (auto simp: storable_def message_wf_def size_defs)
    with poll_inv [OF ok Cons q] rl(4) b poll_length [OF S ok Cons p(1), of ?sk] show ?thesis
      unfolding eq Let_def by (cases so) (auto split: option.split)
  next
    case False
    obtain q where q: "ring_get (g_inbox (ext w)) = Some (Some m, q)" "ring_wf q" "ring_items q = ms"
        "\<not> ring_empty (g_inbox (ext w))" "storable m"
      by (rule poll_head [OF ok Cons])
    have "bitchat_poll_messages S (Some buf) n (Some k0) so g w =
        Some (BC_OK, Some buf, Some 0, so, ffi_unlock (g\<lparr>f_lock_depth := f_lock_depth g + 1\<rparr>),
          bc_message_destroy (Some m) (on_ext (g_inbox_update (\<lambda>_. q)) w))"
      using rl(1,2) q(1,4,5) False by (cases "msg_payload m") (auto simp: bitchat_poll_messages_def crypto_sizes storable_def message_wf_def)
    with poll_inv [OF ok Cons q(2,3)] rl(4) b(2) show ?thesis by simp
  qed
qed

section \<open>Discovery and the callback\<close>

lemma start_discovery_total:
  assumes ok: "ffi_ok S g w"
  shows "\<exists>rc g' w'. bitchat_start_discovery g w = Some (rc, g', w') \<and> ffi_ok S g' w' \<and>
    f_lock_depth g' = f_lock_depth g \<and> w_trace w' = w_trace w \<and> rc \<noteq> BC_OK"
proof (cases "f_discovery g")
  case None
  with ffi_relock [OF ok] show ?thesis by (simp add: bitchat_start_discovery_def)
next
  case (Some d)
  have t: "d_transport d = None \<or> d_transport d = Some ble_transport" using ok Some by (auto simp: ffi_ok_def)
  then obtain rc where "bc_discovery_scan (Some d) w = Some (rc, Some d, w)" "rc \<noteq> BC_OK"
    by (elim disjE) (simp_all add: bc_discovery_scan_def ble_transport_def ble_discover_def)
  with Some ffi_relock [OF ok] show ?thesis
    by (auto simp: bitchat_start_discovery_def ffi_ok_def ffi_unlock_def ffi_router_ok_def)
qed

lemma set_callback_total:
  assumes ok: "ffi_ok S g w"
  shows "\<exists>g' w'. bitchat_set_on_message_callback cb g w = Some (BC_OK, g', w') \<and> ffi_ok S g' w' \<and>
    f_lock_depth g' = f_lock_depth g \<and> g_user_callback (ext w') = cb \<and> w_trace w' = w_trace w"
  using ffi_relock [OF ok] ok
  by (auto simp: bitchat_set_on_message_callback_def ffi_ok_def ffi_unlock_def ffi_router_ok_def ffi_inv_def inbox_wf_def)

text \<open>An initialisation of a running node does nothing.\<close>

lemma init_again: "ffi_ok S g w \<Longrightarrow> bitchat_init S mutex_rc path g w = Some (BC_OK, g, w)"
  by (simp add: bitchat_init_def ensure_mutex_def ffi_ok_def ffi_lock_def ffi_unlock_def)

end
