(* ===== verification/Jni_Correct.thy ===== *)
theory Jni_Correct
  imports Jni Ffi_Total
begin

text \<open>
  Correctness of the Android bridge: whatever the virtual machine answers, every entry point returns,
  keeps the listener consistent, releases the references, pinned arrays and thread attachments it
  acquired, and hands each incoming message to the listener at most once and unchanged.
\<close>

section \<open>The listener's invariant\<close>

definition jni_ok :: "jni \<Rightarrow> bool" where
  "jni_ok j \<longleftrightarrow> \<not> j_locked j \<and> (j_method j \<longleftrightarrow> j_listener j \<noteq> None) \<and>
     j_globals j = (if j_listener j = None then 0 else 1) \<and> j_pins j = 0 \<and> j_attached j = 0"

lemma jni_ok_frame [simp]:
  "jni_ok (j\<lparr>j_ncall := n\<rparr>) = jni_ok j" "jni_ok (j\<lparr>j_exception := b\<rparr>) = jni_ok j"
  "jni_ok (j\<lparr>j_locals := l\<rparr>) = jni_ok j" "jni_ok (j\<lparr>j_calls := c\<rparr>) = jni_ok j" "jni_ok (j\<lparr>j_jvm := v\<rparr>) = jni_ok j"
  by (simp_all add: jni_ok_def)

text \<open>What stays the same when only the counter, the exception, the local references and the calls change.\<close>

definition same_listener :: "jni \<Rightarrow> jni \<Rightarrow> bool" where
  "same_listener j j' \<longleftrightarrow> j_jvm j' = j_jvm j \<and> j_listener j' = j_listener j \<and> j_method j' = j_method j \<and>
     j_locked j' = j_locked j \<and> j_globals j' = j_globals j \<and> j_pins j' = j_pins j \<and> j_attached j' = j_attached j \<and>
     j_answers j' = j_answers j \<and> j_status j' = j_status j"

lemma jsize_small: "n < 2 ^ 31 \<Longrightarrow> jsize n = int n"
  by (simp add: jsize_def signed_take_bit_int_eq_self)

lemma set_region_all:
  assumes "length src = n" "n \<le> length src"
  shows "set_region (replicate n 0) 0 (int n) src j = Some (src, j)"
  using assms by (simp add: set_region_def memcpy_first)

section \<open>The callback\<close>

text \<open>
  The arrays are filled and passed on when both could be created. The local references are deleted
  in every case, and no exception of the listener stays pending.
\<close>

lemma call_listener_ok:
  assumes l: "j_listener j = Some l" and s: "length sender = 32" and p: "length payload < 2 ^ 31"
  shows "\<exists>j'. call_listener sender payload (length payload) j = Some j' \<and> same_listener j j' \<and> j_locals j' = j_locals j \<and>
    (j_calls j' = j_calls j \<or> j_calls j' = j_calls j @ [(l, sender, payload)]) \<and>
    ((\<forall>n. j_answers j n) \<longrightarrow> j_calls j' = j_calls j @ [(l, sender, payload)] \<and> \<not> j_exception j')"
proof -
  let ?n = "length payload"
  note js = jsize_small [OF p]
  have reg: "set_region (replicate 32 0) 0 32 sender j = Some (sender, j)"
      "set_region (replicate ?n 0) 0 (int ?n) payload j = Some (payload, j)" for j
    using set_region_all [of sender 32] set_region_all [of payload ?n] s by simp_all
  show ?thesis
    using l by (auto simp: call_listener_def new_byte_array_def jvm_ask_def js reg Let_def delete_local_def same_listener_def)
qed

lemma callback_ok:
  assumes ok: "jni_ok j" and s: "length sender = 32" and p: "length payload < 2 ^ 31"
  shows "\<exists>j'. jni_on_message_callback sender payload (length payload) j = Some j' \<and> same_listener j j' \<and> j_locals j' = j_locals j \<and>
    (j_calls j' = j_calls j \<or>
     (\<exists>l. j_jvm j \<and> j_listener j = Some l \<and> j_calls j' = j_calls j @ [(l, sender, payload)])) \<and>
    (\<forall>l. j_jvm j \<and> j_listener j = Some l \<and> (\<forall>n. j_answers j n \<and> j_status j n \<noteq> JNI_ERR) \<longrightarrow>
       j_calls j' = j_calls j @ [(l, sender, payload)])"
proof (cases "j_jvm j \<and> j_listener j \<noteq> None")
  case False
  with ok show ?thesis
    by (auto simp: jni_on_message_callback_def jni_lock_def jni_unlock_def jni_ok_def same_listener_def)
next
  case True
  then obtain l where l: "j_jvm j" "j_listener j = Some l" by blast
  have m: "j_method j" "\<not> j_locked j" using ok l by (simp_all add: jni_ok_def)
  have un: "jni_on_message_callback sender payload (length payload) j =
      (let j = j\<lparr>j_locked := True, j_ncall := Suc (j_ncall j)\<rparr> in
       case j_status j (j_ncall j - 1) of
         JNI_EDETACHED \<Rightarrow>
           if \<not> j_answers j (j_ncall j) then Some (jni_unlock (j\<lparr>j_ncall := Suc (j_ncall j)\<rparr>))
           else do { j \<leftarrow> call_listener sender payload (length payload) (j\<lparr>j_ncall := Suc (j_ncall j), j_attached := j_attached j + 1\<rparr>);
             Some ((jni_unlock j)\<lparr>j_attached := j_attached (jni_unlock j) - 1\<rparr>) }
       | JNI_OK \<Rightarrow> do { j \<leftarrow> call_listener sender payload (length payload) j; Some (jni_unlock j) }
       | JNI_ERR \<Rightarrow> Some (jni_unlock j))"
    using l m by (simp add: jni_on_message_callback_def jni_lock_def get_env_def jvm_ask_def Let_def split: env_status.split)
  let ?j = "j\<lparr>j_locked := True, j_ncall := Suc (j_ncall j)\<rparr>"
  show ?thesis
  proof (cases "j_status j (j_ncall j)")
    case JNI_OK
    obtain j' where "call_listener sender payload (length payload) ?j = Some j'" "same_listener ?j j'" "j_locals j' = j_locals ?j"
        "j_calls j' = j_calls ?j \<or> j_calls j' = j_calls ?j @ [(l, sender, payload)]"
        "(\<forall>n. j_answers ?j n) \<longrightarrow> j_calls j' = j_calls ?j @ [(l, sender, payload)]"
      using call_listener_ok [OF _ s p, of ?j l] l(2) by auto
    with un JNI_OK l m show ?thesis by (auto simp: Let_def jni_unlock_def same_listener_def)
  next
    case JNI_EDETACHED
    let ?j1 = "?j\<lparr>j_ncall := Suc (Suc (j_ncall j)), j_attached := j_attached j + 1\<rparr>"
    obtain j' where "call_listener sender payload (length payload) ?j1 = Some j'" "same_listener ?j1 j'" "j_locals j' = j_locals ?j1"
        "j_calls j' = j_calls ?j1 \<or> j_calls j' = j_calls ?j1 @ [(l, sender, payload)]"
        "(\<forall>n. j_answers ?j1 n) \<longrightarrow> j_calls j' = j_calls ?j1 @ [(l, sender, payload)]"
      using call_listener_ok [OF _ s p, of ?j1 l] l(2) by auto
    with un JNI_EDETACHED l m show ?thesis by (auto simp: Let_def jni_unlock_def same_listener_def)
  next
    case JNI_ERR
    with un l m show ?thesis by (auto simp: Let_def jni_unlock_def same_listener_def)
  qed
qed

lemma same_listener_ok: "same_listener j j' \<Longrightarrow> jni_ok j \<Longrightarrow> jni_ok j'"
  by (simp add: same_listener_def jni_ok_def)

lemma same_listener_trans: "same_listener j j1 \<Longrightarrow> same_listener j1 j2 \<Longrightarrow> same_listener j j2"
  by (simp add: same_listener_def)

text \<open>
  C38. The bridge passes a message on at most once and unchanged: the callback that the interface calls
  for a message returns, with the listener as before and no reference, attachment or lock left over,
  and it has called the registered listener either not at all or exactly once, with the sender's key and
  the text. When a listener is registered and the virtual machine grants what the bridge asks for, it is
  called, also from a thread that has to be attached first.
\<close>

theorem jni_callback_once:
  assumes "jni_ok j" "length sender = 32" "length payload < 2 ^ 31"
  shows "\<exists>j'. jni_on_message_callback sender payload (length payload) j = Some j' \<and> jni_ok j' \<and>
    j_listener j' = j_listener j \<and> j_locals j' = j_locals j \<and>
    (j_calls j' = j_calls j \<or>
     (\<exists>l. j_jvm j \<and> j_listener j = Some l \<and> j_calls j' = j_calls j @ [(l, sender, payload)])) \<and>
    (\<forall>l. j_jvm j \<and> j_listener j = Some l \<and> (\<forall>n. j_answers j n \<and> j_status j n \<noteq> JNI_ERR) \<longrightarrow>
       j_calls j' = j_calls j @ [(l, sender, payload)])"
proof -
  from callback_ok [OF assms] obtain j' where j':
    "jni_on_message_callback sender payload (length payload) j = Some j'" "same_listener j j'" "j_locals j' = j_locals j"
    "j_calls j' = j_calls j \<or> (\<exists>l. j_jvm j \<and> j_listener j = Some l \<and> j_calls j' = j_calls j @ [(l, sender, payload)])"
    "\<forall>l. j_jvm j \<and> j_listener j = Some l \<and> (\<forall>n. j_answers j n \<and> j_status j n \<noteq> JNI_ERR) \<longrightarrow>
       j_calls j' = j_calls j @ [(l, sender, payload)]" by blast
  moreover have "jni_ok j'" "j_listener j' = j_listener j"
    using same_listener_ok [OF j'(2) assms(1)] j'(2) by (simp_all add: same_listener_def)
  ultimately show ?thesis by blast
qed

text \<open>A bridge in a virtual machine that grants everything, for the witnesses.\<close>

definition jni_ready :: "nat option \<Rightarrow> env_status \<Rightarrow> jni" where
  "jni_ready l st = \<lparr>j_jvm = True, j_listener = l, j_method = (l \<noteq> None), j_locked = False, j_answers = (\<lambda>_. True),
     j_status = (\<lambda>_. st), j_ncall = 0, j_exception = False, j_globals = (if l = None then 0 else 1), j_locals = 0,
     j_pins = 0, j_attached = 0, j_calls = []\<rparr>"

lemma jni_ready_simps [simp]:
  "jni_ok (jni_ready l st)" "j_jvm (jni_ready l st)" "j_listener (jni_ready l st) = l" "j_answers (jni_ready l st) n"
  "j_status (jni_ready l st) n = st" "j_calls (jni_ready l st) = []"
  by (simp_all add: jni_ready_def jni_ok_def)

theorem jni_callback_once_witness:
  "\<exists>j'. jni_on_message_callback (replicate 32 1) [104, 105] (length [104, 105 :: u8]) (jni_ready (Some 7) JNI_EDETACHED) = Some j' \<and>
     j_calls j' = [(7, replicate 32 1, [104, 105])]"
  using jni_callback_once [of "jni_ready (Some 7) JNI_EDETACHED" "replicate 32 1" "[104, 105]"]
  by auto

lemma run_callbacks_ok:
  assumes "jni_ok j" "\<forall>e\<in>set es. (\<exists>s p. e = UserMessage s p) \<longrightarrow> to_user e"
  shows "\<exists>j'. run_callbacks es j = Some j' \<and> same_listener j j' \<and> j_locals j' = j_locals j \<and>
    (j_listener j = None \<longrightarrow> j_calls j' = j_calls j)"
  using assms
proof (induction es j rule: run_callbacks.induct)
  case (2 s p es j)
  have "length s = 32" "length p < 2 ^ 31" using 2(3) by (auto simp: to_user_def)
  from callback_ok [OF 2(2) this] obtain j1 where j1: "jni_on_message_callback s p (length p) j = Some j1"
      "same_listener j j1" "j_locals j1 = j_locals j" "j_listener j = None \<longrightarrow> j_calls j1 = j_calls j" by fastforce
  obtain j' where "run_callbacks es j1 = Some j'" "same_listener j1 j'" "j_locals j' = j_locals j1"
      "j_listener j1 = None \<longrightarrow> j_calls j' = j_calls j1"
    using 2(1) [OF j1(1) same_listener_ok [OF j1(2) 2(2)]] 2(3) by auto
  with j1 same_listener_trans [OF j1(2)] show ?case by (auto simp: same_listener_def)
qed (auto simp: same_listener_def)

lemma grows_callbacks:
  assumes "jni_ok j" "grows w w'"
  obtains j' where "run_callbacks (drop (length (w_trace w)) (w_trace w')) j = Some j'" "same_listener j j'"
    "j_locals j' = j_locals j" "j_listener j = None \<longrightarrow> j_calls j' = j_calls j"
proof -
  obtain es where "drop (length (w_trace w)) (w_trace w') = es" "\<forall>e\<in>set es. (\<exists>s p. e = UserMessage s p) \<longrightarrow> to_user e"
    using assms(2) by (auto simp: grows_def)
  with run_callbacks_ok [OF assms(1), of es] that show ?thesis by auto
qed

section \<open>Calls from Kotlin\<close>

datatype jcall =
    Init int "string option" | Generate_Identity | Load_Identity "bytes option"
  | Send_Message "bytes option" "bytes option" | Poll_Messages | Start_Discovery | Tick
  | Set_Callback "nat option"

text \<open>The state after a call; its return value is dropped, and with it the reference to a returned array.\<close>

definition jni_call :: "sodium \<Rightarrow> jcall \<Rightarrow> 'b bridge \<Rightarrow> 'b bridge option" where
  "jni_call S c b = (case c of
      Init rc path \<Rightarrow> map_option snd (jni_init S rc path b)
    | Generate_Identity \<Rightarrow> map_option snd (jni_generateIdentity S b)
    | Load_Identity d \<Rightarrow> map_option snd (jni_loadIdentity S d b)
    | Send_Message r p \<Rightarrow> map_option snd (jni_sendMessage S r p b)
    | Poll_Messages \<Rightarrow> map_option snd (jni_pollMessages S b)
    | Start_Discovery \<Rightarrow> map_option snd (jni_startDiscovery b)
    | Tick \<Rightarrow> jni_tick b
    | Set_Callback l \<Rightarrow> map_option snd (jni_nativeSetOnMessageCallback l b))"

fun jni_calls :: "sodium \<Rightarrow> jcall list \<Rightarrow> 'b bridge \<Rightarrow> 'b bridge option" where
  "jni_calls S [] b = Some b"
| "jni_calls S (c # cs) b = Option.bind (jni_call S c b) (jni_calls S cs)"

definition call_ok :: "jcall \<Rightarrow> bool" where
  "call_ok c = (case c of Send_Message r (Some p) \<Rightarrow> length p < 2 ^ 30 | _ \<Rightarrow> True)"

definition bridge_ok :: "sodium \<Rightarrow> 'b bridge \<Rightarrow> bool" where
  "bridge_ok S = (\<lambda>(j, g, w). jni_ok j \<and> ffi_ok S g w)"

lemma pin_ok:
  obtains (failed) "pin j = (False, j\<lparr>j_ncall := Suc (j_ncall j)\<rparr>)"
  | (pinned) "pin j = (True, j\<lparr>j_ncall := Suc (j_ncall j), j_pins := j_pins j + 1\<rparr>)"
  by (cases "j_answers j (j_ncall j)") (simp_all add: pin_def jvm_ask_def)

lemma unpin_ok [simp]: "jni_ok (unpin (j\<lparr>j_ncall := n, j_pins := j_pins j + 1\<rparr>)) = jni_ok j"
  by (simp add: unpin_def jni_ok_def)

lemma new_array_ok:
  obtains (failed) j' where "new_byte_array n j = (None, j')" "jni_ok j' = jni_ok j"
  | (new) j' where "new_byte_array n j = (Some (replicate (nat n) 0), j')" "jni_ok j' = jni_ok j" "0 \<le> n"
proof (cases "0 \<le> n \<and> j_answers j (j_ncall j)")
  case True
  then show ?thesis
    using new [of "j\<lparr>j_ncall := Suc (j_ncall j), j_locals := j_locals j + 1\<rparr>"] by (auto simp: new_byte_array_def jvm_ask_def)
next
  case False
  then show ?thesis
    using failed [of "j\<lparr>j_ncall := Suc (j_ncall j), j_exception := True\<rparr>"] by (auto simp: new_byte_array_def jvm_ask_def)
qed

text \<open>Two parts copied into a new array give their concatenation.\<close>

lemma set_region_two:
  assumes "length a = 32" "n \<le> length b" "length arr = 32 + n"
  shows "do { (r, j) \<leftarrow> set_region arr 0 32 a j; (r, j) \<leftarrow> set_region r 32 (int n) b j; Some (r, j) } = Some (a @ take n b, j)"
proof -
  have "memcpy arr 0 a 0 32 = Some (a @ drop 32 arr)" using assms by (simp add: mem_simps)
  moreover have "memcpy (a @ drop 32 arr) 32 b 0 n = Some (a @ take n b)" using assms by (simp add: memcpy_def)
  ultimately show ?thesis using assms by (simp add: set_region_def)
qed

lemma generate_call:
  assumes "sodium_ok S" "bridge_ok S b"
  shows "\<exists>res b'. jni_generateIdentity S b = Some (res, b') \<and> bridge_ok S b' \<and>
    (\<forall>k. res = Some k \<longrightarrow> (case b' of (j, g, w) \<Rightarrow> k = id_pubkey (g_identity (ext w)) @ id_secret_key (g_identity (ext w)) \<and> f_router g \<noteq> None))"
proof -
  obtain j g w where b: "b = (j, g, w)" "jni_ok j" "ffi_ok S g w" using assms(2) by (cases b) (auto simp: bridge_ok_def)
  from generate_ok [OF assms(1) b(3), of "Some (replicate 32 0)" "Some (replicate 32 0)"] obtain rc po so g' w' where
    r: "bitchat_generate_identity S (Some (replicate 32 0)) (Some (replicate 32 0)) g w = Some (rc, po, so, g', w')" "ffi_ok S g' w'"
      "rc = BC_OK \<longrightarrow> po = Some (id_pubkey (g_identity (ext w'))) \<and> so = Some (id_secret_key (g_identity (ext w'))) \<and> f_router g' \<noteq> None"
    by auto
  have l: "length (id_pubkey (g_identity (ext w'))) = 32" "length (id_secret_key (g_identity (ext w'))) = 32"
    using r(2) by (simp_all add: ffi_ok_def ffi_inv_def inbox_wf_def identity_wf_def size_defs)
  show ?thesis
  proof (cases "rc = BC_OK")
    case False
    with b r show ?thesis by (auto simp: jni_generateIdentity_def bridge_ok_def)
  next
    case True
    show ?thesis
    proof (cases rule: new_array_ok [of 64 j])
      case (failed j')
      with True b r show ?thesis by (simp add: jni_generateIdentity_def bridge_ok_def)
    next
      case (new j')
      have "do { (x, j) \<leftarrow> set_region (replicate 64 0) 0 32 (id_pubkey (g_identity (ext w'))) j';
          (x, j) \<leftarrow> set_region x 32 32 (id_secret_key (g_identity (ext w'))) j; Some (Some x, j, g', w') } =
          Some (Some (id_pubkey (g_identity (ext w')) @ id_secret_key (g_identity (ext w'))), j', g', w')"
        using set_region_two [of "id_pubkey (g_identity (ext w'))" 32 "id_secret_key (g_identity (ext w'))" "replicate 64 0" j'] l
        by (auto simp: bind_Some_iff)
      with True b r new show ?thesis by (simp add: jni_generateIdentity_def bridge_ok_def)
    qed
  qed
qed

lemma load_call:
  assumes "bridge_ok S b"
  shows "\<exists>rc b'. jni_loadIdentity S d b = Some (rc, b') \<and> bridge_ok S b'"
proof -
  obtain j g w where b: "b = (j, g, w)" "jni_ok j" "ffi_ok S g w" using assms by (cases b) (auto simp: bridge_ok_def)
  show ?thesis
  proof (cases "\<exists>x. d = Some x \<and> 64 \<le> length x")
    case False
    with b show ?thesis by (cases d) (auto simp: jni_loadIdentity_def bridge_ok_def)
  next
    case True
    then obtain x where x: "d = Some x" "64 \<le> length x" by blast
    obtain rc g' w' where "bitchat_load_identity S (Some x) (length x) g w = Some (rc, g', w')" "ffi_ok S g' w'"
      using load_ok [OF b(3) order.refl, of x] by blast
    with x b show ?thesis
      by (cases rule: pin_ok [of j]) (simp_all add: jni_loadIdentity_def bridge_ok_def)
  qed
qed

lemma init_call:
  assumes "bridge_ok S b"
  shows "\<exists>rc b'. jni_init S mutex_rc path b = Some (rc, b') \<and> bridge_ok S b'"
proof -
  obtain j g w where b: "b = (j, g, w)" "jni_ok j" "ffi_ok S g w" using assms by (cases b) (auto simp: bridge_ok_def)
  then show ?thesis
    using init_again [OF b(3), of mutex_rc path]
    by (cases rule: pin_ok [of j]) (cases path; simp add: jni_init_def bridge_ok_def)+
qed

lemma send_call:
  assumes S: "sodium_ok S" and "bridge_ok S b" and n: "\<forall>x. p = Some x \<longrightarrow> length x < 2 ^ 30"
  shows "\<exists>rc b'. jni_sendMessage S r p b = Some (rc, b') \<and> bridge_ok S b'"
proof -
  obtain j g w where b: "b = (j, g, w)" "jni_ok j" "ffi_ok S g w" using assms(2) by (cases b) (auto simp: bridge_ok_def)
  show ?thesis
  proof (cases "\<exists>rcpt pt. r = Some rcpt \<and> p = Some pt \<and> length rcpt = 32 \<and> pt \<noteq> []")
    case False
    with b show ?thesis by (cases r; cases p) (auto simp: jni_sendMessage_def bridge_ok_def)
  next
    case True
    then obtain rcpt pt where x: "r = Some rcpt" "p = Some pt" "length rcpt = 32" "pt \<noteq> []" by blast
    obtain rc g' w' where s: "bitchat_send_message S (Some rcpt) (Some pt) (length pt) g w = Some (rc, g', w')" "ffi_ok S g' w'"
      using send_total [OF S b(3) x(3)] n x(2) by blast
    obtain ok1 j1 ok2 j2 where pins: "pin j = (ok1, j1)" "pin j1 = (ok2, j2)" by force
    have "jni_ok (let j = (if ok1 then unpin j2 else j2) in if ok2 then unpin j else j)"
      using pins b(2) by (auto simp: pin_def jvm_ask_def unpin_def jni_ok_def Let_def split: if_splits)
    with x b s pins show ?thesis by (auto simp: jni_sendMessage_def bridge_ok_def Let_def split: if_splits)
  qed
qed

text \<open>What \<open>pollMessages\<close> makes of a poll's results: sender and text in one array.\<close>

lemma poll_result:
  assumes p: "bitchat_poll_messages S (Some (replicate POLL_BUF_SIZE 0)) POLL_BUF_SIZE (Some 0) (Some (replicate 32 0)) g w
      = Some (rc, Some buf, Some n, Some so, g', w')" "length buf = 4096" "length so = 32" "rc = BC_OK \<longrightarrow> n \<le> 4096"
  shows "jni_pollMessages S (j, g, w) =
    (if rc = BC_OK \<and> 0 < n then
       case new_byte_array (int (32 + n)) j of (None, j) \<Rightarrow> Some (None, j, g', w')
       | (Some _, j) \<Rightarrow> Some (Some (so @ take n buf), j, g', w')
     else Some (None, j, g', w'))"
proof (cases "rc = BC_OK \<and> 0 < n")
  case False
  with p(1) show ?thesis by (auto simp: jni_pollMessages_def)
next
  case True
  with p(4) have n: "n \<le> 4096" by simp
  then have js: "jsize (size_add 32 n) = int (32 + n)" "jsize n = int n"
    by (simp_all add: size_add_def jsize_small)
  show ?thesis
  proof (cases rule: new_array_ok [of "int (32 + n)" j])
    case (failed j')
    with True p(1) js show ?thesis by (simp add: jni_pollMessages_def)
  next
    case (new j')
    have "do { (x, j) \<leftarrow> set_region (replicate (32 + n) 0) 0 32 so j'; (x, j) \<leftarrow> set_region x 32 (int n) buf j; Some (Some x, j, g', w') } =
        Some (Some (so @ take n buf), j', g', w')"
      using set_region_two [of so n buf "replicate (32 + n) 0" j'] p(2,3) n by (auto simp: bind_Some_iff)
    moreover have "nat (int (32 + n)) = 32 + n" by simp
    ultimately show ?thesis using True p(1) js new by (simp only: jni_pollMessages_def) simp
  qed
qed

lemma poll_call:
  assumes S: "sodium_ok S" and "bridge_ok S b"
  shows "\<exists>res b'. jni_pollMessages S b = Some (res, b') \<and> bridge_ok S b'"
proof -
  obtain j g w where b: "b = (j, g, w)" "jni_ok j" "ffi_ok S g w" using assms(2) by (cases b) (auto simp: bridge_ok_def)
  from poll_total [OF S b(3), of POLL_BUF_SIZE "replicate POLL_BUF_SIZE 0" "Some (replicate 32 0)" 0] obtain rc buf n so g' w' where
    p: "bitchat_poll_messages S (Some (replicate POLL_BUF_SIZE 0)) POLL_BUF_SIZE (Some 0) (Some (replicate 32 0)) g w
      = Some (rc, Some buf, Some n, Some so, g', w')" "ffi_ok S g' w'"
      "length buf = 4096" "length so = 32" "rc = BC_OK \<longrightarrow> n \<le> 4096"
    by (auto simp: POLL_BUF_SIZE_def)
  show ?thesis
    unfolding b(1) poll_result [OF p(1,3-5)]
    by (cases rule: new_array_ok [of "int (32 + n)" j]) (use b(2) p(2) in \<open>auto simp: bridge_ok_def\<close>)
qed

lemma discovery_call:
  assumes "bridge_ok S b"
  shows "\<exists>rc b'. jni_startDiscovery b = Some (rc, b') \<and> bridge_ok S b'"
proof -
  obtain j g w where b: "b = (j, g, w)" "jni_ok j" "ffi_ok S g w" using assms by (cases b) (auto simp: bridge_ok_def)
  from start_discovery_total [OF b(3)] b show ?thesis by (auto simp: jni_startDiscovery_def bridge_ok_def)
qed

lemma tick_call:
  assumes S: "sodium_ok S" and "bridge_ok S b"
  shows "\<exists>b'. jni_tick b = Some b' \<and> bridge_ok S b'"
proof -
  obtain j g w where b: "b = (j, g, w)" "jni_ok j" "ffi_ok S g w" using assms(2) by (cases b) (auto simp: bridge_ok_def)
  obtain g' w' where t: "bitchat_tick g w = Some (g', w')" "ffi_ok S g' w'" "grows w w'" using tick_ok [OF S b(3)] by blast
  obtain j' where j': "run_callbacks (drop (length (w_trace w)) (w_trace w')) j = Some j'" "same_listener j j'"
    using grows_callbacks [OF b(2) t(3)] .
  with b t same_listener_ok [OF j'(2) b(2)] show ?thesis by (simp add: jni_tick_def bridge_ok_def)
qed

lemma set_call:
  assumes "bridge_ok S b"
  shows "\<exists>rc b'. jni_nativeSetOnMessageCallback l b = Some (rc, b') \<and> bridge_ok S b' \<and>
    (rc = BC_OK \<longrightarrow> (case b' of (j, g, w) \<Rightarrow> j_listener j = l \<and> g_user_callback (ext w) = map_option (\<lambda>_. JNI_CALLBACK) l)) \<and>
    (rc \<noteq> BC_OK \<longrightarrow> j_listener (fst b') = None)"
proof -
  obtain j g w where b: "b = (j, g, w)" "jni_ok j" "ffi_ok S g w" using assms by (cases b) (auto simp: bridge_ok_def)
  let ?cb = "if l = None then None else Some JNI_CALLBACK"
  obtain g' w' where s: "bitchat_set_on_message_callback ?cb g w = Some (BC_OK, g', w')" "ffi_ok S g' w'" "g_user_callback (ext w') = ?cb"
    using set_callback_total [OF b(3)] by blast
  define j1 where "j1 = release_listener (j\<lparr>j_locked := True\<rparr>)"
  have j1: "j_listener j1 = None" "\<not> j_method j1" "j_globals j1 = 0" "j_pins j1 = 0" "j_attached j1 = 0" "jni_lock j = Some (j\<lparr>j_locked := True\<rparr>)"
    using b(2) by (auto simp: j1_def release_listener_def delete_global_def jni_ok_def jni_lock_def)
  obtain rc j2 where c: "(case l of None \<Rightarrow> (BC_OK, j1) | Some l \<Rightarrow> cache_listener l j1) = (rc, j2)" by force
  have j2: "jni_ok (jni_unlock j2)" "rc = BC_OK \<longrightarrow> j_listener (jni_unlock j2) = l" "rc \<noteq> BC_OK \<longrightarrow> j_listener (jni_unlock j2) = None"
    using c j1(1-5) by (auto simp: cache_listener_def jvm_ask_def jni_unlock_def jni_ok_def delete_global_def Let_def
        split: option.splits if_splits)
  have "jni_nativeSetOnMessageCallback l (j, g, w) =
      (if rc \<noteq> BC_OK then Some (rc, jni_unlock j2, g, w) else Some (BC_OK, jni_unlock j2, g', w'))"
    using j1(6) c s(1) by (simp add: jni_nativeSetOnMessageCallback_def j1_def [symmetric])
  with b s j2 show ?thesis by (auto simp: bridge_ok_def)
qed



text \<open>
  C39. \<open>pollMessages\<close> hands over the oldest message: when the inbox holds a message that this node can
  open, whose text is not empty and fits the bridge's buffer, and the array can be created, the result
  is the sender's key followed by exactly the text, and the message leaves the inbox.
\<close>

theorem jni_poll_delivers:
  assumes S: "sodium_ok S" and ok: "ffi_ok S g w" and items: "ring_items (g_inbox (ext w)) = m # ms"
    and pt: "open_message S (id_secret_key (g_identity (ext w))) m = Some pt" "pt \<noteq> []" "length pt \<le> 4096"
    and arr: "j_answers j (j_ncall j)"
  shows "\<exists>j' g' w'. jni_pollMessages S (j, g, w) = Some (Some (msg_sender_pubkey m @ pt), j', g', w') \<and>
    ring_items (g_inbox (ext w')) = ms \<and> ffi_ok S g' w' \<and> j_locals j' = j_locals j + 1"
proof -
  have sm: "storable m" by (rule poll_head [OF ok items])
  then have ls: "length (msg_sender_pubkey m) = 32" by (simp add: storable_def message_wf_def size_defs)
  obtain g' w' where p: "bitchat_poll_messages S (Some (replicate POLL_BUF_SIZE 0)) POLL_BUF_SIZE (Some 0) (Some (replicate 32 0)) g w =
      Some (BC_OK, Some (pt @ drop (length pt) (replicate POLL_BUF_SIZE 0)), Some (length pt), Some (msg_sender_pubkey m), g', w')"
      "ring_items (g_inbox (ext w')) = ms" "ffi_ok S g' w'"
    using poll_ok [OF S ok items pt(1), of POLL_BUF_SIZE "replicate POLL_BUF_SIZE 0" "replicate 32 0" 0] pt(3)
    by (auto simp: POLL_BUF_SIZE_def)
  have "new_byte_array (int (32 + length pt)) j =
      (Some (replicate (32 + length pt) 0), j\<lparr>j_ncall := Suc (j_ncall j), j_locals := j_locals j + 1\<rparr>)"
    using arr by (simp add: new_byte_array_def jvm_ask_def nat_add_distrib)
  with poll_result [OF p(1), of j] p(2,3) pt(2,3) ls show ?thesis by (simp add: POLL_BUF_SIZE_def)
qed

theorem jni_poll_delivers_witness:
  "\<exists>(w :: inbox_state world_scheme) j' g' w'. ring_items (g_inbox (ext w)) = [sealed_msg] \<and>
    jni_pollMessages toy_sodium (jni_ready None JNI_OK, node_ffi toy_sodium (replicate 32 2), w) =
      Some (Some (replicate 32 1 @ [104, 105]), j', g', w')"
proof -
  obtain q where q: "ring_wf q" "ring_items q = [sealed_msg]"
    using rq.put_ok [of ring_zero sealed_msg] rq.full_iff [of ring_zero] by auto
  let ?w = "with_ext ((node_state (replicate 32 2) (replicate 32 2))\<lparr>g_inbox := q\<rparr>) 0"
  have "ffi_ok toy_sodium (node_ffi toy_sodium (replicate 32 2)) ?w"
    using node_ok [of "replicate 32 2" "replicate 32 2" toy_sodium 0] q sealed_msg_simps(1)
    by (simp add: ffi_ok_def ffi_inv_def inbox_wf_def ffi_router_ok_def node_ffi_def sql_inv_def)
  moreover have "msg_sender_pubkey sealed_msg = replicate 32 1" by (simp add: sealed_msg_def sample_msg_def)
  ultimately show ?thesis
    using jni_poll_delivers [OF toy_sodium_ok, of "node_ffi toy_sodium (replicate 32 2)" ?w sealed_msg "[]" "[104, 105]" "jni_ready None JNI_OK"]
      q(2) sealed_msg_simps(2) by (intro exI [of _ ?w]) auto
qed

text \<open>
  C40. Shutdown silences the bridge: it returns, has released the listener's global reference before the
  teardown, frees what the interface owns and wipes the secret key, and makes no call to the
  listener; whatever the interface may still report afterwards reaches no listener either.
\<close>

theorem jni_shutdown_silences:
  assumes "bridge_ok S (j, g, w)"
  shows "\<exists>j' g' w'. jni_shutdown (j, g, w) = Some (j', g', w') \<and> jni_ok j' \<and> j_listener j' = None \<and> j_globals j' = 0 \<and>
    j_calls j' = j_calls j \<and> w_live w' = w_live w - owned g w \<and> id_secret_key (g_identity (ext w')) = replicate 32 0 \<and>
    (\<forall>es j2. run_callbacks es j' = Some j2 \<longrightarrow> j_calls j2 = j_calls j)"
proof -
  have ok: "jni_ok j" "ffi_ok S g w" using assms by (simp_all add: bridge_ok_def)
  let ?j = "jni_unlock (release_listener (j\<lparr>j_locked := True\<rparr>))"
  have j: "jni_lock j = Some (j\<lparr>j_locked := True\<rparr>)" "jni_ok ?j" "j_listener ?j = None" "j_calls ?j = j_calls j"
    using ok(1) by (auto simp: jni_lock_def jni_ok_def jni_unlock_def release_listener_def delete_global_def)
  obtain g' w' where s: "bitchat_shutdown g w = Some (g', w')" "w_live w' = w_live w - owned g w"
      "id_secret_key (g_identity (ext w')) = replicate 32 0" "w_trace w' = w_trace w"
    using shutdown_spec [OF ok(2)] by blast
  have "j_calls j2 = j_calls i" if "j_listener i = None" "run_callbacks es i = Some j2" for es i j2
    using that
  proof (induction es i rule: run_callbacks.induct)
    case (2 s p es i)
    then obtain i1 where "jni_on_message_callback s p (length p) i = Some i1" "run_callbacks es i1 = Some j2" by (auto simp: bind_Some_iff)
    moreover from this(1) 2(2) have "j_listener i1 = None" "j_calls i1 = j_calls i"
      by (auto simp: jni_on_message_callback_def jni_lock_def jni_unlock_def split: if_splits)
    ultimately show ?case using 2(1) by simp
  qed simp_all
  then have "run_callbacks es ?j = Some j2 \<Longrightarrow> j_calls j2 = j_calls j" for es j2 using j(3,4) by metis
  moreover have "j_globals ?j = 0" using j(2,3) by (simp add: jni_ok_def)
  ultimately show ?thesis using j s by (simp add: jni_shutdown_def)
qed

theorem jni_shutdown_silences_witness:
  "\<exists>j' g' w'. jni_shutdown (jni_ready (Some 7) JNI_OK, node_ffi toy_sodium (replicate 32 1),
     with_ext (node_state (replicate 32 1) (replicate 32 1)) 0) = Some (j', g', w') \<and> j_listener j' = None"
  using jni_shutdown_silences [of toy_sodium "jni_ready (Some 7) JNI_OK" "node_ffi toy_sodium (replicate 32 1)"
      "with_ext (node_state (replicate 32 1) (replicate 32 1)) 0"] node_ok [of "replicate 32 1" "replicate 32 1" toy_sodium 0]
  by (auto simp: bridge_ok_def)

text \<open>
  A listener must not call back: while the listener runs, the bridge holds its mutex, which is not
  recursive, so that \<open>nativeSetOnMessageCallback\<close>, \<open>shutdown\<close>, \<open>JNI_OnUnload\<close> and the delivery of another message
  never return when they are called from it.
\<close>

lemma listener_reentry_blocks:
  assumes "j_locked j"
  shows "jni_nativeSetOnMessageCallback l (j, g, w) = None \<and> jni_shutdown (j, g, w) = None \<and> JNI_OnUnload j = None \<and>
    (j_jvm j \<longrightarrow> jni_on_message_callback sender payload n j = None)"
  using assms
  by (simp add: jni_nativeSetOnMessageCallback_def jni_shutdown_def JNI_OnUnload_def jni_on_message_callback_def jni_lock_def)

end
