(* ===== verification/Ffi_Threads.thy ===== *)
theory Ffi_Threads
  imports Ffi_Total
begin

text \<open>
  The thread safety of the public interface, \<^verbatim>\<open>bitchat_ffi.c\<close>: ``every public function acquires the mutex
  before touching shared state''. Any number of threads call the entry points; the steps of one call
  (entering, creating the mutex, getting it, working and releasing it, destroying it) interleave with
  those of the others.

  A thread that gets the mutex reads the shared state there and writes its result back where it
  releases it. If another thread could write in between, its update would be lost; that none can is what
  is shown.
\<close>

section \<open>Calls\<close>

datatype ffi_call =
    F_Init "string option"
  | F_Generate "bytes option" "bytes option"
  | F_Load "bytes option" nat
  | F_Send "bytes option" "bytes option" nat
  | F_Poll "bytes option" nat "nat option" "bytes option"
  | F_Discover
  | F_Tick
  | F_Callback "nat option"
  | F_Shutdown

text \<open>What a call hands back: its return code and the buffers it wrote.\<close>

datatype ffi_ret =
    R_Code bc_err
  | R_Keys bc_err "bytes option" "bytes option"
  | R_Poll bc_err "bytes option" "nat option" "bytes option"
  | R_Void

text \<open>\<open>m\<close> is what \<open>pthread_mutex_init\<close> returns.\<close>

fun run_call ::
  "sodium \<Rightarrow> int \<Rightarrow> ffi_call \<Rightarrow> 'b inbox_state_scheme ffi \<Rightarrow> 'b ffi_world \<Rightarrow>
   (ffi_ret \<times> 'b inbox_state_scheme ffi \<times> 'b ffi_world) option" where
  "run_call S m (F_Init path) g w = do { (rc, g, w) \<leftarrow> bitchat_init S m path g w; Some (R_Code rc, g, w) }"
| "run_call S m (F_Generate po so) g w =
     do { (rc, po, so, g, w) \<leftarrow> bitchat_generate_identity S po so g w; Some (R_Keys rc po so, g, w) }"
| "run_call S m (F_Load d n) g w = do { (rc, g, w) \<leftarrow> bitchat_load_identity S d n g w; Some (R_Code rc, g, w) }"
| "run_call S m (F_Send rcpt pt n) g w =
     do { (rc, g, w) \<leftarrow> bitchat_send_message S rcpt pt n g w; Some (R_Code rc, g, w) }"
| "run_call S m (F_Poll buf n k so) g w =
     do { (rc, buf, k, so, g, w) \<leftarrow> bitchat_poll_messages S buf n k so g w; Some (R_Poll rc buf k so, g, w) }"
| "run_call S m F_Discover g w = do { (rc, g, w) \<leftarrow> bitchat_start_discovery g w; Some (R_Code rc, g, w) }"
| "run_call S m F_Tick g w = do { (g, w) \<leftarrow> bitchat_tick g w; Some (R_Void, g, w) }"
| "run_call S m (F_Callback cb) g w =
     do { (rc, g, w) \<leftarrow> bitchat_set_on_message_callback cb g w; Some (R_Code rc, g, w) }"
| "run_call S m F_Shutdown g w = do { (g, w) \<leftarrow> bitchat_shutdown g w; Some (R_Void, g, w) }"

text \<open>A caller's buffers are \<open>NULL\<close> or have the sizes the header asks for.\<close>

fun call_ok :: "ffi_call \<Rightarrow> bool" where
  "call_ok (F_Generate po so) \<longleftrightarrow> pred_option (\<lambda>d. length d = 32) po \<and> pred_option (\<lambda>d. length d = 32) so"
| "call_ok (F_Load d n) \<longleftrightarrow> pred_option (\<lambda>d. n \<le> length d) d"
| "call_ok (F_Send rcpt pt n) \<longleftrightarrow> pred_option (\<lambda>d. length d = 32) rcpt \<and>
     pred_option (\<lambda>d. n = length d \<and> n < 2 ^ 30) pt"
| "call_ok (F_Poll buf n k so) \<longleftrightarrow> pred_option (\<lambda>d. n \<le> length d) buf \<and> pred_option (\<lambda>d. length d = 32) so"
| "call_ok _ \<longleftrightarrow> True"

section \<open>Threads\<close>

text \<open>
  Where a thread is: outside the interface, in \<open>ensure_mutex\<close> with the flag read as unset, at the lock, inside
  with what it read there, or in a shutdown between the unlock and the destruction of the mutex.
\<close>

datatype 'b thread =
    Idle
  | Creating ffi_call
  | Waiting ffi_call
  | Holding ffi_call "'b inbox_state_scheme ffi" "'b ffi_world"
  | Destroying

record 'b pool =
  p_ffi :: "'b inbox_state_scheme ffi"
  p_world :: "'b ffi_world"
  p_owner :: "nat option"
  p_thread :: "nat \<Rightarrow> 'b thread"
  p_log :: "(nat \<times> ffi_call \<times> ffi_ret) list"
  p_fault :: bool

definition pool_start :: "'b inbox_state_scheme ffi \<Rightarrow> 'b ffi_world \<Rightarrow> 'b pool" where
  "pool_start g w = \<lparr>p_ffi = g, p_world = w, p_owner = None, p_thread = \<lambda>_. Idle, p_log = [], p_fault = False\<rparr>"

definition set_thread :: "nat \<Rightarrow> 'b thread \<Rightarrow> 'b pool \<Rightarrow> 'b pool" where
  "set_thread t s p = p\<lparr>p_thread := (p_thread p)(t := s)\<rparr>"

definition set_shared :: "'b inbox_state_scheme ffi \<Rightarrow> 'b ffi_world \<Rightarrow> 'b pool \<Rightarrow> 'b pool" where
  "set_shared g w p = p\<lparr>p_ffi := g, p_world := w\<rparr>"

definition answer :: "nat \<Rightarrow> ffi_call \<Rightarrow> ffi_ret \<Rightarrow> 'b pool \<Rightarrow> 'b pool" where
  "answer t c r p = p\<lparr>p_log := p_log p @ [(t, c, r)]\<rparr>"

definition is_init :: "ffi_call \<Rightarrow> bool" where
  "is_init c \<longleftrightarrow> (case c of F_Init _ \<Rightarrow> True | _ \<Rightarrow> False)"

text \<open>
  The steps of the threads. Initialising a mutex twice, locking one that does not exist and destroying one
  that is held are undefined in POSIX and therefore faults. \<open>bitchat_init\<close> alone goes through \<open>ensure_mutex\<close>,
  which reads and writes the flag without the mutex; a shutdown of a running node destroys the mutex after
  it has released it. A call takes effect, and is logged with its results, where it releases the mutex.
\<close>

inductive pool_step :: "sodium \<Rightarrow> int \<Rightarrow> 'b pool \<Rightarrow> 'b pool \<Rightarrow> bool" for S m where
  enter: "\<not> p_fault p \<Longrightarrow> p_thread p t = Idle \<Longrightarrow> call_ok c \<Longrightarrow> is_init c \<longrightarrow> f_mutex_initialized (p_ffi p) \<Longrightarrow>
    pool_step S m p (set_thread t (Waiting c) p)"
| enter_first: "\<not> p_fault p \<Longrightarrow> p_thread p t = Idle \<Longrightarrow> is_init c \<Longrightarrow> \<not> f_mutex_initialized (p_ffi p) \<Longrightarrow>
    pool_step S m p (set_thread t (Creating c) p)"
| create: "\<not> p_fault p \<Longrightarrow> p_thread p t = Creating c \<Longrightarrow> \<not> f_mutex_initialized (p_ffi p) \<Longrightarrow>
    ensure_mutex m (p_ffi p) = (rc, g) \<Longrightarrow>
    pool_step S m p (if rc = BC_OK then set_thread t (Waiting c) (p\<lparr>p_ffi := g\<rparr>)
                     else answer t c (R_Code rc) (set_thread t Idle p))"
| create_again: "\<not> p_fault p \<Longrightarrow> p_thread p t = Creating c \<Longrightarrow> f_mutex_initialized (p_ffi p) \<Longrightarrow>
    pool_step S m p (p\<lparr>p_fault := True\<rparr>)"
| lock: "\<not> p_fault p \<Longrightarrow> p_thread p t = Waiting c \<Longrightarrow> f_mutex_initialized (p_ffi p) \<Longrightarrow> p_owner p = None \<Longrightarrow>
    pool_step S m p (set_thread t (Holding c (p_ffi p) (p_world p)) (p\<lparr>p_owner := Some t\<rparr>))"
| lock_missing: "\<not> p_fault p \<Longrightarrow> p_thread p t = Waiting c \<Longrightarrow> \<not> f_mutex_initialized (p_ffi p) \<Longrightarrow>
    pool_step S m p (p\<lparr>p_fault := True\<rparr>)"
| unlock: "\<not> p_fault p \<Longrightarrow> p_thread p t = Holding c g w \<Longrightarrow> \<not> (c = F_Shutdown \<and> f_initialized g) \<Longrightarrow>
    run_call S m c g w = Some (r, g', w') \<Longrightarrow>
    pool_step S m p (answer t c r (set_thread t Idle (set_shared g' w' (p\<lparr>p_owner := None\<rparr>))))"
| unlock_shutdown: "\<not> p_fault p \<Longrightarrow> p_thread p t = Holding F_Shutdown g w \<Longrightarrow> f_initialized g \<Longrightarrow>
    run_call S m F_Shutdown g w = Some (r, g', w') \<Longrightarrow>
    pool_step S m p (answer t F_Shutdown r (set_thread t Destroying
      (set_shared (g'\<lparr>f_mutex_initialized := True\<rparr>) w' (p\<lparr>p_owner := None\<rparr>))))"
| destroy: "\<not> p_fault p \<Longrightarrow> p_thread p t = Destroying \<Longrightarrow> p_owner p = None \<Longrightarrow>
    pool_step S m p (set_thread t Idle (p\<lparr>p_ffi := (p_ffi p)\<lparr>f_mutex_initialized := False\<rparr>\<rparr>))"
| destroy_held: "\<not> p_fault p \<Longrightarrow> p_thread p t = Destroying \<Longrightarrow> p_owner p \<noteq> None \<Longrightarrow>
    pool_step S m p (p\<lparr>p_fault := True\<rparr>)"

lemmas pool_defs = set_thread_def set_shared_def answer_def

lemma run_start: "(pool_step S m)\<^sup>*\<^sup>* p p"
  by simp

lemma run_step: "(pool_step S m)\<^sup>*\<^sup>* p q \<Longrightarrow> pool_step S m q r \<Longrightarrow> (pool_step S m)\<^sup>*\<^sup>* p r"
  by (rule rtranclp.rtrancl_into_rtrancl)

section \<open>One call at a time\<close>

text \<open>The specification: the calls of a log run one after the other, each giving the logged results.\<close>

fun serial ::
  "sodium \<Rightarrow> int \<Rightarrow> (nat \<times> ffi_call \<times> ffi_ret) list \<Rightarrow> 'b inbox_state_scheme ffi \<Rightarrow> 'b ffi_world \<Rightarrow>
   ('b inbox_state_scheme ffi \<times> 'b ffi_world) option" where
  "serial S m [] g w = Some (g, w)"
| "serial S m ((t, c, r) # l) g w =
     do { (r', g, w) \<leftarrow> run_call S m c g w; if r' = r then serial S m l g w else None }"

lemma serial_append:
  "serial S m (l @ l') g w = do { (g, w) \<leftarrow> serial S m l g w; serial S m l' g w }"
  by (induction l arbitrary: g w) (auto split: Option.bind_splits)

lemma send_call_total:
  assumes S: "sodium_ok S" and ok: "ffi_ok S g w" and c: "call_ok (F_Send rcpt pt n)"
  shows "\<exists>rc g' w'. bitchat_send_message S rcpt pt n g w = Some (rc, g', w') \<and> ffi_ok S g' w' \<and> f_lock_depth g' = f_lock_depth g"
proof (cases "rcpt = None \<or> pt = None")
  case True
  with ffi_relock [OF ok] show ?thesis by (simp add: bitchat_send_message_def)
next
  case False
  then obtain r p where "rcpt = Some r" "pt = Some p" by auto
  with send_total [OF S ok, of r p] c show ?thesis by auto
qed

lemma poll_call_total:
  assumes S: "sodium_ok S" and ok: "ffi_ok S g w" and c: "call_ok (F_Poll buf n k so)"
  shows "\<exists>rc buf' k' so' g' w'. bitchat_poll_messages S buf n k so g w = Some (rc, buf', k', so', g', w') \<and>
    ffi_ok S g' w' \<and> f_lock_depth g' = f_lock_depth g"
proof (cases "buf = None \<or> k = None")
  case True
  with ffi_relock [OF ok] show ?thesis by (simp add: bitchat_poll_messages_def)
next
  case False
  then obtain b k0 where "buf = Some b" "k = Some k0" by auto
  with poll_total [OF S ok, of n b so k0] c show ?thesis by auto
qed

lemma load_call_total:
  assumes ok: "ffi_ok S g w" and c: "call_ok (F_Load d n)"
  shows "\<exists>rc g' w'. bitchat_load_identity S d n g w = Some (rc, g', w') \<and> ffi_ok S g' w' \<and> f_lock_depth g' = f_lock_depth g"
proof (cases d)
  case None
  with ffi_relock [OF ok] show ?thesis by (simp add: bitchat_load_identity_def)
next
  case (Some x)
  with load_ok [OF ok, of n x] c show ?thesis by auto
qed

text \<open>A call other than a shutdown returns and leaves the node in order.\<close>

lemma call_total:
  assumes S: "sodium_ok S" and ok: "ffi_ok S g w" and c: "call_ok c" "c \<noteq> F_Shutdown"
  obtains r g' w' where "run_call S m c g w = Some (r, g', w')" "ffi_ok S g' w'" "f_lock_depth g' = f_lock_depth g"
proof (cases c)
  case (F_Generate po so)
  with generate_ok [OF S ok, of po so] c that show thesis by auto
next
  case (F_Send rcpt pt n)
  with send_call_total [OF S ok] c(1) that show thesis by fastforce
next
  case (F_Poll buf n k so)
  with poll_call_total [OF S ok] c(1) that show thesis by fastforce
next
  case (F_Load d n)
  with load_call_total [OF ok] c(1) that show thesis by fastforce
next
  case F_Tick
  with tick_ok [OF S ok] that show thesis by auto
next
  case F_Discover
  with start_discovery_total [OF ok] that show thesis by auto
next
  case (F_Callback cb)
  with set_callback_total [OF ok, of cb] that show thesis by auto
qed (use c init_again [OF ok] ok that in simp_all)

section \<open>The invariant of the threads\<close>

text \<open>
  At most one thread is inside, and what it read there is still the shared state; the shared state is the
  result of the logged calls.
\<close>

definition thread_ok :: "'b pool \<Rightarrow> nat \<Rightarrow> bool" where
  "thread_ok p t \<longleftrightarrow> (case p_thread p t of
     Idle \<Rightarrow> p_owner p \<noteq> Some t
   | Waiting c \<Rightarrow> call_ok c \<and> p_owner p \<noteq> Some t
   | Holding c g w \<Rightarrow> call_ok c \<and> p_owner p = Some t \<and> g = p_ffi p \<and> w = p_world p
   | _ \<Rightarrow> False)"

definition busy :: "'b pool \<Rightarrow> nat set" where
  "busy p = {t. p_thread p t \<noteq> Idle}"

definition pool_ok :: "sodium \<Rightarrow> int \<Rightarrow> 'b inbox_state_scheme ffi \<Rightarrow> 'b ffi_world \<Rightarrow> 'b pool \<Rightarrow> bool" where
  "pool_ok S m g w p \<longleftrightarrow> \<not> p_fault p \<and> serial S m (p_log p) g w = Some (p_ffi p, p_world p) \<and>
     ffi_ok S (p_ffi p) (p_world p) \<and> f_lock_depth (p_ffi p) = f_lock_depth g \<and>
     (\<forall>t. thread_ok p t) \<and> finite (busy p)"

definition no_shutdown :: "'b pool \<Rightarrow> bool" where
  "no_shutdown p \<longleftrightarrow> F_Shutdown \<notin> (fst \<circ> snd) ` set (p_log p)"

lemma pool_start_ok: "ffi_ok S g w \<Longrightarrow> pool_ok S m g w (pool_start g w)"
  by (simp add: pool_ok_def pool_start_def thread_ok_def busy_def)

lemma busy_upd: "pool_ok S m g w p \<Longrightarrow> p_thread p' = (p_thread p)(t := s) \<Longrightarrow> finite (busy p')"
  by (rule finite_subset [of _ "insert t (busy p)"]) (auto simp: busy_def pool_ok_def)

lemma thread_okD:
  assumes "pool_ok S m g w p"
  shows "p_thread p t = Waiting c \<Longrightarrow> call_ok c" "p_thread p t \<noteq> Creating c" "p_thread p t \<noteq> Destroying"
    "p_thread p t = Holding c g1 w1 \<Longrightarrow> call_ok c \<and> p_owner p = Some t \<and> g1 = p_ffi p \<and> w1 = p_world p"
    "f_mutex_initialized (p_ffi p)" "f_initialized (p_ffi p)"
proof -
  have "thread_ok p t" "ffi_ok S (p_ffi p) (p_world p)" using assms by (simp_all add: pool_ok_def)
  then show "p_thread p t = Waiting c \<Longrightarrow> call_ok c" "p_thread p t \<noteq> Creating c" "p_thread p t \<noteq> Destroying"
    "p_thread p t = Holding c g1 w1 \<Longrightarrow> call_ok c \<and> p_owner p = Some t \<and> g1 = p_ffi p \<and> w1 = p_world p"
    "f_mutex_initialized (p_ffi p)" "f_initialized (p_ffi p)"
    by (auto simp: thread_ok_def ffi_ok_def)
qed

text \<open>The three steps a running node can take keep it.\<close>

lemma enter_ok:
  assumes "pool_ok S m g w p" "p_thread p t = Idle" "call_ok c"
  shows "pool_ok S m g w (set_thread t (Waiting c) p)"
proof -
  let ?p = "set_thread t (Waiting c) p"
  have p: "thread_ok p t'" for t' using assms(1) by (simp add: pool_ok_def)
  have "thread_ok ?p t'" for t'
    using p [of t'] assms(2,3) by (cases "p_thread p t'"; cases "t' = t") (simp_all add: thread_ok_def pool_defs)
  moreover have "finite (busy ?p)" by (rule busy_upd [OF assms(1), of _ t]) (simp add: pool_defs)
  ultimately show ?thesis using assms(1) by (simp add: pool_ok_def set_thread_def)
qed

lemma lock_ok:
  assumes ok: "pool_ok S m g w p" and "p_thread p t = Waiting c" "p_owner p = None"
  shows "pool_ok S m g w (set_thread t (Holding c (p_ffi p) (p_world p)) (p\<lparr>p_owner := Some t\<rparr>))" (is "pool_ok S m g w ?p")
proof -
  have p: "thread_ok p t'" for t' using ok by (simp add: pool_ok_def)
  have "thread_ok ?p t'" for t'
    using p [of t'] assms(2,3) by (cases "p_thread p t'"; cases "t' = t") (simp_all add: thread_ok_def pool_defs)
  moreover have "finite (busy ?p)" by (rule busy_upd [OF ok, of _ t]) (simp add: pool_defs)
  ultimately show ?thesis using ok by (simp add: pool_ok_def set_thread_def)
qed

lemma unlock_ok:
  assumes S: "sodium_ok S" and ok: "pool_ok S m g w p" and t: "p_thread p t = Holding c g1 w1"
    and c: "c \<noteq> F_Shutdown" and run: "run_call S m c g1 w1 = Some (r, g', w')"
  shows "pool_ok S m g w (answer t c r (set_thread t Idle (set_shared g' w' (p\<lparr>p_owner := None\<rparr>))))" (is "pool_ok S m g w ?p")
proof -
  have h: "call_ok c" "p_owner p = Some t" "g1 = p_ffi p" "w1 = p_world p" using thread_okD(4) [OF ok t] by auto
  have p: "thread_ok p t'" "ffi_ok S g1 w1" for t' using ok h by (simp_all add: pool_ok_def)
  have "thread_ok ?p t'" for t'
    using p(1) [of t'] h(2) by (cases "p_thread p t'"; cases "t' = t") (simp_all add: thread_ok_def pool_defs)
  moreover have "finite (busy ?p)" by (rule busy_upd [OF ok, of _ t]) (simp add: pool_defs)
  moreover have "ffi_ok S g' w'" "f_lock_depth g' = f_lock_depth g1"
    using call_total [OF S p(2) h(1) c, of m] run by (metis option.inject prod.inject)+
  ultimately show ?thesis
    using ok run h(3,4) by (simp add: pool_ok_def pool_defs serial_append)
qed

lemma pool_step_ok:
  assumes S: "sodium_ok S" and ok: "pool_ok S m g w p" and step: "pool_step S m p p'" and n: "no_shutdown p'"
  shows "pool_ok S m g w p'"
  using step
proof cases
  case (unlock t c g1 w1 r g' w')
  then have "c \<noteq> F_Shutdown" using n by (auto simp: no_shutdown_def pool_defs)
  with unlock unlock_ok [OF S ok] show ?thesis by blast
next
  case (unlock_shutdown t g1 w1 r g' w')
  with n show ?thesis by (simp add: no_shutdown_def pool_defs)
qed (use thread_okD [OF ok] enter_ok [OF ok] lock_ok [OF ok] in auto)

lemma step_log: "pool_step S m p p' \<Longrightarrow> no_shutdown p' \<Longrightarrow> no_shutdown p"
  by (erule pool_step.cases) (auto simp: no_shutdown_def pool_defs split: if_splits)

lemma pool_reach_ok:
  assumes "(pool_step S m)\<^sup>*\<^sup>* (pool_start g w) p" "sodium_ok S" "ffi_ok S g w" "no_shutdown p"
  shows "pool_ok S m g w p"
  using assms
proof (induction rule: rtranclp_induct)
  case base
  then show ?case by (simp add: pool_start_ok)
next
  case (step p p')
  with step_log pool_step_ok show ?case by blast
qed

section \<open>Every call returns\<close>

text \<open>No thread that is in the interface wants to shut it down.\<close>

definition no_shutdown_pending :: "'b pool \<Rightarrow> bool" where
  "no_shutdown_pending p \<longleftrightarrow> (\<forall>t g w. p_thread p t \<noteq> Waiting F_Shutdown \<and> p_thread p t \<noteq> Holding F_Shutdown g w)"

text \<open>The thread inside can leave, and then all that wait can follow one by one.\<close>

lemma leave:
  assumes S: "sodium_ok S" and ok: "pool_ok S m g w p" and t: "p_thread p t = Holding c g1 w1" and c: "c \<noteq> F_Shutdown"
  obtains p' where "pool_step S m p p'" "pool_ok S m g w p'" "p_thread p' = (p_thread p)(t := Idle)" "p_owner p' = None"
proof -
  have "call_ok c" "ffi_ok S g1 w1" using thread_okD(4) [OF ok t] ok by (auto simp: pool_ok_def)
  then obtain r g' w' where run: "run_call S m c g1 w1 = Some (r, g', w')" using call_total [OF S _ _ c] by metis
  have nf: "\<not> p_fault p" using ok by (simp add: pool_ok_def)
  show thesis
    by (rule that, rule pool_step.unlock [OF nf t _ run], use c in simp, rule unlock_ok [OF S ok t c run])
      (simp_all add: pool_defs)
qed

lemma drain_waiting:
  assumes S: "sodium_ok S" and "pool_ok S m g w p" "no_shutdown_pending p" "p_owner p = None"
  shows "\<exists>p'. (pool_step S m)\<^sup>*\<^sup>* p p' \<and> (\<forall>t. p_thread p' t = Idle)"
  using assms(2-)
proof (induction "card (busy p)" arbitrary: p rule: less_induct)
  case less
  note ok = less.prems(1)
  have fin: "finite (busy p)" and nf: "\<not> p_fault p" using ok by (simp_all add: pool_ok_def)
  show ?case
  proof (cases "\<forall>t. p_thread p t = Idle")
    case False
    then obtain t where t: "p_thread p t \<noteq> Idle" by blast
    then obtain c where w: "p_thread p t = Waiting c"
      using thread_okD(2-4) [OF ok, of t] less.prems(3) by (cases "p_thread p t") auto
    have c: "c \<noteq> F_Shutdown" using less.prems(2) w by (auto simp: no_shutdown_pending_def)
    let ?p = "set_thread t (Holding c (p_ffi p) (p_world p)) (p\<lparr>p_owner := Some t\<rparr>)"
    have l: "pool_step S m p ?p" using nf w thread_okD(5) [OF ok] less.prems(3) by (rule pool_step.lock)
    obtain q where q: "pool_step S m ?p q" "pool_ok S m g w q" "p_thread q = (p_thread ?p)(t := Idle)" "p_owner q = None"
      by (rule leave [OF S lock_ok [OF ok w less.prems(3)], of t c]) (use c in \<open>auto simp: set_thread_def\<close>)
    have pq: "p_thread q = (p_thread p)(t := Idle)" using q(3) by (simp add: set_thread_def)
    have "busy q \<subset> busy p" using pq t by (auto simp: busy_def)
    moreover have "no_shutdown_pending q" using less.prems(2) pq by (auto simp: no_shutdown_pending_def)
    ultimately obtain p' where "(pool_step S m)\<^sup>*\<^sup>* q p'" "\<forall>t. p_thread p' t = Idle"
      using less.hyps [OF psubset_card_mono [OF fin] q(2) _ q(4)] by blast
    with l q(1) show ?thesis by (meson converse_rtranclp_into_rtranclp)
  qed blast
qed

lemma drain:
  assumes S: "sodium_ok S" and ok: "pool_ok S m g w p" and n: "no_shutdown_pending p"
  shows "\<exists>p'. (pool_step S m)\<^sup>*\<^sup>* p p' \<and> (\<forall>t. p_thread p' t = Idle)"
proof (cases "p_owner p")
  case None
  then show ?thesis using drain_waiting [OF S ok n] by blast
next
  case (Some t)
  have "thread_ok p t" using ok by (simp add: pool_ok_def)
  then obtain c g1 w1 where t: "p_thread p t = Holding c g1 w1"
    using Some by (auto simp: thread_ok_def split: thread.splits)
  with n have c: "c \<noteq> F_Shutdown" by (auto simp: no_shutdown_pending_def)
  obtain q where q: "pool_step S m p q" "pool_ok S m g w q" "p_thread q = (p_thread p)(t := Idle)" "p_owner q = None"
    by (rule leave [OF S ok t c])
  have "no_shutdown_pending q" using n q(3) by (auto simp: no_shutdown_pending_def)
  from drain_waiting [OF S q(2) this q(4)] q(1) show ?thesis by (meson converse_rtranclp_into_rtranclp)
qed

section \<open>Outside the mutex\<close>

text \<open>Two threads in \<open>ensure_mutex\<close> at the same time.\<close>

lemma init_race: "\<exists>p. (pool_step S 0)\<^sup>*\<^sup>* (pool_start ffi_zero w) p \<and> p_log p = [] \<and> p_fault p"
proof -
  let ?i = "F_Init None" and ?p0 = "pool_start ffi_zero w"
  let ?p1 = "set_thread 1 (Creating ?i) ?p0"
  let ?p2 = "set_thread 2 (Creating ?i) ?p1"
  let ?p3 = "set_thread 1 (Waiting ?i) (?p2\<lparr>p_ffi := snd (ensure_mutex 0 (p_ffi ?p2))\<rparr>)"
  have s1: "pool_step S 0 ?p0 ?p1" by (rule pool_step.enter_first) (simp_all add: pool_start_def is_init_def ffi_zero_def)
  have s2: "pool_step S 0 ?p1 ?p2"
    by (rule pool_step.enter_first) (simp_all add: pool_start_def is_init_def ffi_zero_def set_thread_def)
  have s3: "pool_step S 0 ?p2 ?p3"
    using pool_step.create [of ?p2 1 ?i 0 BC_OK "snd (ensure_mutex 0 (p_ffi ?p2))" S]
    by (simp add: pool_start_def ffi_zero_def set_thread_def ensure_mutex_def)
  have s4: "pool_step S 0 ?p3 (?p3\<lparr>p_fault := True\<rparr>)"
    by (rule pool_step.create_again [of _ 2 ?i]) (simp_all add: pool_start_def ffi_zero_def set_thread_def ensure_mutex_def)
  have r: "(pool_step S 0)\<^sup>*\<^sup>* ?p0 (?p3\<lparr>p_fault := True\<rparr>)"
    by (rule run_step [OF run_step [OF run_step [OF run_step [OF run_start s1] s2] s3] s4])
  show ?thesis
    by (intro exI conjI, rule r) (simp_all add: pool_start_def set_thread_def)
qed

text \<open>A thread at the lock while another one shuts down.\<close>

lemma shutdown_race:
  assumes ok: "ffi_ok S g w"
  shows "\<exists>p. (pool_step S m)\<^sup>*\<^sup>* (pool_start g w) p \<and> p_log p = [(1, F_Shutdown, R_Void)] \<and>
    p_thread p 2 = Waiting F_Tick \<and> p_fault p"
proof -
  have f: "f_mutex_initialized g" "f_initialized g" using ok by (simp_all add: ffi_ok_def)
  obtain g' w' where sd: "run_call S m F_Shutdown g w = Some (R_Void, g', w')" using shutdown_spec [OF ok] by auto
  let ?p0 = "pool_start g w"
  let ?p1 = "set_thread 1 (Waiting F_Shutdown) ?p0"
  let ?p2 = "set_thread 2 (Waiting F_Tick) ?p1"
  let ?p3 = "set_thread 1 (Holding F_Shutdown (p_ffi ?p2) (p_world ?p2)) (?p2\<lparr>p_owner := Some 1\<rparr>)"
  let ?p4 = "answer 1 F_Shutdown R_Void (set_thread 1 Destroying
      (set_shared (g'\<lparr>f_mutex_initialized := True\<rparr>) w' (?p3\<lparr>p_owner := None\<rparr>)))"
  let ?p5 = "set_thread 1 Idle (?p4\<lparr>p_ffi := (p_ffi ?p4)\<lparr>f_mutex_initialized := False\<rparr>\<rparr>)"
  have s1: "pool_step S m ?p0 ?p1" by (rule pool_step.enter) (simp_all add: pool_start_def is_init_def)
  have s2: "pool_step S m ?p1 ?p2" by (rule pool_step.enter) (simp_all add: pool_start_def is_init_def set_thread_def)
  have s3: "pool_step S m ?p2 ?p3" by (rule pool_step.lock) (use f in \<open>simp_all add: pool_start_def set_thread_def\<close>)
  have s4: "pool_step S m ?p3 ?p4"
    by (rule pool_step.unlock_shutdown [of _ _ g w]) (use f sd in \<open>simp_all add: pool_start_def set_thread_def\<close>)
  have s5: "pool_step S m ?p4 ?p5" by (rule pool_step.destroy) (simp_all add: pool_start_def pool_defs)
  have s6: "pool_step S m ?p5 (?p5\<lparr>p_fault := True\<rparr>)"
    by (rule pool_step.lock_missing [of _ 2 F_Tick]) (simp_all add: pool_start_def pool_defs)
  have r: "(pool_step S m)\<^sup>*\<^sup>* ?p0 (?p5\<lparr>p_fault := True\<rparr>)"
    by (rule run_step [OF run_step [OF run_step [OF run_step [OF run_step [OF run_step [OF run_start s1] s2] s3] s4] s5] s6])
  show ?thesis
    by (intro exI conjI, rule r) (simp_all add: pool_start_def pool_defs)
qed

section \<open>Properties\<close>



text \<open>
  C36. Where the mutex does not protect the interface: two threads that call \<open>bitchat_init\<close> first can both
  find the mutex missing and initialise it twice, and a call that waits for the mutex while another thread
  shuts a running node down is left with a mutex that has been destroyed. Both are undefined.
\<close>

theorem ffi_threads_undefined:
  "(\<exists>p. (pool_step S 0)\<^sup>*\<^sup>* (pool_start ffi_zero w1) p \<and> p_log p = [] \<and> p_fault p) \<and>
   (ffi_ok S g w \<longrightarrow> (\<exists>p. (pool_step S m)\<^sup>*\<^sup>* (pool_start g w) p \<and> p_log p = [(1, F_Shutdown, R_Void)] \<and>
      p_thread p 2 = Waiting F_Tick \<and> p_fault p))"
  using init_race shutdown_race by blast

theorem ffi_threads_undefined_witness:
  "\<exists>p. (pool_step toy_sodium 0)\<^sup>*\<^sup>* (pool_start (node_ffi toy_sodium (replicate 32 1))
       (with_ext (node_state (replicate 32 1) (replicate 32 1)) 0)) p \<and> p_fault p"
  using ffi_threads_undefined [of toy_sodium _ "node_ffi toy_sodium (replicate 32 1)"
      "with_ext (node_state (replicate 32 1) (replicate 32 1)) 0" 0]
    node_ok [of "replicate 32 1" "replicate 32 1" toy_sodium 0] by auto

end
