(* ===== verification/Contract.thy ===== *)
theory Contract
  imports World
begin

text \<open>
  Contracts of C functions, as the public headers document them: what the caller has to provide and
  what the function then promises. A function meets its contract when, on every argument the contract
  admits, it returns (no fault, see \<^verbatim>\<open>Prelude\<close>) and the result is as promised: total correctness.
\<close>

record ('x, 'y) contract =
  requires :: "'x \<Rightarrow> bool"
  ensures :: "'x \<Rightarrow> 'y \<Rightarrow> bool"

definition meets :: "('x \<Rightarrow> 'y option) \<Rightarrow> ('x, 'y) contract \<Rightarrow> bool" where
  "meets f C \<longleftrightarrow> (\<forall>x. requires C x \<longrightarrow> (\<exists>y. f x = Some y \<and> ensures C x y))"

lemma meetsI [intro?]:
  "(\<And>x. requires C x \<Longrightarrow> \<exists>y. f x = Some y \<and> ensures C x y) \<Longrightarrow> meets f C"
  by (simp add: meets_def)

lemma meetsD:
  assumes "meets f C" "requires C x"
  obtains y where "f x = Some y" "ensures C x y"
  using assms unfolding meets_def by blast

text \<open>Any result a caller sees is as promised, since the model of a C function is deterministic.\<close>

lemma meets_result: "meets f C \<Longrightarrow> requires C x \<Longrightarrow> f x = Some y \<Longrightarrow> ensures C x y"
  by (auto simp: meets_def)

text \<open>The rule of consequence, and calling one function on the results of another.\<close>

lemma meets_consequence:
  assumes "meets f C" "\<And>x. requires D x \<Longrightarrow> requires C x"
    and "\<And>x y. requires D x \<Longrightarrow> ensures C x y \<Longrightarrow> ensures D x y"
  shows "meets f D"
  using assms unfolding meets_def by blast

lemma meets_seq:
  assumes "meets f C" "meets g D" "\<And>x y. requires C x \<Longrightarrow> ensures C x y \<Longrightarrow> requires D (h x y)"
  shows "meets (\<lambda>x. Option.bind (f x) (\<lambda>y. g (h x y)))
    \<lparr>requires = requires C, ensures = \<lambda>x z. \<exists>y. ensures C x y \<and> ensures D (h x y) z\<rparr>"
proof
  fix x
  assume "requires \<lparr>requires = requires C, ensures = \<lambda>x z. \<exists>y. ensures C x y \<and> ensures D (h x y) z\<rparr> x"
  then have x: "requires C x" by simp
  then obtain y where y: "f x = Some y" "ensures C x y" using meetsD [OF assms(1)] by blast
  then obtain z where "g (h x y) = Some z" "ensures D (h x y) z"
    using meetsD [OF assms(2) assms(3) [OF x]] by blast
  with y show "\<exists>z. Option.bind (f x) (\<lambda>y. g (h x y)) = Some z \<and>
      ensures \<lparr>requires = requires C, ensures = \<lambda>x z. \<exists>y. ensures C x y \<and> ensures D (h x y) z\<rparr> x z"
    by auto
qed

text \<open>
  ``Allocation failure'' in a contract: one of the allocations made between two states, of one of the
  given sizes, was refused.
\<close>

definition alloc_refused :: "nat list \<Rightarrow> 'a world_scheme \<Rightarrow> 'a world_scheme \<Rightarrow> bool" where
  "alloc_refused sizes w w' \<longleftrightarrow>
     list_ex (\<lambda>k. list_ex (\<lambda>s. \<not> w_heap w k s) sizes) [w_nalloc w..<w_nalloc w']"

lemma alloc_refused_iff:
  "alloc_refused sizes w w' \<longleftrightarrow> (\<exists>k s. w_nalloc w \<le> k \<and> k < w_nalloc w' \<and> s \<in> set sizes \<and> \<not> w_heap w k s)"
  by (auto simp: alloc_refused_def list_ex_iff)

lemma alloc_refusedI:
  "\<not> w_heap w k s \<Longrightarrow> s \<in> set sizes \<Longrightarrow> w_nalloc w \<le> k \<Longrightarrow> k < w_nalloc w' \<Longrightarrow> alloc_refused sizes w w'"
  by (auto simp: alloc_refused_iff)

lemma heap_grants: "(\<And>k s. w_heap w k s) \<Longrightarrow> \<not> alloc_refused sizes w w'"
  by (simp add: alloc_refused_iff)

end
