(* ===== verification/Api_Domain.thy ===== *)
theory Api_Domain
  imports Contract Message Peer Identity
begin

text \<open>
  The documented contracts of the domain layer: \<^verbatim>\<open>message.h\<close>, \<^verbatim>\<open>identity.h\<close> and \<^verbatim>\<open>peer.h\<close>. Each
  contract is the comment block above a prototype; the theorems show that the functions of
  \<^verbatim>\<open>src/domain\<close> meet them.
\<close>

section \<open>Messages (\<^verbatim>\<open>message.h\<close>)\<close>

text \<open>
  A new message with a random identifier and a copy of the payload, owned by the caller, or \<open>NULL\<close> on
  allocation failure.
\<close>

definition bc_message_create_contract ::
  "(bytes \<times> bytes \<times> bytes \<times> nat \<times> 'a world_scheme, bc_message option \<times> 'a world_scheme) contract" where
  "bc_message_create_contract =
     \<lparr>requires = \<lambda>(sender, receiver, payload, payload_len, w).
        length sender = BC_PUBKEY_SIZE \<and> length receiver = BC_PUBKEY_SIZE \<and> payload_len \<le> length payload,
      ensures = \<lambda>(sender, receiver, payload, payload_len, w) (res, w').
        (case res of
           None \<Rightarrow> alloc_refused [sizeof_message, payload_len] w w' \<and> w_live w' = w_live w
         | Some m \<Rightarrow> message_wf m \<and> msg_uuid m = fst (randombytes_buf BC_UUID_SIZE w) \<and>
             msg_sender_pubkey m = sender \<and> msg_receiver_pubkey m = receiver \<and>
             payload_bytes m = take payload_len payload \<and> w_live w' = w_live w + msg_blocks m)\<rparr>"

text \<open>All resources of a message are given back; \<open>NULL\<close> is allowed.\<close>

definition bc_message_destroy_contract ::
  "(bc_message option \<times> 'a world_scheme, 'a world_scheme) contract" where
  "bc_message_destroy_contract =
     \<lparr>requires = \<lambda>_. True,
      ensures = \<lambda>(msg, w) w'. w_live w' = w_live w - (case msg of None \<Rightarrow> 0 | Some m \<Rightarrow> msg_blocks m)\<rparr>"

text \<open>
  The wire format is written at the start of the buffer and its length reported, or the buffer is too
  small. The length of an existing message fits in a \<open>size_t\<close> together with the header.
\<close>

definition bc_message_serialize_contract ::
  "(bc_message \<times> bytes \<times> nat \<times> nat, bc_err \<times> bytes option \<times> nat option) contract" where
  "bc_message_serialize_contract =
     \<lparr>requires = \<lambda>(m, buf, buf_len, out).
        message_wf m \<and> BC_MESSAGE_HEADER_SIZE + msg_payload_len m < 2 ^ 64 \<and> buf_len \<le> length buf,
      ensures = \<lambda>(m, buf, buf_len, out) (err, buf', out').
        if BC_MESSAGE_HEADER_SIZE + msg_payload_len m \<le> buf_len
        then err = BC_OK \<and> out' = Some (length (wire m)) \<and>
          buf' = Some (wire m @ drop (length (wire m)) buf)
        else err = BC_ERR_BUFFER_TOO_SMALL \<and> buf' = Some buf\<rparr>"

text \<open>
  The message the buffer holds, owned by the caller, or \<open>NULL\<close> on error: too short a buffer or no
  memory. The code keeps this promise only while header and length field add up to less than \<open>2^32\<close>.
\<close>

definition bc_message_deserialize_contract ::
  "(bytes \<times> nat \<times> 'a world_scheme, bc_message option \<times> 'a world_scheme) contract" where
  "bc_message_deserialize_contract =
     \<lparr>requires = \<lambda>(data, data_len, w).
        data_len \<le> length data \<and> BC_MESSAGE_HEADER_SIZE + wire_plen data < 2 ^ 32,
      ensures = \<lambda>(data, data_len, w) (res, w').
        (case res of
           None \<Rightarrow> w_live w' = w_live w \<and>
             (data_len < BC_MESSAGE_HEADER_SIZE \<or> data_len < BC_MESSAGE_HEADER_SIZE + wire_plen data \<or>
              alloc_refused [sizeof_message, wire_plen data] w w')
         | Some m \<Rightarrow> message_wf m \<and> length (wire m) \<le> data_len \<and> wire m = take (length (wire m)) data \<and>
             w_live w' = w_live w + msg_blocks m)\<rparr>"

lemma create_meets:
  "meets (\<lambda>(s, r, p, n, w). bc_message_create (Some s) (Some r) (Some p) n w) bc_message_create_contract"
proof
  fix x :: "bytes \<times> bytes \<times> bytes \<times> nat \<times> 'a world_scheme"
  assume "requires bc_message_create_contract x"
  then show "\<exists>y. (\<lambda>(s, r, p, n, w). bc_message_create (Some s) (Some r) (Some p) n w) x = Some y \<and>
      ensures bc_message_create_contract x y"
  proof (cases x)
    case (fields s r p n w)
    with \<open>requires bc_message_create_contract x\<close> show ?thesis
      by (cases "w_heap w (w_nalloc w) sizeof_message"; cases "w_heap w (Suc (w_nalloc w)) n"; cases "n = 0")
        (auto simp: bc_message_create_contract_def bc_message_create_def c_malloc_def c_free_def c_time_def
          randombytes_buf_def mem_simps Let_def message_wf_def msg_blocks_def payload_bytes_def size_defs
          intro: alloc_refusedI)
  qed
qed

lemma destroy_meets: "meets (\<lambda>(m, w). Some (bc_message_destroy m w)) bc_message_destroy_contract"
  by rule (auto simp: bc_message_destroy_contract_def split: option.split)

lemma serialize_meets:
  "meets (\<lambda>(m, b, n, l). bc_message_serialize (Some m) (Some b) n (Some l)) bc_message_serialize_contract"
proof
  fix x :: "bc_message \<times> bytes \<times> nat \<times> nat"
  assume req: "requires bc_message_serialize_contract x"
  obtain m b n l where x: "x = (m, b, n, l)" by (cases x)
  show "\<exists>y. (\<lambda>(m, b, n, l). bc_message_serialize (Some m) (Some b) n (Some l)) x = Some y \<and>
      ensures bc_message_serialize_contract x y"
    using req serialize_ok [of m n b l] serialize_too_small [of m n b l]
    by (cases "93 + msg_payload_len m \<le> n") (simp_all add: x bc_message_serialize_contract_def wire_length)
qed

lemma deserialize_refused:
  assumes "bc_message_deserialize (Some d) n w = Some (None, w')" "93 \<le> n" "n \<le> length d"
    "93 + wire_plen d < 2 ^ 32" "93 + wire_plen d \<le> n"
  shows "alloc_refused [sizeof_message, wire_plen d] w w'"
  using assms
  by (auto simp: deserialize_eq c_malloc_def c_free_def split: if_splits intro: alloc_refusedI)

lemma deserialize_meets:
  "meets (\<lambda>(d, n, w). bc_message_deserialize (Some d) n w) bc_message_deserialize_contract"
proof
  fix x :: "bytes \<times> nat \<times> 'a world_scheme"
  assume req: "requires bc_message_deserialize_contract x"
  obtain d n w where x: "x = (d, n, w)" by (cases x)
  have n: "n \<le> length d" "93 + wire_plen d < 2 ^ 32"
    using req by (simp_all add: x bc_message_deserialize_contract_def)
  then obtain res w' where r: "bc_message_deserialize (Some d) n w = Some (res, w')"
    using deserialize_fault_iff [OF n(1), of w] by (cases "bc_message_deserialize (Some d) n w") auto
  show "\<exists>y. (\<lambda>(d, n, w). bc_message_deserialize (Some d) n w) x = Some y \<and>
      ensures bc_message_deserialize_contract x y"
  proof (cases res)
    case None
    with r n show ?thesis
      using deserialize_None [of "Some d" n w w'] deserialize_refused [of d n w w']
      by (cases "93 + wire_plen d \<le> n") (auto simp: x bc_message_deserialize_contract_def)
  next
    case (Some m)
    have m: "m = decode d" "93 + wire_plen d \<le> length d" "93 \<le> n" "w_live w' = w_live w + msg_blocks m"
      using deserialize_Some [of d n w m w'] r n Some by simp_all
    have "93 + wire_plen d \<le> n"
      using r Some n m(3) by (auto simp: deserialize_eq split: if_splits)
    with m r Some n show ?thesis
      by (simp add: x bc_message_deserialize_contract_def decode_wf wire_decode)
  qed
qed

text \<open>
  What a client may conclude from the header alone: a message survives the wire, and whoever destroys
  what it created or decoded leaks nothing.
\<close>

locale message_api =
  fixes create :: "bytes \<times> bytes \<times> bytes \<times> nat \<times> 'a world_scheme \<Rightarrow> (bc_message option \<times> 'a world_scheme) option"
    and destroy :: "bc_message option \<times> 'a world_scheme \<Rightarrow> 'a world_scheme option"
    and serialize :: "bc_message \<times> bytes \<times> nat \<times> nat \<Rightarrow> (bc_err \<times> bytes option \<times> nat option) option"
    and deserialize :: "bytes \<times> nat \<times> 'a world_scheme \<Rightarrow> (bc_message option \<times> 'a world_scheme) option"
  assumes create_law: "meets create bc_message_create_contract"
    and destroy_law: "meets destroy bc_message_destroy_contract"
    and serialize_law: "meets serialize bc_message_serialize_contract"
    and deserialize_law: "meets deserialize bc_message_deserialize_contract"
begin

lemma wire_trip:
  assumes m: "message_wf m" "93 + msg_payload_len m < 2 ^ 32" and n: "93 + msg_payload_len m \<le> n" "n \<le> length b"
    and heap: "\<And>k s. w_heap w k s"
  obtains b' w' where "serialize (m, b, n, l) = Some (BC_OK, Some b', Some (93 + msg_payload_len m))"
    "deserialize (b', 93 + msg_payload_len m, w) = Some (Some m, w')" "w_live w' = w_live w + msg_blocks m"
proof -
  have "requires bc_message_serialize_contract (m, b, n, l)"
    using assms by (simp add: bc_message_serialize_contract_def)
  then obtain y where "serialize (m, b, n, l) = Some y" "ensures bc_message_serialize_contract (m, b, n, l) y"
    by (rule meetsD [OF serialize_law])
  with m n have ser: "serialize (m, b, n, l) =
      Some (BC_OK, Some (wire m @ drop (length (wire m)) b), Some (93 + msg_payload_len m))"
    by (cases y) (simp add: bc_message_serialize_contract_def wire_length)
  let ?b = "wire m @ drop (length (wire m)) b"
  let ?x = "(?b, 93 + msg_payload_len m, w)"
  have plen: "wire_plen ?b = msg_payload_len m" using wire_plen_wire [OF m(1)] m(2) by simp
  have "requires bc_message_deserialize_contract ?x"
    using m plen by (simp add: bc_message_deserialize_contract_def wire_length)
  then obtain res w' where des: "deserialize ?x = Some (res, w')"
      "ensures bc_message_deserialize_contract ?x (res, w')"
    using meetsD [OF deserialize_law] by (metis surj_pair)
  show thesis
  proof (cases res)
    case None
    with des(2) plen heap_grants [OF heap] show thesis by (simp add: bc_message_deserialize_contract_def)
  next
    case (Some m')
    with des(2) have m': "message_wf m'" "length (wire m') \<le> 93 + msg_payload_len m"
      "wire m' = take (length (wire m')) ?b" "w_live w' = w_live w + msg_blocks m'"
      by (simp_all add: bc_message_deserialize_contract_def)
    then have "wire m' @ drop (length (wire m')) ?b = ?b" by (metis append_take_drop_id)
    moreover have "msg_payload_len m' < 2 ^ 32" using m' m(2) by (simp add: wire_length)
    ultimately have "m' = m" using decode_wire [OF m'(1)] decode_wire [OF m(1)] m(2)
      by (metis add_lessD1 add.commute)
    with ser des(1) Some m' that show thesis by simp
  qed
qed

lemma create_destroy:
  assumes "length s = 32" "length r = 32" "n \<le> length p"
  obtains res w1 w2 where "create (s, r, p, n, w) = Some (res, w1)" "destroy (res, w1) = Some w2" "w_live w2 = w_live w"
proof -
  have "requires bc_message_create_contract (s, r, p, n, w)"
    using assms by (simp add: bc_message_create_contract_def size_defs)
  then obtain res w1 where c: "create (s, r, p, n, w) = Some (res, w1)"
      "ensures bc_message_create_contract (s, r, p, n, w) (res, w1)"
    using meetsD [OF create_law] by (metis surj_pair)
  have "requires bc_message_destroy_contract (res, w1)" by (simp add: bc_message_destroy_contract_def)
  then obtain w2 where "destroy (res, w1) = Some w2" "ensures bc_message_destroy_contract (res, w1) w2"
    by (rule meetsD [OF destroy_law])
  with c show thesis
    by (intro that [of res w1 w2])
      (auto simp: bc_message_create_contract_def bc_message_destroy_contract_def split: option.splits)
qed

end

interpretation msg: message_api
  "\<lambda>(s, r, p, n, w). bc_message_create (Some s) (Some r) (Some p) n w"
  "\<lambda>(m, w). Some (bc_message_destroy m w)"
  "\<lambda>(m, b, n, l). bc_message_serialize (Some m) (Some b) n (Some l)"
  "\<lambda>(d, n, w). bc_message_deserialize (Some d) n w"
  by unfold_locales (rule create_meets destroy_meets serialize_meets deserialize_meets)+

section \<open>Identities (\<^verbatim>\<open>identity.h\<close>)\<close>

text \<open>A fresh key pair from the generator's random bytes, or \<open>BC_ERR_CRYPTO\<close> when that fails.\<close>

definition bc_identity_generate_contract ::
  "sodium \<Rightarrow> (bc_identity \<times> 'a world_scheme, bc_err \<times> bc_identity option \<times> 'a world_scheme) contract" where
  "bc_identity_generate_contract S =
     \<lparr>requires = \<lambda>_. sodium_ok S,
      ensures = \<lambda>(i, w) (err, i', w').
        (case sd_box_keypair S (fst (randombytes_buf BC_SECRET_KEY_SIZE w)) of
           None \<Rightarrow> err = BC_ERR_CRYPTO
         | Some (pk, sk) \<Rightarrow> err = BC_OK \<and> i' = Some \<lparr>id_pubkey = pk, id_secret_key = sk\<rparr> \<and>
             length pk = BC_PUBKEY_SIZE \<and> length sk = BC_SECRET_KEY_SIZE)\<rparr>"

text \<open>Public key and secret key at the start of the buffer, or the buffer is too small.\<close>

definition bc_identity_serialize_contract :: "(bc_identity \<times> bytes \<times> nat, bc_err \<times> bytes option) contract" where
  "bc_identity_serialize_contract =
     \<lparr>requires = \<lambda>(i, buf, buf_len). identity_wf i \<and> buf_len \<le> length buf,
      ensures = \<lambda>(i, buf, buf_len) (err, buf').
        if BC_PUBKEY_SIZE + BC_SECRET_KEY_SIZE \<le> buf_len
        then err = BC_OK \<and> buf' = Some (id_pubkey i @ id_secret_key i @ drop (BC_PUBKEY_SIZE + BC_SECRET_KEY_SIZE) buf)
        else err = BC_ERR_BUFFER_TOO_SMALL \<and> buf' = Some buf\<rparr>"

text \<open>The identity in the buffer, or \<open>BC_ERR_INVALID\<close> for malformed data and an untouched output.\<close>

definition bc_identity_deserialize_contract :: "(bc_identity \<times> bytes \<times> nat, bc_err \<times> bc_identity option) contract" where
  "bc_identity_deserialize_contract =
     \<lparr>requires = \<lambda>(i, data, data_len). data_len \<le> length data,
      ensures = \<lambda>(i, data, data_len) (err, i').
        (case i' of
           None \<Rightarrow> False
         | Some j \<Rightarrow>
             if BC_PUBKEY_SIZE + BC_SECRET_KEY_SIZE \<le> data_len
             then err = BC_OK \<and> identity_wf j \<and>
               id_pubkey j @ id_secret_key j = take (BC_PUBKEY_SIZE + BC_SECRET_KEY_SIZE) data
             else err = BC_ERR_INVALID \<and> j = i)\<rparr>"

text \<open>The secret key is gone, the public key stays.\<close>

definition bc_identity_wipe_contract :: "(bc_identity, bc_identity option) contract" where
  "bc_identity_wipe_contract =
     \<lparr>requires = \<lambda>_. True,
      ensures = \<lambda>i i'. i' = Some \<lparr>id_pubkey = id_pubkey i, id_secret_key = replicate BC_SECRET_KEY_SIZE 0\<rparr>\<rparr>"

lemma generate_meets:
  "meets (\<lambda>(i, w). Some (bc_identity_generate S (Some i) w)) (bc_identity_generate_contract S)"
  by rule (auto simp: bc_identity_generate_contract_def bc_identity_generate_def size_defs
      case_prod_beta split: option.split dest: sodium_keypair)

lemma identity_serialize_meets:
  "meets (\<lambda>(i, b, n). bc_identity_serialize (Some i) (Some b) n) bc_identity_serialize_contract"
proof
  fix x :: "bc_identity \<times> bytes \<times> nat"
  assume req: "requires bc_identity_serialize_contract x"
  obtain i b n where x: "x = (i, b, n)" by (cases x)
  from req show "\<exists>y. (\<lambda>(i, b, n). bc_identity_serialize (Some i) (Some b) n) x = Some y \<and>
      ensures bc_identity_serialize_contract x y"
  proof (cases "64 \<le> n")
    case True
    with req show ?thesis
      by (simp add: x bc_identity_serialize_contract_def identity_serialize_ok size_defs)
  next
    case False
    then show ?thesis
      by (simp add: x bc_identity_serialize_contract_def bc_identity_serialize_def
          BC_IDENTITY_SERIALIZED_SIZE_def size_defs)
  qed
qed

lemma identity_deserialize_meets:
  "meets (\<lambda>(i, d, n). bc_identity_deserialize (Some i) (Some d) n) bc_identity_deserialize_contract"
proof
  fix x :: "bc_identity \<times> bytes \<times> nat"
  assume req: "requires bc_identity_deserialize_contract x"
  obtain i d n where x: "x = (i, d, n)" by (cases x)
  have "take 32 d @ take 32 (drop 32 d) = take 64 d" using take_add [of 32 32 d] by simp
  with req show "\<exists>y. (\<lambda>(i, d, n). bc_identity_deserialize (Some i) (Some d) n) x = Some y \<and>
      ensures bc_identity_deserialize_contract x y"
    by (cases "64 \<le> n")
      (simp_all add: x bc_identity_deserialize_contract_def identity_deserialize_ok identity_deserialize_short
        identity_wf_def size_defs)
qed

lemma identity_wipe_meets: "meets (\<lambda>i. Some (bc_identity_wipe (Some i))) bc_identity_wipe_contract"
  by rule (simp add: bc_identity_wipe_contract_def bc_identity_wipe_def)

text \<open>
  A client of the header: storing and restoring gives the identity back, and after a wipe neither the
  struct nor its stored form depends on the secret.
\<close>

locale identity_api =
  fixes serialize :: "bc_identity \<times> bytes \<times> nat \<Rightarrow> (bc_err \<times> bytes option) option"
    and deserialize :: "bc_identity \<times> bytes \<times> nat \<Rightarrow> (bc_err \<times> bc_identity option) option"
    and wipe :: "bc_identity \<Rightarrow> bc_identity option option"
  assumes serialize_law: "meets serialize bc_identity_serialize_contract"
    and deserialize_law: "meets deserialize bc_identity_deserialize_contract"
    and wipe_law: "meets wipe bc_identity_wipe_contract"
begin

lemma stored:
  assumes "identity_wf i" "64 \<le> n" "n \<le> length b"
  shows "serialize (i, b, n) = Some (BC_OK, Some (id_pubkey i @ id_secret_key i @ drop 64 b))"
proof -
  have "requires bc_identity_serialize_contract (i, b, n)"
    using assms by (simp add: bc_identity_serialize_contract_def)
  then obtain y where "serialize (i, b, n) = Some y" "ensures bc_identity_serialize_contract (i, b, n) y"
    by (rule meetsD [OF serialize_law])
  with assms show ?thesis by (cases y) (simp add: bc_identity_serialize_contract_def size_defs)
qed

lemma restored:
  assumes "identity_wf i" "length b = 64"
  obtains b' where "serialize (i, b, 64) = Some (BC_OK, Some b')" "deserialize (j, b', 64) = Some (BC_OK, Some i)"
proof -
  have s: "serialize (i, b, 64) = Some (BC_OK, Some (id_pubkey i @ id_secret_key i))"
    using stored [OF assms(1), of 64 b] assms(2) by simp
  let ?x = "(j, id_pubkey i @ id_secret_key i, 64)"
  have "requires bc_identity_deserialize_contract ?x"
    using assms(1) by (simp add: bc_identity_deserialize_contract_def identity_wf_def size_defs)
  then obtain y where y: "deserialize ?x = Some y" "ensures bc_identity_deserialize_contract ?x y"
    by (rule meetsD [OF deserialize_law])
  then obtain k where k: "y = (BC_OK, Some k)" "identity_wf k"
      "id_pubkey k @ id_secret_key k = id_pubkey i @ id_secret_key i"
    using assms(1)
    by (cases y) (auto simp: bc_identity_deserialize_contract_def identity_wf_def size_defs split: option.splits)
  with assms(1) have "id_pubkey k = id_pubkey i" "id_secret_key k = id_secret_key i"
    by (simp_all add: identity_wf_def)
  then have "k = i" by (rule bc_identity.equality) simp
  with s y(1) k(1) show thesis by (intro that) simp_all
qed

lemma wiped_forgets:
  assumes "id_pubkey i = id_pubkey j"
  shows "wipe i = wipe j"
proof -
  have "wipe k = Some (Some \<lparr>id_pubkey = id_pubkey k, id_secret_key = replicate BC_SECRET_KEY_SIZE 0\<rparr>)" for k
    using wipe_law by (simp add: meets_def bc_identity_wipe_contract_def)
  then show ?thesis using assms by simp
qed

end

interpretation ident: identity_api
  "\<lambda>(i, b, n). bc_identity_serialize (Some i) (Some b) n"
  "\<lambda>(i, d, n). bc_identity_deserialize (Some i) (Some d) n"
  "\<lambda>i. Some (bc_identity_wipe (Some i))"
  by unfold_locales (rule identity_serialize_meets identity_deserialize_meets identity_wipe_meets)+

section \<open>Peers (\<^verbatim>\<open>peer.h\<close>)\<close>

text \<open>A peer with the given key and transport.\<close>

definition bc_peer_init_contract ::
  "(bc_peer \<times> bytes \<times> bc_transport_type \<times> 'a world_scheme, bc_peer option \<times> 'a world_scheme) contract" where
  "bc_peer_init_contract =
     \<lparr>requires = \<lambda>(peer, pubkey, transport, w). length pubkey = BC_PUBKEY_SIZE,
      ensures = \<lambda>(peer, pubkey, transport, w) (peer', w').
        (case peer' of
           None \<Rightarrow> False
         | Some p \<Rightarrow> peer_wf p \<and> peer_pubkey p = pubkey \<and> peer_transport p = transport)\<rparr>"

text \<open>The last-seen time becomes the current time; nothing else changes.\<close>

definition bc_peer_touch_contract :: "(bc_peer \<times> 'a world_scheme, bc_peer option \<times> 'a world_scheme) contract" where
  "bc_peer_touch_contract =
     \<lparr>requires = \<lambda>_. True,
      ensures = \<lambda>(peer, w) (peer', w'). peer' = Some (peer\<lparr>peer_last_seen := fst (c_time w)\<rparr>)\<rparr>"

lemma peer_init_meets: "meets (\<lambda>(p, k, t, w). bc_peer_init (Some p) (Some k) t w) bc_peer_init_contract"
proof
  fix x :: "bc_peer \<times> bytes \<times> bc_transport_type \<times> 'a world_scheme"
  assume "requires bc_peer_init_contract x"
  then show "\<exists>y. (\<lambda>(p, k, t, w). bc_peer_init (Some p) (Some k) t w) x = Some y \<and> ensures bc_peer_init_contract x y"
    using bc_peer_init_ok [of "fst (snd x)" "fst x" "fst (snd (snd x))" "snd (snd (snd x))"]
    by (auto simp: bc_peer_init_contract_def case_prod_beta)
qed

lemma peer_touch_meets: "meets (\<lambda>(p, w). Some (bc_peer_touch (Some p) w)) bc_peer_touch_contract"
  by rule (auto simp: bc_peer_touch_contract_def touched_def c_time_def)

section \<open>Property\<close>



end
