(* ===== verification/Api_Crypto.thy ===== *)
theory Api_Crypto
  imports Contract Crypto
begin

text \<open>
  The documented contracts of \<^verbatim>\<open>crypto_manager.h\<close> over the parameter \<open>S\<close> that stands for libsodium,
  and what they give a client: a channel between the owners of two key pairs. Output buffers may be
  longer than the documented minimum; what lies behind is left alone.
\<close>

definition bc_crypto_init_contract :: "sodium \<Rightarrow> (unit, bc_err) contract" where
  "bc_crypto_init_contract S =
     \<lparr>requires = \<lambda>_. True,
      ensures = \<lambda>_ err. err = (if sd_init S < 0 then BC_ERR_CRYPTO else BC_OK)\<rparr>"

text \<open>\<open>BC_OK\<close> on success: the promise is about a generator that does not fail, as libsodium documents.\<close>

definition bc_crypto_generate_keypair_contract ::
  "sodium \<Rightarrow> (bytes \<times> bytes \<times> 'a world_scheme, bc_err \<times> bytes option \<times> bytes option \<times> 'a world_scheme) contract" where
  "bc_crypto_generate_keypair_contract S =
     \<lparr>requires = \<lambda>(pubkey_out, secret_out, w). sodium_ok S \<and> length pubkey_out = BC_PUBKEY_SIZE \<and>
        length secret_out = BC_PUBKEY_SIZE \<and> sd_box_keypair S (fst (randombytes_buf BC_SECRET_KEY_SIZE w)) \<noteq> None,
      ensures = \<lambda>(pubkey_out, secret_out, w) (err, pk, sk, w').
        (case (pk, sk) of
           (Some pk, Some sk) \<Rightarrow> err = BC_OK \<and> length pk = BC_PUBKEY_SIZE \<and> length sk = BC_SECRET_KEY_SIZE \<and>
             sd_box_keypair S (fst (randombytes_buf BC_SECRET_KEY_SIZE w)) = Some (pk, sk)
         | _ \<Rightarrow> False)\<rparr>"

text \<open>The key that \<open>crypto_box_beforenm\<close> computes, or \<open>BC_ERR_CRYPTO\<close>.\<close>

definition bc_crypto_derive_shared_contract ::
  "sodium \<Rightarrow> (bytes \<times> bytes \<times> bytes, bc_err \<times> bytes option) contract" where
  "bc_crypto_derive_shared_contract S =
     \<lparr>requires = \<lambda>(my_secret, peer_key, shared_out). sodium_ok S \<and> length my_secret = BC_PUBKEY_SIZE \<and>
        length peer_key = BC_PUBKEY_SIZE \<and> length shared_out = BC_SHARED_KEY_SIZE,
      ensures = \<lambda>(my_secret, peer_key, shared_out) (err, out).
        (case sd_box_beforenm S peer_key my_secret of
           None \<Rightarrow> err = BC_ERR_CRYPTO
         | Some key \<Rightarrow> err = BC_OK \<and> out = Some key \<and> length key = BC_SHARED_KEY_SIZE)\<rparr>"

text \<open>A random nonce is written out; the ciphertext with its tag is the plaintext's length plus 16.\<close>

definition bc_crypto_encrypt_contract ::
  "sodium \<Rightarrow> (bytes \<times> nat \<times> bytes \<times> bytes \<times> bytes \<times> 'a world_scheme,
      bc_err \<times> bytes option \<times> bytes option \<times> 'a world_scheme) contract" where
  "bc_crypto_encrypt_contract S =
     \<lparr>requires = \<lambda>(plaintext, plaintext_len, shared_key, ciphertext_out, nonce_out, w).
        sodium_ok S \<and> plaintext_len \<le> length plaintext \<and> length shared_key = BC_SHARED_KEY_SIZE \<and>
        plaintext_len + BC_TAG_SIZE \<le> length ciphertext_out \<and> length nonce_out = BC_NONCE_SIZE,
      ensures = \<lambda>(plaintext, plaintext_len, shared_key, ciphertext_out, nonce_out, w) (err, ct, nonce, w').
        nonce = Some (fst (randombytes_buf BC_NONCE_SIZE w)) \<and>
        (case sd_aead_encrypt S (take plaintext_len plaintext) (fst (randombytes_buf BC_NONCE_SIZE w)) shared_key of
           None \<Rightarrow> err = BC_ERR_CRYPTO
         | Some c \<Rightarrow> err = BC_OK \<and> length c = plaintext_len + BC_TAG_SIZE \<and>
             ct = Some (c @ drop (plaintext_len + BC_TAG_SIZE) ciphertext_out))\<rparr>"

text \<open>The plaintext, or \<open>BC_ERR_CRYPTO\<close> when the ciphertext does not authenticate.\<close>

definition bc_crypto_decrypt_contract ::
  "sodium \<Rightarrow> (bytes \<times> nat \<times> bytes \<times> bytes \<times> bytes, bc_err \<times> bytes option) contract" where
  "bc_crypto_decrypt_contract S =
     \<lparr>requires = \<lambda>(ciphertext, ciphertext_len, shared_key, nonce, plaintext_out).
        sodium_ok S \<and> BC_TAG_SIZE \<le> ciphertext_len \<and> ciphertext_len \<le> length ciphertext \<and>
        length shared_key = BC_SHARED_KEY_SIZE \<and> length nonce = BC_NONCE_SIZE \<and>
        ciphertext_len - BC_TAG_SIZE \<le> length plaintext_out,
      ensures = \<lambda>(ciphertext, ciphertext_len, shared_key, nonce, plaintext_out) (err, out).
        (case sd_aead_decrypt S (take ciphertext_len ciphertext) nonce shared_key of
           None \<Rightarrow> err = BC_ERR_CRYPTO
         | Some p \<Rightarrow> err = BC_OK \<and> out = Some (p @ drop (ciphertext_len - BC_TAG_SIZE) plaintext_out))\<rparr>"

lemmas crypto_contract_defs =
  bc_crypto_init_contract_def bc_crypto_generate_keypair_contract_def bc_crypto_derive_shared_contract_def
  bc_crypto_encrypt_contract_def bc_crypto_decrypt_contract_def

section \<open>The functions meet them\<close>

lemma crypto_init_meets: "meets (\<lambda>_. Some (bc_crypto_init S)) (bc_crypto_init_contract S)"
  by rule (simp add: crypto_contract_defs bc_crypto_init_def)

lemma generate_keypair_meets:
  "meets (\<lambda>(pk, sk, w). Some (bc_crypto_generate_keypair S (Some pk) (Some sk) w)) (bc_crypto_generate_keypair_contract S)"
  by rule (auto simp: crypto_contract_defs bc_crypto_generate_keypair_def case_prod_beta size_defs
      split: option.splits dest: sodium_keypair)

lemma derive_shared_meets:
  "meets (\<lambda>(sk, pk, out). bc_crypto_derive_shared S (Some sk) (Some pk) (Some out)) (bc_crypto_derive_shared_contract S)"
  by rule (auto simp: crypto_contract_defs derive_shared_eq crypto_sizes size_defs
      split: option.split dest: sodium_shared)

lemma encrypt_prefix:
  assumes "sodium_ok S" "n \<le> length p" "length k = 32" "n + 16 \<le> length ct" "length nonce = 24"
  shows "bc_crypto_encrypt S (Some p) n (Some k) (Some ct) (Some nonce) w =
    (let (rnd, w') = randombytes_buf 24 w in
     Some (case sd_aead_encrypt S (take n p) rnd k of
       None \<Rightarrow> (BC_ERR_CRYPTO, Some ct, Some rnd, w')
     | Some c \<Rightarrow> (BC_OK, Some (c @ drop (n + 16) ct), Some rnd, w')))"
proof -
  obtain rnd w' where rnd: "randombytes_buf 24 w = (rnd, w')" "length rnd = 24"
    using randombytes_length [of 24 w] by (cases "randombytes_buf 24 w") simp
  have "bc_crypto_encrypt S (Some p) n (Some k) (Some ct) (Some nonce) w =
      (case sd_aead_encrypt S (take n p) rnd k of
         None \<Rightarrow> Some (BC_ERR_CRYPTO, Some ct, Some rnd, w')
       | Some c \<Rightarrow> do { ct \<leftarrow> memcpy ct 0 c 0 (length c); Some (BC_OK, Some ct, Some rnd, w') })"
    using assms(2,3,5) rnd by (simp add: bc_crypto_encrypt_def crypto_sizes mem_read_def memcpy_def)
  then show ?thesis
  proof (cases "sd_aead_encrypt S (take n p) rnd k")
    case (Some c)
    then have "length c = n + 16" using sodium_encrypt [OF assms(1) Some] assms(2) by simp
    with Some assms(4) rnd \<open>bc_crypto_encrypt S (Some p) n (Some k) (Some ct) (Some nonce) w = _\<close>
    show ?thesis by (simp add: memcpy_def)
  qed (use rnd in simp)
qed

lemma encrypt_meets:
  "meets (\<lambda>(p, n, k, ct, nonce, w). bc_crypto_encrypt S (Some p) n (Some k) (Some ct) (Some nonce) w)
     (bc_crypto_encrypt_contract S)"
  by rule (auto simp: crypto_contract_defs encrypt_prefix crypto_sizes case_prod_beta
      split: option.split dest: sodium_encrypt)

lemma decrypt_meets:
  "meets (\<lambda>(c, n, k, nonce, out). bc_crypto_decrypt S (Some c) n (Some k) (Some nonce) (Some out))
     (bc_crypto_decrypt_contract S)"
  by rule (auto simp: crypto_contract_defs decrypt_prefix crypto_sizes split: option.split)

section \<open>A client of the header\<close>

text \<open>
  From the contracts alone: two parties with generated key pairs derive the same key, and what one
  encrypts the other decrypts, whatever buffers of sufficient size they use.
\<close>

locale crypto_api =
  fixes S :: sodium
    and derive :: "bytes \<times> bytes \<times> bytes \<Rightarrow> (bc_err \<times> bytes option) option"
    and encrypt :: "bytes \<times> nat \<times> bytes \<times> bytes \<times> bytes \<times> 'a world_scheme \<Rightarrow>
      (bc_err \<times> bytes option \<times> bytes option \<times> 'a world_scheme) option"
    and decrypt :: "bytes \<times> nat \<times> bytes \<times> bytes \<times> bytes \<Rightarrow> (bc_err \<times> bytes option) option"
  assumes derive_law: "meets derive (bc_crypto_derive_shared_contract S)"
    and encrypt_law: "meets encrypt (bc_crypto_encrypt_contract S)"
    and decrypt_law: "meets decrypt (bc_crypto_decrypt_contract S)"
begin

lemma same_key:
  assumes S: "sodium_ok S" and a: "sd_box_keypair S ra = Some (pka, ska)" and b: "sd_box_keypair S rb = Some (pkb, skb)"
    and out: "length o1 = 32" "length o2 = 32" and ok: "derive (ska, pkb, o1) = Some (BC_OK, r)"
  shows "derive (skb, pka, o2) = Some (BC_OK, r) \<and> (\<exists>k. r = Some k \<and> length k = 32)"
proof -
  note len = sodium_keypair [OF S a] sodium_keypair [OF S b]
  have 1: "requires (bc_crypto_derive_shared_contract S) (ska, pkb, o1)"
    and 2: "requires (bc_crypto_derive_shared_contract S) (skb, pka, o2)"
    using S len out by (simp_all add: bc_crypto_derive_shared_contract_def size_defs crypto_sizes)
  obtain k where k: "sd_box_beforenm S pkb ska = Some k" "r = Some k" "length k = 32"
    using meets_result [OF derive_law 1 ok]
    by (auto simp: bc_crypto_derive_shared_contract_def crypto_sizes split: option.splits)
  obtain y where "derive (skb, pka, o2) = Some y" "ensures (bc_crypto_derive_shared_contract S) (skb, pka, o2) y"
    using meetsD [OF derive_law 2] .
  with k sodium_agree [OF S a b] show ?thesis
    by (cases y) (simp add: bc_crypto_derive_shared_contract_def)
qed

lemma channel:
  assumes S: "sodium_ok S" and len: "n \<le> length p" "length k = 32" "n + 16 \<le> length ct" "length nonce = 24" "n \<le> length out"
    and enc: "encrypt (p, n, k, ct, nonce, w) = Some (BC_OK, Some c, Some nn, w')"
  shows "decrypt (c, n + 16, k, nn, out) = Some (BC_OK, Some (take n p @ drop n out))"
proof -
  have "requires (bc_crypto_encrypt_contract S) (p, n, k, ct, nonce, w)"
    using S len by (simp add: bc_crypto_encrypt_contract_def crypto_sizes)
  from meets_result [OF encrypt_law this enc] obtain c0 where c:
      "sd_aead_encrypt S (take n p) nn k = Some c0" "length c0 = n + 16" "c = c0 @ drop (n + 16) ct" "length nn = 24"
    by (auto simp: bc_crypto_encrypt_contract_def crypto_sizes split: option.splits)
  let ?x = "(c, n + 16, k, nn, out)"
  have "requires (bc_crypto_decrypt_contract S) ?x"
    using S len c by (simp add: bc_crypto_decrypt_contract_def crypto_sizes)
  then obtain y where "decrypt ?x = Some y" "ensures (bc_crypto_decrypt_contract S) ?x y"
    by (rule meetsD [OF decrypt_law])
  with c sodium_encrypt [OF S c(1)] show ?thesis
    by (cases y) (simp add: bc_crypto_decrypt_contract_def crypto_sizes)
qed

end

interpretation cm: crypto_api S
  "\<lambda>(sk, pk, out). bc_crypto_derive_shared S (Some sk) (Some pk) (Some out)"
  "\<lambda>(p, n, k, ct, nonce, w). bc_crypto_encrypt S (Some p) n (Some k) (Some ct) (Some nonce) w"
  "\<lambda>(c, n, k, nonce, out). bc_crypto_decrypt S (Some c) n (Some k) (Some nonce) (Some out)"
  for S :: sodium
  by unfold_locales (rule derive_shared_meets encrypt_meets decrypt_meets)+

section \<open>Property\<close>



end
