(* ===== verification/Api_Store.thy ===== *)
theory Api_Store
  imports Contract Sqlite
begin

text \<open>
  The documented contracts of \<^verbatim>\<open>message_store.h\<close> for a store over the SQLite adapter, in terms of the
  map from identifiers to pending rows that the database stands for. Each call answers \<open>BC_OK\<close> or a
  negative error code; an error leaves the map as it was.
\<close>

section \<open>The contracts\<close>

text \<open>A store over the given storage; a retention of 0 stands for the default of 72 hours.\<close>

definition bc_store_create_contract ::
  "('a bc_storage \<times> u64 \<times> 'a world_scheme, 'a bc_msg_store option \<times> 'a world_scheme) contract" where
  "bc_store_create_contract =
     \<lparr>requires = \<lambda>_. True,
      ensures = \<lambda>(storage, max_age_sec, w) (store, w').
        (case store of
           None \<Rightarrow> alloc_refused [sizeof_msg_store] w w' \<and> w_live w' = w_live w
         | Some st \<Rightarrow> ms_storage st = storage \<and> w_live w' = w_live w + 1 \<and>
             ms_max_age_sec st = (if max_age_sec = 0 then 72 * 3600 else max_age_sec))\<rparr>"

text \<open>The message is pending afterwards; a message that already was keeps its first row.\<close>

definition bc_store_save_contract ::
  "('b sql_state_scheme bc_msg_store \<times> bc_message \<times> 'b sql_world, bc_err \<times> 'b sql_world) contract" where
  "bc_store_save_contract =
     \<lparr>requires = \<lambda>(st, msg, w). ms_storage st = sqlite_storage \<and> sql_inv (ext w) \<and> storable msg,
      ensures = \<lambda>(st, msg, w) (err, w'). sql_inv (ext w') \<and> quiet w w' \<and>
        (if err = BC_OK
         then pending_map (ext w') = (if msg_uuid msg \<in> dom (pending_map (ext w)) then pending_map (ext w)
           else (pending_map (ext w))(msg_uuid msg \<mapsto> stored_row msg (fst (c_time w))))
         else err < BC_OK \<and> pending_map (ext w') = pending_map (ext w))\<rparr>"

text \<open>
  The pending messages of one receiver, from the front of the table; their blocks belong to the caller.
  The table does not change.
\<close>

definition bc_store_get_for_peer_contract ::
  "('b sql_state_scheme bc_msg_store \<times> bytes \<times> 'b sql_world,
     bc_err \<times> bc_message list option \<times> 'b sql_world) contract" where
  "bc_store_get_for_peer_contract =
     \<lparr>requires = \<lambda>(st, pubkey, w). ms_storage st = sqlite_storage \<and> sql_inv (ext w) \<and> length pubkey = BC_PUBKEY_SIZE,
      ensures = \<lambda>(st, pubkey, w) (err, msgs, w'). sql_inv (ext w') \<and> q_rows (ext w') = q_rows (ext w) \<and>
        (case msgs of
           None \<Rightarrow> False
         | Some ms \<Rightarrow>
             if err = BC_OK
             then w_live w' = w_live w + blocks_of ms \<and> (\<forall>m\<in>set ms. storable m \<and> msg_receiver_pubkey m = pubkey) \<and>
               (\<exists>i. ms = map row_msg (take i (sql_get_pending (Some pubkey) (fst (c_time w)) (q_rows (ext w)))))
             else err < BC_OK \<and> ms = [] \<and> w_live w' = w_live w)\<rparr>"

text \<open>The message is no longer pending.\<close>

definition bc_store_delete_contract ::
  "('b sql_state_scheme bc_msg_store \<times> bytes \<times> 'b sql_world, bc_err \<times> 'b sql_world) contract" where
  "bc_store_delete_contract =
     \<lparr>requires = \<lambda>(st, uuid, w). ms_storage st = sqlite_storage \<and> sql_inv (ext w) \<and> length uuid = BC_UUID_SIZE,
      ensures = \<lambda>(st, uuid, w) (err, w'). sql_inv (ext w') \<and> quiet w w' \<and>
        (if err = BC_OK then pending_map (ext w') = (pending_map (ext w))(uuid := None)
         else err < BC_OK \<and> pending_map (ext w') = pending_map (ext w))\<rparr>"

text \<open>Expired messages are gone, all others stay.\<close>

definition bc_store_cleanup_contract ::
  "('b sql_state_scheme bc_msg_store \<times> 'b sql_world, bc_err \<times> 'b sql_world) contract" where
  "bc_store_cleanup_contract =
     \<lparr>requires = \<lambda>(st, w). ms_storage st = sqlite_storage \<and> sql_inv (ext w),
      ensures = \<lambda>(st, w) (err, w'). sql_inv (ext w') \<and> quiet w w' \<and>
        (if err = BC_OK
         then pending_map (ext w') = (\<lambda>u. case pending_map (ext w) u of None \<Rightarrow> None
           | Some r \<Rightarrow> if pr_expires_at r <s fst (c_time w) then None else Some r)
         else err < BC_OK \<and> pending_map (ext w') = pending_map (ext w))\<rparr>"

definition bc_store_destroy_contract :: "('a bc_msg_store option \<times> 'a world_scheme, 'a world_scheme) contract" where
  "bc_store_destroy_contract =
     \<lparr>requires = \<lambda>_. True,
      ensures = \<lambda>(store, w) w'. w_live w' = w_live w - (case store of None \<Rightarrow> 0 | Some _ \<Rightarrow> 1)\<rparr>"

text \<open>
  The adapter underneath, \<^verbatim>\<open>storage_sqlite.h\<close>: a storage with every operation wired that owns its
  resources, which its \<open>destroy\<close> gives back, or \<open>NULL\<close>. What the database holds is not touched.
\<close>

definition bc_storage_sqlite_create_contract ::
  "(string \<times> 'b sql_world, 'b sql_state_scheme bc_storage option \<times> 'b sql_world) contract" where
  "bc_storage_sqlite_create_contract =
     \<lparr>requires = \<lambda>_. True,
      ensures = \<lambda>(db_path, w) (storage, w'). q_rows (ext w') = q_rows (ext w) \<and>
        (case storage of
           None \<Rightarrow> w_live w' = w_live w
         | Some s \<Rightarrow> st_store_message s \<noteq> None \<and> st_get_pending s \<noteq> None \<and> st_delete_message s \<noteq> None \<and>
             st_evict_expired s \<noteq> None \<and>
             (case st_destroy s of
                None \<Rightarrow> False
              | Some destroy \<Rightarrow> w_live (destroy w') = w_live w \<and> q_handles (ext (destroy w')) = q_handles (ext w)))\<rparr>"

section \<open>The functions meet them\<close>

lemma sqlite_storage_simps [simp]:
  "st_store_message sqlite_storage = Some sqlite_store_message" "st_get_pending sqlite_storage = Some sqlite_get_pending"
  "st_delete_message sqlite_storage = Some sqlite_delete_message"
  "st_evict_expired sqlite_storage = Some sqlite_evict_expired"
  by (simp_all add: sqlite_storage_def)

lemma err_negative: "BC_ERR_STORAGE < BC_OK" "BC_ERR_NOMEM < BC_OK"
  by (simp_all add: less_bc_err_def)

lemma store_create_meets: "meets (\<lambda>(s, age, w). Some (bc_store_create (Some s) age w)) bc_store_create_contract"
  by rule (auto simp: bc_store_create_contract_def bc_store_create_def c_malloc_def alloc_refused_def
      BC_STORE_MAX_AGE_SEC_def word_greater_zero_iff)

lemma save_meets: "meets (\<lambda>(st, m, w). bc_store_save (Some st) (Some m) w) bc_store_save_contract"
proof
  fix x :: "'b sql_state_scheme bc_msg_store \<times> bc_message \<times> 'b sql_world"
  assume req: "requires bc_store_save_contract x"
  obtain st m w where x: "x = (st, m, w)" by (cases x)
  have r: "ms_storage st = sqlite_storage" "sql_inv (ext w)" "storable m"
    using req by (simp_all add: x bc_store_save_contract_def)
  obtain rc w1 where 1: "sqlite_store_message m w = Some (rc, w1)" "quiet w w1" "sql_inv (ext w1)"
    using sq.store_ok [of sqlite_store_message m w] r by auto
  have "rc = BC_OK \<or> rc < BC_OK" using err_le_OK [of rc] by auto
  with 1 r map_store [OF r(3) 1(1)]
  show "\<exists>y. (\<lambda>(st, m, w). bc_store_save (Some st) (Some m) w) x = Some y \<and> ensures bc_store_save_contract x y"
    by (auto simp: x bc_store_save_contract_def bc_store_save_def c_time_def)
qed

lemma get_for_peer_meets:
  "meets (\<lambda>(st, pk, w). bc_store_get_for_peer (Some st) (Some pk) (Some []) w) bc_store_get_for_peer_contract"
proof
  fix x :: "'b sql_state_scheme bc_msg_store \<times> bytes \<times> 'b sql_world"
  assume req: "requires bc_store_get_for_peer_contract x"
  obtain st pk w where x: "x = (st, pk, w)" by (cases x)
  have r: "ms_storage st = sqlite_storage" "sql_inv (ext w)" "length pk = 32"
    using req by (simp_all add: x bc_store_get_for_peer_contract_def size_defs)
  let ?rows = "sql_get_pending (Some pk) (w_clock w (w_ntime w)) (q_rows (ext w))"
  obtain rc ms w' k where 1: "sqlite_get_pending (Some pk) w = Some (rc, ms, w')" "ext w' = (ext w)\<lparr>q_ncall := k\<rparr>"
      "if rc = BC_OK then \<exists>i. ms = map row_msg (take i ?rows) \<and> w_live w' = w_live w + blocks_of ms
       else rc = BC_ERR_NOMEM \<and> ms = [] \<and> w_live w' = w_live w"
    by (rule get_pending_spec [of "Some pk" w]) (use r in simp_all)
  have "set ms \<subseteq> row_msg ` set ?rows" using 1(3) set_take_subset by (fastforce split: if_splits)
  then have "storable m \<and> msg_receiver_pubkey m = pk" if "m \<in> set ms" for m
    using that pending_message [OF r(2), of m "Some pk"] by blast
  moreover have "sql_inv (ext w')" using r(2) 1(2) by (simp add: sql_inv_def)
  ultimately show "\<exists>y. (\<lambda>(st, pk, w). bc_store_get_for_peer (Some st) (Some pk) (Some []) w) x = Some y \<and>
      ensures bc_store_get_for_peer_contract x y"
    using 1 r by (simp add: x bc_store_get_for_peer_contract_def bc_store_get_for_peer_def c_time_def err_negative
        split: if_splits)
qed

lemma delete_meets: "meets (\<lambda>(st, u, w). bc_store_delete (Some st) (Some u) w) bc_store_delete_contract"
proof
  fix x :: "'b sql_state_scheme bc_msg_store \<times> bytes \<times> 'b sql_world"
  assume req: "requires bc_store_delete_contract x"
  obtain st u w where x: "x = (st, u, w)" by (cases x)
  have r: "ms_storage st = sqlite_storage" "sql_inv (ext w)" "length u = 16"
    using req by (simp_all add: x bc_store_delete_contract_def size_defs)
  obtain rc w1 where 1: "sqlite_delete_message u w = Some (rc, w1)" "quiet w w1" "sql_inv (ext w1)"
    using sq.delete_ok [of sqlite_delete_message u w] r by auto
  have "rc = BC_OK \<or> rc < BC_OK" using err_le_OK [of rc] by auto
  with 1 r map_delete [OF r(3) 1(1)]
  show "\<exists>y. (\<lambda>(st, u, w). bc_store_delete (Some st) (Some u) w) x = Some y \<and> ensures bc_store_delete_contract x y"
    by (auto simp: x bc_store_delete_contract_def bc_store_delete_def)
qed

lemma cleanup_meets: "meets (\<lambda>(st, w). bc_store_cleanup (Some st) w) bc_store_cleanup_contract"
proof
  fix x :: "'b sql_state_scheme bc_msg_store \<times> 'b sql_world"
  assume req: "requires bc_store_cleanup_contract x"
  obtain st w where x: "x = (st, w)" by (cases x)
  have r: "ms_storage st = sqlite_storage" "sql_inv (ext w)"
    using req by (simp_all add: x bc_store_cleanup_contract_def)
  obtain rc w1 where 1: "sqlite_evict_expired (ms_max_age_sec st) w = Some (rc, w1)" "quiet w w1" "sql_inv (ext w1)"
    using sq.evict_ok [of sqlite_evict_expired w "ms_max_age_sec st"] r by auto
  have "rc = BC_OK \<or> rc < BC_OK" using err_le_OK [of rc] by auto
  moreover have t: "fst (c_time w) = w_clock w (w_ntime w)" by (simp add: c_time_def)
  ultimately show "\<exists>y. (\<lambda>(st, w). bc_store_cleanup (Some st) w) x = Some y \<and> ensures bc_store_cleanup_contract x y"
    using 1 r map_evict [OF r(2) 1(1), folded t]
    by (auto simp: x bc_store_cleanup_contract_def bc_store_cleanup_def)
qed

lemma store_destroy_meets: "meets (\<lambda>(st, w). Some (bc_store_destroy st w)) bc_store_destroy_contract"
  by rule (auto simp: bc_store_destroy_contract_def bc_store_destroy_def split: option.split)

lemma sqlite_create_meets:
  "meets (\<lambda>(path, w). Some (bc_storage_sqlite_create (Some path) w)) bc_storage_sqlite_create_contract"
proof
  fix x :: "string \<times> 'b sql_world"
  obtain path w where x: "x = (path, w)" by (cases x)
  obtain so w' where c: "bc_storage_sqlite_create (Some path) w = (so, w')" by force
  from sqlite_create_spec [OF c] c
  show "\<exists>y. (\<lambda>(path, w). Some (bc_storage_sqlite_create (Some path) w)) x = Some y \<and>
      ensures bc_storage_sqlite_create_contract x y"
    by (cases so) (auto simp: x bc_storage_sqlite_create_contract_def sqlite_storage_def)
qed

section \<open>A client of the header\<close>

text \<open>
  From the contracts alone: a message that was saved and then deleted is not returned by any later
  query, and a query never returns the same message twice.
\<close>

lemma pending_map_row:
  assumes "sql_inv x" "row \<in> set (q_rows x)"
  shows "pending_map x (pr_uuid row) = Some row"
proof -
  obtain i where i: "i < length (q_rows x)" "q_rows x ! i = row" using assms(2) by (auto simp: in_set_conv_nth)
  have "pr_uuid (q_rows x ! j) \<noteq> pr_uuid row" if "j < i" for j
    using that i assms(1) nth_key_eq [of pr_uuid "q_rows x" j i] by (auto simp: sql_inv_def)
  with i show ?thesis by (auto simp: pending_map_def find_Some_iff intro!: exI [of _ i])
qed

locale store_api =
  fixes get :: "'b sql_state_scheme bc_msg_store \<times> bytes \<times> 'b sql_world \<Rightarrow>
      (bc_err \<times> bc_message list option \<times> 'b sql_world) option"
    and delete :: "'b sql_state_scheme bc_msg_store \<times> bytes \<times> 'b sql_world \<Rightarrow> (bc_err \<times> 'b sql_world) option"
  assumes get_law: "meets get bc_store_get_for_peer_contract"
    and delete_law: "meets delete bc_store_delete_contract"
begin

lemma deleted_not_returned:
  assumes st: "ms_storage st = sqlite_storage" and inv: "sql_inv (ext w)" and len: "length u = 16" "length pk = 32"
    and del: "delete (st, u, w) = Some (BC_OK, w1)" and get: "get (st, pk, w1) = Some (BC_OK, Some ms, w2)"
  shows "\<forall>m\<in>set ms. msg_uuid m \<noteq> u"
proof
  fix m
  assume m: "m \<in> set ms"
  have "requires bc_store_delete_contract (st, u, w)"
    using st inv len by (simp add: bc_store_delete_contract_def size_defs)
  from meets_result [OF delete_law this del]
  have 1: "sql_inv (ext w1)" "pending_map (ext w1) u = None" by (simp_all add: bc_store_delete_contract_def)
  have "requires bc_store_get_for_peer_contract (st, pk, w1)"
    using st 1 len by (simp add: bc_store_get_for_peer_contract_def size_defs)
  from meets_result [OF get_law this get] obtain i where
      "ms = map row_msg (take i (sql_get_pending (Some pk) (fst (c_time w1)) (q_rows (ext w1))))"
    by (auto simp: bc_store_get_for_peer_contract_def)
  with m obtain row where "row \<in> set (q_rows (ext w1))" "m = row_msg row"
    by (auto simp: sql_get_pending_def dest!: in_set_takeD)
  with pending_map_row [OF 1(1)] 1(2) show "msg_uuid m \<noteq> u" by (auto simp: row_msg_def)
qed

lemma returned_once:
  assumes st: "ms_storage st = sqlite_storage" and inv: "sql_inv (ext w)" "length pk = 32"
    and get: "get (st, pk, w) = Some (BC_OK, Some ms, w')"
  shows "distinct (map msg_uuid ms)"
proof -
  have "requires bc_store_get_for_peer_contract (st, pk, w)"
    using st inv by (simp add: bc_store_get_for_peer_contract_def size_defs)
  from meets_result [OF get_law this get] obtain i where
      ms: "ms = map row_msg (take i (sql_get_pending (Some pk) (fst (c_time w)) (q_rows (ext w))))"
    by (auto simp: bc_store_get_for_peer_contract_def)
  have u: "msg_uuid \<circ> row_msg = pr_uuid" by (simp add: fun_eq_iff row_msg_def)
  have "distinct (map pr_uuid (sql_get_pending (Some pk) (fst (c_time w)) (q_rows (ext w))))"
    using inv(1) by (simp add: sql_inv_def sql_get_pending_def distinct_map_filter)
  then have "distinct (take i (map pr_uuid (sql_get_pending (Some pk) (fst (c_time w)) (q_rows (ext w)))))"
    by (rule distinct_take)
  then show ?thesis by (simp add: ms u take_map)
qed

end

interpretation msgs: store_api
  "\<lambda>(st, pk, w). bc_store_get_for_peer (Some st) (Some pk) (Some []) w"
  "\<lambda>(st, u, w). bc_store_delete (Some st) (Some u) w"
  by unfold_locales (rule get_for_peer_meets delete_meets)+

section \<open>Property\<close>



end
