(* ===== verification/Api_Discovery.thy ===== *)
theory Api_Discovery
  imports Contract Discovery Transport_Udp
begin

text \<open>
  The documented contracts of \<^verbatim>\<open>node_discovery.h\<close>. The scan's promise is that the registered callback
  is invoked for each newly seen peer; \<open>newly\<close> says which those are.
\<close>

section \<open>What is new\<close>

text \<open>
  The peers of a scan that become known: first occurrences of keys that are not known yet, while there
  are free slots.
\<close>

fun newly :: "bytes set \<Rightarrow> nat \<Rightarrow> bc_peer list \<Rightarrow> bc_peer list" where
  "newly K room [] = []"
| "newly K room (p # ps) =
     (if peer_pubkey p \<in> K \<or> room = 0 then newly K room ps
      else p # newly (insert (peer_pubkey p) K) (room - 1) ps)"

lemma newly_full [simp]: "newly K 0 ps = []"
  by (induction ps) simp_all

lemma newly_keys:
  "peer_keys (newly K room ps) \<subseteq> peer_keys ps - K" "distinct (map peer_pubkey (newly K room ps))"
  "length (newly K room ps) \<le> room" "set (newly K room ps) \<subseteq> set ps"
proof (induction ps arbitrary: K room)
  case (Cons p ps)
  {
    case 1
    show ?case using Cons(1) [of K room] Cons(1) [of "insert (peer_pubkey p) K" "room - 1"]
      by (auto simp: peer_keys_def)
  next
    case 2
    show ?case using Cons(2) [of K room] Cons(2) [of "insert (peer_pubkey p) K" "room - 1"]
        Cons(1) [of "insert (peer_pubkey p) K" "room - 1"]
      by (auto simp: peer_keys_def)
  next
    case 3
    show ?case using Cons(3) [of K room] Cons(3) [of "insert (peer_pubkey p) K" "room - 1"] by auto
  next
    case 4
    show ?case using Cons(4) [of K room] Cons(4) [of "insert (peer_pubkey p) K" "room - 1"] by auto
  }
qed (simp_all add: peer_keys_def)

lemma newly_complete:
  assumes "card (K \<union> peer_keys ps) \<le> card K + room" "finite K"
  shows "peer_keys (newly K room ps) = peer_keys ps - K"
  using assms
proof (induction ps arbitrary: K room)
  case (Cons p ps)
  have fin: "finite (peer_keys ps)" by (simp add: peer_keys_def)
  have k: "peer_keys (p # ps) = insert (peer_pubkey p) (peer_keys ps)" by (simp add: peer_keys_def)
  show ?case
  proof (cases "peer_pubkey p \<in> K")
    case True
    then have "K \<union> peer_keys (p # ps) = K \<union> peer_keys ps" by (auto simp: k)
    with Cons True show ?thesis by (simp add: k)
  next
    case False
    have "card (insert (peer_pubkey p) K) \<le> card (K \<union> peer_keys (p # ps))"
      using fin Cons.prems(2) by (intro card_mono) (auto simp: k)
    then have room: "room \<noteq> 0" using Cons.prems False by simp
    let ?K = "insert (peer_pubkey p) K"
    have "peer_keys (newly ?K (room - 1) ps) = peer_keys ps - ?K"
      using Cons.prems False room by (intro Cons.IH) (simp_all add: k insert_commute)
    moreover have "peer_keys (newly K room (p # ps)) = insert (peer_pubkey p) (peer_keys (newly ?K (room - 1) ps))"
      using False room by (simp add: peer_keys_def)
    ultimately show ?thesis using False by (auto simp: k)
  qed
qed (simp add: peer_keys_def)

section \<open>The scan reports exactly these\<close>

definition is_found :: "event \<Rightarrow> bool" where
  "is_found e \<longleftrightarrow> (case e of PeerFound _ \<Rightarrow> True | _ \<Rightarrow> False)"

lemma is_found_PeerFound [simp]: "is_found (PeerFound p)"
  by (simp add: is_found_def)

text \<open>A callback is registered, and it starts no scan of its own.\<close>

definition found_cb_ok :: "'a bc_discovery \<Rightarrow> bool" where
  "found_cb_ok d \<longleftrightarrow> (\<exists>cb. d_on_found d = Some cb \<and>
     (\<forall>ud p w. \<exists>w' es. cb ud p w = Some w' \<and> w_trace w' = w_trace w @ es \<and> filter is_found es = []))"

lemma scan_one_reports:
  assumes wf: "disc_wf d" "peer_wf p" and cb: "found_cb_ok d"
  shows "\<exists>d' w' es. scan_one p d w = Some (d', w') \<and> disc_wf d' \<and> found_cb_ok d' \<and> w_trace w' = w_trace w @ es \<and>
    filter is_found es = map PeerFound (newly (peer_keys (disc_known d)) (64 - length (disc_known d)) [p]) \<and>
    map peer_pubkey (disc_known d') = map peer_pubkey (disc_known d) @
      map peer_pubkey (newly (peer_keys (disc_known d)) (64 - length (disc_known d)) [p])"
proof (cases "peer_pubkey p \<in> peer_keys (disc_known d)")
  case True
  then obtain i where i: "i < length (disc_known d)" "peer_pubkey (disc_known d ! i) = peer_pubkey p"
    by (auto simp: peer_keys_def in_set_conv_nth)
  let ?d = "d\<lparr>d_peers := (d_peers d)[i := disc_refresh (d_peers d ! i) p w]\<rparr>"
  have s: "scan_one p d w = Some (?d, snd (c_time w))" by (rule scan_one_old [OF wf i])
  have "\<exists>d' w'. scan_one p d w = Some (d', w') \<and> disc_wf d' \<and>
      disc_known d' = (disc_known d)[i := disc_refresh (disc_known d ! i) p w]"
    by (rule dt.add_old [OF wf i])
  with s have d: "disc_wf ?d" "disc_known ?d = (disc_known d)[i := disc_refresh (disc_known d ! i) p w]" by auto
  then have "map peer_pubkey (disc_known ?d) = map peer_pubkey (disc_known d)"
    using map_key_update [OF i(1), of "disc_refresh (disc_known d ! i) p w"] by simp
  with s d cb True show ?thesis
    by (intro exI [of _ ?d] exI [of _ "snd (c_time w)"] exI [of _ "[]"]) (simp add: found_cb_ok_def)
next
  case False
  obtain cb w1 es where w1: "d_on_found d = Some cb" "cb (d_userdata d) p (emit (PeerFound p) w) = Some w1"
      "w_trace w1 = w_trace w @ PeerFound p # es" "filter is_found es = []"
    using cb unfolding found_cb_ok_def by (metis append_Cons append_Nil append_assoc emit_frame(1))
  obtain d' w' where d': "scan_one p d w = Some (d', w')" "disc_wf d'"
      "disc_known d' = (if length (disc_known d) < 64 then disc_known d @ [p] else disc_known d)"
    using dt.add_new [OF wf False, of w] by blast
  have n: "d_peer_count d \<le> 64" "length (disc_known d) = d_peer_count d"
    using wf(1) by (simp_all add: disc_wf_def disc_known_def)
  from scan_one_new [OF wf False, of w] d'(1)
  have "d' = (if d_peer_count d < 64
      then d\<lparr>d_peers := (d_peers d)[d_peer_count d := p], d_peer_count := Suc (d_peer_count d)\<rparr> else d)" by auto
  moreover have "w' = (if d_peer_count d < 64 then w1 else w)"
    using d'(1) w1(1,2) False wf scan_one_unknown [OF wf False, of w] n by (auto split: if_splits)
  ultimately show ?thesis
    using d' w1 cb False n
    by (intro exI [of _ d'] exI [of _ w'] exI [of _ "if d_peer_count d < 64 then PeerFound p # es else []"])
      (simp add: found_cb_ok_def)
qed

lemma newly_append:
  "newly K room (ps @ qs) =
   newly K room ps @ newly (K \<union> peer_keys (newly K room ps)) (room - length (newly K room ps)) qs"
proof (induction ps arbitrary: K room)
  case (Cons p ps)
  show ?case using Cons [of K room] Cons [of "insert (peer_pubkey p) K" "room - 1"]
    by (auto simp: peer_keys_def insert_is_Un [symmetric])
qed (simp add: peer_keys_def)

lemma adds_reports:
  assumes "disc_wf d" "\<forall>p\<in>set ps. peer_wf p" "found_cb_ok d"
  shows "\<exists>d' w' es. dt.adds ps d w = Some (d', w') \<and> disc_wf d' \<and> found_cb_ok d' \<and> w_trace w' = w_trace w @ es \<and>
    filter is_found es = map PeerFound (newly (peer_keys (disc_known d)) (64 - length (disc_known d)) ps) \<and>
    map peer_pubkey (disc_known d') = map peer_pubkey (disc_known d) @
      map peer_pubkey (newly (peer_keys (disc_known d)) (64 - length (disc_known d)) ps)"
  using assms
proof (induction ps arbitrary: d w)
  case (Cons p ps)
  let ?n = "\<lambda>ps. newly (peer_keys (disc_known d)) (64 - length (disc_known d)) ps"
  have p: "peer_wf p" "\<forall>p\<in>set ps. peer_wf p" using Cons.prems(2) by simp_all
  obtain d1 w1 es1 where 1: "scan_one p d w = Some (d1, w1)" "disc_wf d1" "found_cb_ok d1"
      "w_trace w1 = w_trace w @ es1" "filter is_found es1 = map PeerFound (?n [p])"
      "map peer_pubkey (disc_known d1) = map peer_pubkey (disc_known d) @ map peer_pubkey (?n [p])"
    using scan_one_reports [OF Cons.prems(1) p(1) Cons.prems(3), of w] by blast
  have k: "peer_keys (disc_known d1) = peer_keys (disc_known d) \<union> peer_keys (?n [p])"
    using arg_cong [OF 1(6), of set] by (simp add: peer_keys_def)
  have l: "length (disc_known d1) = length (disc_known d) + length (?n [p])"
    using arg_cong [OF 1(6), of length] by simp
  have n: "newly (peer_keys (disc_known d1)) (64 - length (disc_known d1)) ps =
      newly (peer_keys (disc_known d) \<union> peer_keys (?n [p])) (64 - length (disc_known d) - length (?n [p])) ps"
    by (simp only: k l diff_diff_left)
  obtain d2 w2 es2 where 2: "dt.adds ps d1 w1 = Some (d2, w2)" "disc_wf d2" "found_cb_ok d2"
      "w_trace w2 = w_trace w1 @ es2"
      "filter is_found es2 = map PeerFound (newly (peer_keys (disc_known d1)) (64 - length (disc_known d1)) ps)"
      "map peer_pubkey (disc_known d2) = map peer_pubkey (disc_known d1) @
        map peer_pubkey (newly (peer_keys (disc_known d1)) (64 - length (disc_known d1)) ps)"
    using Cons.IH [OF 1(2) p(2) 1(3), of w1] by blast
  have "?n (p # ps) = ?n [p] @ newly (peer_keys (disc_known d1)) (64 - length (disc_known d1)) ps"
    unfolding n using newly_append [of _ _ "[p]" ps] by (metis append_Cons append_Nil)
  then show ?case
    using 1 2 by (intro exI [of _ d2] exI [of _ w2] exI [of _ "es1 @ es2"])
      (simp del: newly.simps)
qed simp

section \<open>The contracts\<close>

text \<open>A manager over the given transport that knows no peer yet, or \<open>NULL\<close>.\<close>

definition bc_discovery_create_contract ::
  "('a bc_transport option \<times> 'a world_scheme, 'a bc_discovery option \<times> 'a world_scheme) contract" where
  "bc_discovery_create_contract =
     \<lparr>requires = \<lambda>_. True,
      ensures = \<lambda>(transport, w) (disc, w').
        (case disc of
           None \<Rightarrow> alloc_refused [sizeof_discovery] w w' \<and> w_live w' = w_live w
         | Some d \<Rightarrow> disc_wf d \<and> d_transport d = transport \<and> disc_known d = [] \<and> w_live w' = w_live w + 1)\<rparr>"

definition bc_discovery_on_peer_found_contract ::
  "('a bc_discovery \<times> 'a on_found_fn option \<times> nat, 'a bc_discovery option) contract" where
  "bc_discovery_on_peer_found_contract =
     \<lparr>requires = \<lambda>_. True,
      ensures = \<lambda>(disc, callback, userdata) disc'.
        disc' = Some (disc\<lparr>d_on_found := callback, d_userdata := userdata\<rparr>)\<rparr>"

text \<open>
  The transport's \<open>discover_peers\<close> is called; on success the callback is invoked for each newly seen
  peer, once and in the order found, and these are known from then on; an error of the transport is
  passed on and nothing is learnt.
\<close>

definition bc_discovery_scan_contract ::
  "'a discover_fn \<Rightarrow> ('a bc_discovery \<times> 'a world_scheme, bc_err \<times> 'a bc_discovery option \<times> 'a world_scheme) contract" where
  "bc_discovery_scan_contract discover =
     \<lparr>requires = \<lambda>(d, w). disc_wf d \<and> found_cb_ok d \<and>
        (\<exists>t. d_transport d = Some t \<and> tr_discover_peers t = Some discover) \<and>
        (\<exists>rc ps n w1. discover (replicate 64 peer_zero) 64 0 w = Some (rc, ps, n, w1) \<and>
           (rc = BC_OK \<longrightarrow> n \<le> length ps \<and> (\<forall>p\<in>set (take n ps). peer_wf p))),
      ensures = \<lambda>(d, w) (err, disc', w').
        (case (discover (replicate 64 peer_zero) 64 0 w, disc') of
           (Some (rc, ps, n, w1), Some d') \<Rightarrow>
             err = rc \<and>
             (if rc \<noteq> BC_OK then d' = d \<and> w' = w1
              else disc_wf d' \<and>
                map peer_pubkey (disc_known d') = map peer_pubkey (disc_known d) @
                  map peer_pubkey (newly (peer_keys (disc_known d)) (BC_MAX_PEERS - length (disc_known d)) (take n ps)) \<and>
                (\<exists>es. w_trace w' = w_trace w1 @ es \<and> filter is_found es =
                  map PeerFound (newly (peer_keys (disc_known d)) (BC_MAX_PEERS - length (disc_known d)) (take n ps))))
         | _ \<Rightarrow> False)\<rparr>"

text \<open>As many peers as are known and fit are copied and counted.\<close>

definition bc_discovery_get_peers_contract ::
  "('a bc_discovery \<times> bc_peer list \<times> nat, nat \<times> bc_peer list option) contract" where
  "bc_discovery_get_peers_contract =
     \<lparr>requires = \<lambda>(d, out, cap). disc_wf d \<and> length out = cap,
      ensures = \<lambda>(d, out, cap) (n, out').
        n = min (length (disc_known d)) cap \<and> out' = Some (take n (disc_known d) @ drop n out)\<rparr>"

definition bc_discovery_destroy_contract :: "('a bc_discovery option \<times> 'a world_scheme, 'a world_scheme) contract" where
  "bc_discovery_destroy_contract =
     \<lparr>requires = \<lambda>_. True,
      ensures = \<lambda>(disc, w) w'. w_live w' = w_live w - (case disc of None \<Rightarrow> 0 | Some _ \<Rightarrow> 1)\<rparr>"

text \<open>
  The simulator's transport, \<^verbatim>\<open>transport_udp_sim.h\<close>: bound to the given port and addressing the given
  peer ports, with every operation wired, or \<open>NULL\<close> with no socket left open.
\<close>

definition bc_transport_udp_create_contract ::
  "(u16 \<times> u16 list \<times> nat \<times> 'b udp_world,
     (udp_ctx \<times> 'b udp_state_scheme bc_transport) option \<times> 'b udp_world) contract" where
  "bc_transport_udp_create_contract =
     \<lparr>requires = \<lambda>(my_port, peer_ports, peer_count, w). peer_count \<le> length peer_ports,
      ensures = \<lambda>(my_port, peer_ports, peer_count, w) (res, w').
        (case res of
           None \<Rightarrow> w_live w' = w_live w \<and> u_sockets (ext w') = u_sockets (ext w)
         | Some (ctx, t) \<Rightarrow> uc_my_port ctx = my_port \<and> ports_of ctx = take peer_count peer_ports \<and>
             tr_init t \<noteq> None \<and> tr_send t \<noteq> None \<and> tr_recv t \<noteq> None \<and> tr_discover_peers t \<noteq> None \<and>
             (case tr_destroy t of
                None \<Rightarrow> False
              | Some destroy \<Rightarrow> w_live (c_free (destroy w')) = w_live w \<and>
                  u_sockets (ext (destroy w')) = u_sockets (ext w)))\<rparr>"

lemma udp_create_meets:
  "meets (\<lambda>(my_port, ports, n, w). bc_transport_udp_create fd my_port (Some ports) n w) bc_transport_udp_create_contract"
proof
  fix x :: "u16 \<times> u16 list \<times> nat \<times> 'b udp_world"
  assume req: "requires bc_transport_udp_create_contract x"
  obtain my_port ports n w where x: "x = (my_port, ports, n, w)" by (cases x)
  obtain res w' where c: "bc_transport_udp_create fd my_port (Some ports) n w = Some (res, w')"
    by (rule udp_create_total [of "Some ports" n fd my_port w])
      (use req in \<open>auto simp: x bc_transport_udp_create_contract_def\<close>)
  have p: "uc_my_port (udp_ctx_of f q ps) = q" for f q ps by (simp add: udp_ctx_of_def)
  from udp_create_spec [OF c] c
  show "\<exists>y. (\<lambda>(my_port, ports, n, w). bc_transport_udp_create fd my_port (Some ports) n w) x = Some y \<and>
      ensures bc_transport_udp_create_contract x y"
    by (auto simp: x bc_transport_udp_create_contract_def udp_transport_def p split: option.splits)
qed

lemma discovery_create_meets:
  "meets (\<lambda>(t, w). Some (bc_discovery_create t w)) bc_discovery_create_contract"
  by rule (auto simp: bc_discovery_create_contract_def bc_discovery_create_def c_malloc_def disc_wf_def
      disc_known_def peers_wf_def size_defs alloc_refused_def)

lemma on_peer_found_meets:
  "meets (\<lambda>(d, cb, u). Some (bc_discovery_on_peer_found (Some d) cb u)) bc_discovery_on_peer_found_contract"
  by rule (auto simp: bc_discovery_on_peer_found_contract_def bc_discovery_on_peer_found_def)

lemma scan_meets: "meets (\<lambda>(d, w). bc_discovery_scan (Some d) w) (bc_discovery_scan_contract h)"
proof
  fix x :: "'a bc_discovery \<times> 'a world_scheme"
  assume req: "requires (bc_discovery_scan_contract h) x"
  obtain d w where x: "x = (d, w)" by (cases x)
  obtain t rc ps n w1 where d: "disc_wf d" "found_cb_ok d" "d_transport d = Some t" "tr_discover_peers t = Some h"
      and h: "h (replicate 64 peer_zero) 64 0 w = Some (rc, ps, n, w1)"
        "rc = BC_OK \<longrightarrow> n \<le> length ps \<and> (\<forall>p\<in>set (take n ps). peer_wf p)"
    using req by (auto simp: x bc_discovery_scan_contract_def)
  show "\<exists>y. (\<lambda>(d, w). bc_discovery_scan (Some d) w) x = Some y \<and> ensures (bc_discovery_scan_contract h) x y"
  proof (cases "rc = BC_OK")
    case True
    then have n: "n \<le> length ps" "\<forall>p\<in>set (take n ps). peer_wf p" using h(2) by simp_all
    obtain d' w' es where "dt.adds (take n ps) d w1 = Some (d', w')" "disc_wf d'" "w_trace w' = w_trace w1 @ es"
      "filter is_found es = map PeerFound (newly (peer_keys (disc_known d)) (64 - length (disc_known d)) (take n ps))"
      "map peer_pubkey (disc_known d') = map peer_pubkey (disc_known d) @
        map peer_pubkey (newly (peer_keys (disc_known d)) (64 - length (disc_known d)) (take n ps))"
      using adds_reports [OF d(1) n(2) d(2), of w1] by blast
    with True h(1) scan_ok [OF d(3,4), of w ps n w1] n(1) show ?thesis
      by (simp add: x bc_discovery_scan_contract_def size_defs)
  next
    case False
    with d h(1) show ?thesis
      by (simp add: x bc_discovery_scan_contract_def bc_discovery_scan_def size_defs)
  qed
qed

lemma get_peers_meets:
  "meets (\<lambda>(d, out, cap). bc_discovery_get_peers (Some d) (Some out) cap) bc_discovery_get_peers_contract"
proof
  fix x :: "'a bc_discovery \<times> bc_peer list \<times> nat"
  assume req: "requires bc_discovery_get_peers_contract x"
  obtain d out cap where x: "x = (d, out, cap)" by (cases x)
  with req have d: "disc_wf d" "length out = cap" by (simp_all add: bc_discovery_get_peers_contract_def)
  show "\<exists>y. (\<lambda>(d, out, cap). bc_discovery_get_peers (Some d) (Some out) cap) x = Some y \<and>
      ensures bc_discovery_get_peers_contract x y"
  proof (cases "cap = 0")
    case True
    with d show ?thesis by (simp add: x bc_discovery_get_peers_contract_def bc_discovery_get_peers_def)
  next
    case False
    with d discovery_get_peers_prefix [OF d(1), of cap out] show ?thesis
      by (auto simp: x bc_discovery_get_peers_contract_def min_def)
  qed
qed

lemma discovery_destroy_meets:
  "meets (\<lambda>(d, w). Some (bc_discovery_destroy d w)) bc_discovery_destroy_contract"
  by rule (auto simp: bc_discovery_destroy_contract_def bc_discovery_destroy_def split: option.split)

section \<open>Property\<close>

text \<open>
  C28. The header of the peer discovery is met: a scan that the transport answers invokes the registered
  callback exactly once, in order, for every peer whose key was not known, as long as there is room,
  and these keys, and no others, are added to the known ones; when everything fits, all peers in range
  are known afterwards. An error of the transport is passed on. The other four functions create an
  empty manager, register the callback, copy out the known peers and free the manager. The simulator's
  transport is bound to its port and addresses the given ports, or leaves nothing open.
\<close>

theorem discovery_header_met:
  "meets (\<lambda>(t, w). Some (bc_discovery_create t w)) bc_discovery_create_contract \<and>
   meets (\<lambda>(d, cb, u). Some (bc_discovery_on_peer_found (Some d) cb u)) bc_discovery_on_peer_found_contract \<and>
   meets (\<lambda>(d, w). bc_discovery_scan (Some d) w) (bc_discovery_scan_contract h) \<and>
   meets (\<lambda>(d, out, cap). bc_discovery_get_peers (Some d) (Some out) cap) bc_discovery_get_peers_contract \<and>
   meets (\<lambda>(d, w). Some (bc_discovery_destroy d w)) bc_discovery_destroy_contract \<and>
   meets (\<lambda>(my_port, ports, n, w). bc_transport_udp_create fd my_port (Some ports) n w) bc_transport_udp_create_contract \<and>
   (\<forall>K room ps. finite K \<longrightarrow> card (K \<union> peer_keys ps) \<le> card K + room \<longrightarrow> peer_keys (newly K room ps) = peer_keys ps - K)"
  by (intro conjI discovery_create_meets on_peer_found_meets scan_meets get_peers_meets discovery_destroy_meets
      udp_create_meets)
    (simp add: newly_complete)

definition listening :: "'a bc_transport \<Rightarrow> 'a bc_discovery" where
  "listening t = (fresh_discovery t)\<lparr>d_on_found := Some (\<lambda>_ _ w. Some w)\<rparr>"

theorem discovery_header_met_witness:
  "\<exists>d' w' es. bc_discovery_scan (Some (listening (udp_transport (udp_ctx_of 3 9000 [9001])))) (with_ext (udp_idle True) 0)
      = Some (BC_OK, Some d', w') \<and> w_trace w' = es \<and> filter is_found es = [PeerFound (port_peer 9001)]"
proof -
  let ?t = "udp_transport (udp_ctx_of 3 9000 [9001]) :: udp_state bc_transport" and ?w = "with_ext (udp_idle True) 0"
  let ?h = "udp_discover_peers (udp_ctx_of 3 9000 [9001])"
  have h: "?h (replicate 64 peer_zero) 64 0 ?w = Some (BC_OK, port_peer 9001 # replicate 63 peer_zero, 1, ?w)"
    using udp_discover_ok [of "udp_ctx_of 3 9000 [9001]" ?w] by simp
  have d: "disc_wf (listening ?t)" "disc_known (listening ?t) = []" "d_transport (listening ?t) = Some ?t"
    by (simp_all add: listening_def fresh_discovery_def disc_wf_def disc_known_def peers_wf_def size_defs)
  have "found_cb_ok (listening ?t)" by (simp add: found_cb_ok_def listening_def)
  then have req: "requires (bc_discovery_scan_contract ?h) (listening ?t, ?w)"
    using d h by (auto simp: bc_discovery_scan_contract_def udp_transport_def)
  have "meets (\<lambda>(d, w). bc_discovery_scan (Some d) w) (bc_discovery_scan_contract ?h)"
    using discovery_header_met [where h = ?h] by blast
  from meetsD [OF this req] obtain y where "bc_discovery_scan (Some (listening ?t)) ?w = Some y"
      "ensures (bc_discovery_scan_contract ?h) (listening ?t, ?w) y" by auto
  with h d show ?thesis
    by (cases y) (auto simp: bc_discovery_scan_contract_def size_defs peer_keys_def split: option.splits)
qed

end
