(* ===== verification/Api_Router.thy ===== *)
theory Api_Router
  imports Contract Router_Props
begin

text \<open>
  The documented contracts of \<^verbatim>\<open>mesh_router.h\<close>, relative to an invariant \<open>J\<close> of the adapters behind
  the router's ports. Two sentences of the header do not hold of the code and are not part of the
  contracts: a broadcast does not set the hop count (it sends the message with the one it carries), and
  a packet that does not decode is answered with \<open>BC_ERR_INVALID\<close>, a code the header does not list.
\<close>

section \<open>The contracts\<close>

text \<open>
  A router over the given ports with the given or the default configuration, that knows no peer and
  has seen no message, or \<open>NULL\<close>. The ports stay the caller's.
\<close>

definition bc_router_create_contract ::
  "('a bc_transport option \<times> 'a bc_storage option \<times> bytes \<times> bc_router_config option \<times> 'a world_scheme,
     'a bc_router option \<times> 'a world_scheme) contract" where
  "bc_router_create_contract =
     \<lparr>requires = \<lambda>(transport, storage, local_pubkey, config, w).
        length local_pubkey = BC_PUBKEY_SIZE \<and> (\<forall>c. config = Some c \<longrightarrow> 0 < cfg_dedup_cap c),
      ensures = \<lambda>(transport, storage, local_pubkey, config, w) (router, w').
        (case router of
           None \<Rightarrow> w_live w' = w_live w
         | Some r \<Rightarrow> router_wf r \<and> r_transport r = transport \<and> r_storage r = storage \<and>
             r_local_pubkey r = local_pubkey \<and> known_peers r = [] \<and> dedup_set (r_dedup_table r) = {} \<and>
             r_config r = (case config of Some c \<Rightarrow> c
               | None \<Rightarrow> \<lparr>cfg_fanout = BC_DEFAULT_FANOUT, cfg_dedup_cap = BC_DEFAULT_DEDUP_CAP,
                          cfg_dedup_max_age = BC_DEFAULT_DEDUP_AGE\<rparr>) \<and>
             w_live w' = w_live w + 2)\<rparr>"

definition bc_router_set_on_message_contract ::
  "('a bc_router \<times> 'a on_message_fn option \<times> nat, 'a bc_router option) contract" where
  "bc_router_set_on_message_contract =
     \<lparr>requires = \<lambda>_. True,
      ensures = \<lambda>(router, callback, userdata) router'.
        router' = Some (router\<lparr>r_on_message := callback, r_on_message_userdata := userdata\<rparr>)\<rparr>"

text \<open>
  The message goes to up to \<open>fanout\<close> neighbours, and into the storage for later forwarding; the caller
  keeps the message.
\<close>

definition bc_router_broadcast_contract ::
  "('a \<Rightarrow> bool) \<Rightarrow> ('a bc_router \<times> bc_message \<times> 'a world_scheme,
     bc_err \<times> 'a bc_router option \<times> 'a world_scheme) contract" where
  "bc_router_broadcast_contract J =
     \<lparr>requires = \<lambda>(r, msg, w). router_ports J r \<and> router_wf r \<and> J (ext w) \<and> storable msg,
      ensures = \<lambda>(r, msg, w) (err, router', w').
        (case router' of
           None \<Rightarrow> False
         | Some r' \<Rightarrow> router_wf r' \<and> same_but_seen r r' \<and> seen r' (msg_uuid msg) \<and> J (ext w') \<and>
             w_live w' = w_live w \<and>
             (err = BC_OK \<longleftrightarrow> w_heap w (w_nalloc w) (93 + msg_payload_len msg)) \<and>
             (if err = BC_OK
              then \<exists>rcs st. gossiped r (wire msg) rcs \<and>
                w_trace w' = w_trace w @ sends (wire msg) (known_peers r) rcs @ st \<and>
                (if has_store r then \<exists>rc. st = [Stored msg rc] else st = [])
              else err = BC_ERR_NOMEM \<and> w_trace w' = w_trace w))\<rparr>"

text \<open>
  For the bytes of a serialised message: a duplicate and an expired message are answered as such and
  have no effect but the mark, everything else is delivered if it is for us and otherwise stored and
  sent on, with a hop less.
\<close>

definition bc_router_receive_contract ::
  "('a \<Rightarrow> bool) \<Rightarrow> ('a bc_router \<times> bytes \<times> nat \<times> 'a world_scheme,
     bc_err \<times> 'a bc_router option \<times> 'a world_scheme) contract" where
  "bc_router_receive_contract J =
     \<lparr>requires = \<lambda>(r, data, len, w). router_ports J r \<and> router_wf r \<and> J (ext w) \<and> heap_ok w \<and>
        len \<le> length data \<and> length data < 2 ^ 31 \<and>
        BC_MESSAGE_HEADER_SIZE \<le> len \<and> BC_MESSAGE_HEADER_SIZE + wire_plen data \<le> len,
      ensures = \<lambda>(r, data, len, w) (err, router', w').
        (case router' of
           None \<Rightarrow> False
         | Some r' \<Rightarrow> let m = decode data in
             router_wf r' \<and> same_but_seen r r' \<and> seen r' (msg_uuid m) \<and> J (ext w') \<and>
             (\<exists>es. w_trace w' = w_trace w @ es \<and> reaction r True m es) \<and>
             err = (if seen r (msg_uuid m) then BC_ERR_DUPLICATE
                    else if msg_ttl m = 0 then BC_ERR_TTL_EXPIRED else BC_OK))\<rparr>"

text \<open>
  Stale entries of the deduplication cache are evicted, then the transport is polled, then pending
  messages are retried; the peers stay known.
\<close>

definition bc_router_tick_contract ::
  "(nat \<Rightarrow> 'a \<Rightarrow> bool) \<Rightarrow> ('a bc_router \<times> 'a world_scheme, 'a bc_router option \<times> 'a world_scheme) contract" where
  "bc_router_tick_contract J =
     \<lparr>requires = \<lambda>(r, w). draining_ports J r \<and> router_wf r \<and> (\<exists>k. J k (ext w)),
      ensures = \<lambda>(r, w) (router', w').
        (case router' of
           None \<Rightarrow> False
         | Some r' \<Rightarrow> router_wf r' \<and> known_peers r' = known_peers r \<and> (\<exists>k. J k (ext w')) \<and>
             (\<exists>tab r1 w1 r2 w2. dedup_set tab = fresh_set (fst (c_time w)) (cfg_dedup_max_age (r_config r)) (r_dedup_table r) \<and>
                tick_poll (r\<lparr>r_dedup_table := tab\<rparr>) (snd (c_time w)) = Some (r1, w1) \<and>
                tick_store_forward r1 w1 = Some (r2, w2) \<and> r' = r2))\<rparr>"

text \<open>The peer is known afterwards unless the table is full; nothing else is forgotten.\<close>

definition bc_router_add_peer_contract ::
  "('a bc_router \<times> bc_peer \<times> 'a world_scheme, 'a bc_router option \<times> 'a world_scheme) contract" where
  "bc_router_add_peer_contract =
     \<lparr>requires = \<lambda>(r, p, w). router_wf r \<and> peer_wf p,
      ensures = \<lambda>(r, p, w) (router', w').
        (case router' of
           None \<Rightarrow> False
         | Some r' \<Rightarrow> router_wf r' \<and>
             (if peer_pubkey p \<in> peer_keys (known_peers r)
              then peer_map (known_peers r') =
                (peer_map (known_peers r))(peer_pubkey p \<mapsto> p\<lparr>peer_last_seen := fst (c_time w)\<rparr>)
              else if length (known_peers r) < BC_MAX_PEERS
              then peer_map (known_peers r') = (peer_map (known_peers r))(peer_pubkey p \<mapsto> p)
              else r' = r))\<rparr>"

definition bc_router_destroy_contract :: "('a bc_router option \<times> 'a world_scheme, 'a world_scheme) contract" where
  "bc_router_destroy_contract =
     \<lparr>requires = \<lambda>_. True,
      ensures = \<lambda>(router, w) w'. w_live w' = w_live w - (case router of None \<Rightarrow> 0 | Some _ \<Rightarrow> 2)\<rparr>"

section \<open>The functions meet them\<close>

lemma router_create_meets:
  "meets (\<lambda>(t, s, lk, cfg, w). bc_router_create t s (Some lk) cfg w) bc_router_create_contract"
proof
  fix x :: "'a bc_transport option \<times> 'a bc_storage option \<times> bytes \<times> bc_router_config option \<times> 'a world_scheme"
  assume req: "requires bc_router_create_contract x"
  obtain t s lk cfg w where x: "x = (t, s, lk, cfg, w)" by (cases x)
  have r: "length lk = 32" "\<And>c. cfg = Some c \<Longrightarrow> 0 < cfg_dedup_cap c"
    using req by (simp_all add: x bc_router_create_contract_def size_defs)
  obtain ro w' where c: "bc_router_create t s (Some lk) cfg w = Some (ro, w')"
      "w_live (bc_router_destroy ro w') = w_live w"
    using router_create_destroy [of lk cfg t s w, OF r] by blast
  show "\<exists>y. (\<lambda>(t, s, lk, cfg, w). bc_router_create t s (Some lk) cfg w) x = Some y \<and>
      ensures bc_router_create_contract x y"
  proof (cases ro)
    case None
    with c show ?thesis by (simp add: x bc_router_create_contract_def bc_router_destroy_def)
  next
    case (Some r1)
    have "dedup_set (r_dedup_table r1) = {}"
      using create_ok(10) [of lk cfg t s w r1 w', OF r] c Some by (simp add: dedup_set_def)
    moreover have "r_config r1 = (case cfg of Some c \<Rightarrow> c | None \<Rightarrow> \<lparr>cfg_fanout = BC_DEFAULT_FANOUT,
        cfg_dedup_cap = BC_DEFAULT_DEDUP_CAP, cfg_dedup_max_age = BC_DEFAULT_DEDUP_AGE\<rparr>)"
      using c(1) r(1) Some
      by (auto simp: bc_router_create_def mem_simps size_defs Let_def case_prod_beta split: if_splits)
    ultimately show ?thesis
      using c Some create_ok [of lk cfg t s w r1 w', OF r] by (simp add: x bc_router_create_contract_def bc_router_destroy_def)
  qed
qed

lemma set_on_message_meets:
  "meets (\<lambda>(r, cb, u). Some (bc_router_set_on_message (Some r) cb u)) bc_router_set_on_message_contract"
  by rule (auto simp: bc_router_set_on_message_contract_def bc_router_set_on_message_def)

lemma broadcast_meets:
  "meets (\<lambda>(r, m, w). bc_router_broadcast (Some r) (Some m) w) (bc_router_broadcast_contract J)"
proof
  fix x :: "'a bc_router \<times> bc_message \<times> 'a world_scheme"
  assume req: "requires (bc_router_broadcast_contract J) x"
  obtain r m w where x: "x = (r, m, w)" by (cases x)
  have q: "router_ports J r" "router_wf r" "J (ext w)" "storable m"
    using req by (simp_all add: x bc_router_broadcast_contract_def)
  obtain rc r' w' fw st where b: "bc_router_broadcast (Some r) (Some m) w = Some (rc, Some r', w')"
    "router_wf r'" "same_but_seen r r'" "seen r' (msg_uuid m)" "J (ext w')" "w_live w' = w_live w"
    "w_trace w' = w_trace w @ fw @ st"
    "if w_heap w (w_nalloc w) (93 + msg_payload_len m)
     then rc = BC_OK \<and> (\<exists>rcs. gossiped r (wire m) rcs \<and> fw = sends (wire m) (known_peers r) rcs) \<and>
        (if has_store r then \<exists>rc. st = [Stored m rc] else st = [])
     else rc = BC_ERR_NOMEM \<and> fw = [] \<and> st = []"
    using broadcast_ok [OF q] by blast
  show "\<exists>y. (\<lambda>(r, m, w). bc_router_broadcast (Some r) (Some m) w) x = Some y \<and>
      ensures (bc_router_broadcast_contract J) x y"
  proof (cases "w_heap w (w_nalloc w) (93 + msg_payload_len m)")
    case True
    with b(8) obtain rcs where "rc = BC_OK" "gossiped r (wire m) rcs" "fw = sends (wire m) (known_peers r) rcs"
        "if has_store r then \<exists>rc. st = [Stored m rc] else st = []" by auto
    with b(1-7) True show ?thesis
      by (simp add: x bc_router_broadcast_contract_def) (intro exI [of _ rcs] conjI, simp, intro exI [of _ st], simp)
  next
    case False
    with b show ?thesis by (simp add: x bc_router_broadcast_contract_def)
  qed
qed

lemma heap_decodes:
  assumes "heap_ok w" "93 \<le> n" "n \<le> length d" "93 + wire_plen d \<le> n" "length d < 2 ^ 31"
  obtains w1 where "bc_message_deserialize (Some d) n w = Some (Some (decode d), w1)"
  using assms by (cases "wire_plen d = 0") (auto simp: deserialize_eq c_malloc_def heap_ok_def)

lemma receive_meets:
  "meets (\<lambda>(r, d, n, w). bc_router_receive (Some r) (Some d) n w) (bc_router_receive_contract J)"
proof
  fix x :: "'a bc_router \<times> bytes \<times> nat \<times> 'a world_scheme"
  assume req: "requires (bc_router_receive_contract J) x"
  obtain r d n w where x: "x = (r, d, n, w)" by (cases x)
  have q: "router_ports J r" "router_wf r" "J (ext w)" and n: "n \<le> length d" "length d < 2 ^ 31"
    and h: "heap_ok w" "93 \<le> n" "93 + wire_plen d \<le> n"
    using req by (simp_all add: x bc_router_receive_contract_def)
  let ?m = "decode d"
  obtain w1 where d: "bc_message_deserialize (Some d) n w = Some (Some ?m, w1)"
    using heap_decodes [OF h(1,2) n(1) h(3) n(2)] .
  obtain rc r' w' es where p: "bc_router_receive (Some r) (Some d) n w = Some (rc, Some r', w')"
    "router_wf r'" "same_but_seen r r'" "seen r' (msg_uuid ?m)" "J (ext w')" "w_trace w' = w_trace w @ es"
    "reaction r (\<forall>k. w_heap w k (93 + msg_payload_len ?m)) ?m es"
    using receive_decoded [OF q d n] by blast
  have rc: "rc = (if seen r (msg_uuid ?m) then BC_ERR_DUPLICATE
      else if msg_ttl ?m = 0 then BC_ERR_TTL_EXPIRED else BC_OK)"
  proof (cases "seen r (msg_uuid ?m)")
    case True
    with p(1) receive_duplicate_inert [OF n(1) d True] show ?thesis by auto
  next
    case False
    with p(1) receive_expired_inert [OF q(2) n d False] receive_new [OF q d n False] show ?thesis
      by (cases "msg_ttl ?m = 0") auto
  qed
  have "reaction r True ?m es" using p(7) h(1) by (simp add: heap_ok_def)
  with p rc show "\<exists>y. (\<lambda>(r, d, n, w). bc_router_receive (Some r) (Some d) n w) x = Some y \<and>
      ensures (bc_router_receive_contract J) x y"
    by (simp add: x bc_router_receive_contract_def Let_def)
qed

lemma tick_phases:
  assumes "router_wf r" "bc_router_tick (Some r) w = Some (Some r', w')"
  shows "\<exists>tab r1 w1 w2. dedup_set tab = fresh_set (fst (c_time w)) (cfg_dedup_max_age (r_config r)) (r_dedup_table r) \<and>
    tick_poll (r\<lparr>r_dedup_table := tab\<rparr>) (snd (c_time w)) = Some (r1, w1) \<and> tick_store_forward r1 w1 = Some (r', w2)"
proof -
  have wf: "dedup_wf (r_dedup_table r) (r_dedup_cap r)" using assms(1) by (simp add: router_wf_def)
  obtain tab where t: "dedup_evict (r_dedup_table r) (r_dedup_cap r) (cfg_dedup_max_age (r_config r)) w
      = Some (tab, snd (c_time w))"
    using dedup_evict_spec [OF wf] by blast
  then have "dedup_set tab = fresh_set (fst (c_time w)) (cfg_dedup_max_age (r_config r)) (r_dedup_table r)"
    using evict_set [OF wf t] by (simp add: c_time_def)
  with assms(2) t show ?thesis
    by (auto simp: bc_router_tick_def bind_Some_iff split: option.splits)
qed

lemma tick_meets: "meets (\<lambda>(r, w). bc_router_tick (Some r) w) (bc_router_tick_contract J)"
proof
  fix x :: "'a bc_router \<times> 'a world_scheme"
  assume req: "requires (bc_router_tick_contract J) x"
  obtain r w where x: "x = (r, w)" by (cases x)
  obtain k where q: "draining_ports J r" "router_wf r" "J k (ext w)"
    using req by (auto simp: x bc_router_tick_contract_def)
  obtain r' w' k' where t: "bc_router_tick (Some r) w = Some (Some r', w')" "router_wf r'" "J k' (ext w')"
      "known_peers r' = known_peers r"
    using tick_total [OF q] by blast
  with tick_phases [OF q(2) t(1)]
  show "\<exists>y. (\<lambda>(r, w). bc_router_tick (Some r) w) x = Some y \<and> ensures (bc_router_tick_contract J) x y"
    by (auto simp: x bc_router_tick_contract_def)
qed

lemma add_peer_meets:
  "meets (\<lambda>(r, p, w). bc_router_add_peer (Some r) (Some p) w) bc_router_add_peer_contract"
proof
  fix x :: "'a bc_router \<times> bc_peer \<times> 'a world_scheme"
  assume req: "requires bc_router_add_peer_contract x"
  obtain r p w where x: "x = (r, p, w)" by (cases x)
  have q: "router_wf r" "peer_wf p" using req by (simp_all add: x bc_router_add_peer_contract_def)
  obtain r' w' where a: "bc_router_add_peer (Some r) (Some p) w = Some (Some r', w')" "router_wf r'"
    by (rule rt.add_total [OF q, of w]) (auto simp: router_add_def bind_Some_iff)
  have t: "touched p w = p\<lparr>peer_last_seen := fst (c_time w)\<rparr>" by (simp add: touched_def c_time_def)
  show "\<exists>y. (\<lambda>(r, p, w). bc_router_add_peer (Some r) (Some p) w) x = Some y \<and> ensures bc_router_add_peer_contract x y"
  proof (cases "peer_pubkey p \<in> peer_keys (known_peers r)")
    case True
    then obtain i where i: "i < length (known_peers r)" "peer_pubkey (known_peers r ! i) = peer_pubkey p"
      by (auto simp: peer_keys_def in_set_conv_nth)
    have "known_peers r' = (known_peers r)[i := touched p w]"
      using rt.add_old [OF q i, of w] a(1) by (auto simp: router_add_def)
    moreover have "distinct (map peer_pubkey (known_peers r))" using q(1) by (simp add: router_wf_def)
    ultimately show ?thesis
      using a True peer_map_update [of "known_peers r" i "touched p w"] i
      by (simp add: x bc_router_add_peer_contract_def t)
  next
    case False
    have c: "length (known_peers r) = r_peer_count r" using q(1) by (simp add: known_peers_def router_wf_def)
    have "r' = (if r_peer_count r < 64 then r\<lparr>r_peers := (r_peers r)[r_peer_count r := p],
        r_peer_count := Suc (r_peer_count r)\<rparr> else r)"
      using add_peer_new [OF q False, of w] a(1) by simp
    moreover have "known_peers r' = (if length (known_peers r) < 64 then known_peers r @ [p] else known_peers r)"
      using rt.add_new [OF q False, of w] a(1) by (auto simp: router_add_def)
    ultimately show ?thesis
      using a False peer_map_append [OF False]
      by (cases "r_peer_count r < 64") (simp_all add: x bc_router_add_peer_contract_def size_defs c)
  qed
qed

lemma router_destroy_meets: "meets (\<lambda>(r, w). Some (bc_router_destroy r w)) bc_router_destroy_contract"
  by rule (auto simp: bc_router_destroy_contract_def bc_router_destroy_def split: option.split)

section \<open>Hop counts of broadcasts\<close>

text \<open>
  The header says that a broadcast sets the message's hop count. It does not: every copy that goes out
  carries, at its documented offset, the hop count the caller's message has.
\<close>

lemma broadcast_keeps_ttl:
  assumes "router_ports J r" "router_wf r" "J (ext w)" "storable m"
    and "bc_router_broadcast (Some r) (Some m) w = Some (BC_OK, ro, w')"
  shows "\<exists>es. w_trace w' = w_trace w @ es \<and> (\<forall>pk d rc. Sent pk d rc \<in> set es \<longrightarrow> d ! 16 = msg_ttl m)"
proof -
  have "requires (bc_router_broadcast_contract J) (r, m, w)"
    using assms(1-4) by (simp add: bc_router_broadcast_contract_def)
  from meets_result [OF broadcast_meets this] assms(5)
  obtain rcs st where t: "w_trace w' = w_trace w @ sends (wire m) (known_peers r) rcs @ st"
      "if has_store r then \<exists>rc. st = [Stored m rc] else st = []"
    by (auto simp: bc_router_broadcast_contract_def split: option.splits)
  have "length (msg_uuid m) = 16" using assms(4) by (simp add: storable_def message_wf_def size_defs)
  then have "wire m ! 16 = msg_ttl m" by (simp add: wire_def nth_append)
  with t show ?thesis
    by (intro exI [of _ "sends (wire m) (known_peers r) rcs @ st"])
      (auto simp: sends_def split: if_splits dest!: set_zip_rightD set_zip_leftD)
qed

section \<open>Property\<close>



end
