(* ===== verification/Api_Ffi.thy ===== *)
theory Api_Ffi
  imports Contract Ffi_Total
begin

text \<open>
  The documented contracts of the public interface, \<^verbatim>\<open>bitchat_ffi.h\<close>. ``Must be called before any other
  function'' makes a running node, \<open>ffi_ok\<close>, the precondition of every call but \<open>bitchat_init\<close>. Every call
  leaves a node in order with the mutex as it was, and accounts for the heap: \<open>owned\<close> is what the
  interface holds. A return code is 0 or negative in every case.
\<close>

section \<open>The contracts\<close>

text \<open>What every call on a running node leaves behind.\<close>

definition ffi_kept ::
  "sodium \<Rightarrow> 'b inbox_state_scheme ffi \<Rightarrow> 'b ffi_world \<Rightarrow> 'b inbox_state_scheme ffi \<Rightarrow> 'b ffi_world \<Rightarrow> bool" where
  "ffi_kept S g w g' w' \<longleftrightarrow> ffi_ok S g' w' \<and> f_lock_depth g' = f_lock_depth g"

text \<open>
  The crypto subsystem is up and the database open, or an error is returned and nothing is left over.
  The router needs an identity and is created with it.
\<close>

definition bitchat_init_contract ::
  "sodium \<Rightarrow> (string \<times> 'b ffi_world, bc_err \<times> 'b inbox_state_scheme ffi \<times> 'b ffi_world) contract" where
  "bitchat_init_contract S =
     \<lparr>requires = \<lambda>(storage_path, w). ffi_inv (ext w) \<and> ring_items (g_inbox (ext w)) = [],
      ensures = \<lambda>(storage_path, w) (err, g', w'). f_lock_depth g' = 0 \<and>
        (if err = BC_OK
         then ffi_ok S g' w' \<and> bc_crypto_init S = BC_OK \<and> f_storage g' \<noteq> None \<and> w_live w' = w_live w + owned g' w'
         else err < BC_OK \<and> \<not> f_initialized g' \<and> w_live w' = w_live w)\<rparr>"

text \<open>
  Public key and secret key are written to the caller's buffers (the second may be \<open>NULL\<close>), and both are
  retained for encryption.
\<close>

definition bitchat_generate_identity_contract ::
  "sodium \<Rightarrow> (bytes \<times> bytes option \<times> 'b inbox_state_scheme ffi \<times> 'b ffi_world,
      bc_err \<times> bytes option \<times> bytes option \<times> 'b inbox_state_scheme ffi \<times> 'b ffi_world) contract" where
  "bitchat_generate_identity_contract S =
     \<lparr>requires = \<lambda>(pubkey_out, secret_out, g, w). sodium_ok S \<and> ffi_ok S g w \<and>
        length pubkey_out = 32 \<and> pred_option (\<lambda>d. length d = 32) secret_out,
      ensures = \<lambda>(pubkey_out, secret_out, g, w) (err, pk, sk, g', w').
        ffi_kept S g w g' w' \<and> w_live w' - owned g' w' = w_live w - owned g w \<and>
        (if err = BC_OK
         then pk = Some (id_pubkey (g_identity (ext w'))) \<and> f_router g' \<noteq> None \<and>
           sk = map_option (\<lambda>_. id_secret_key (g_identity (ext w'))) secret_out
         else err < BC_OK)\<rparr>"

text \<open>The identity is the one in the buffer: 32 bytes of public key and 32 of secret key.\<close>

definition bitchat_load_identity_contract ::
  "sodium \<Rightarrow> (bytes \<times> nat \<times> 'b inbox_state_scheme ffi \<times> 'b ffi_world,
      bc_err \<times> 'b inbox_state_scheme ffi \<times> 'b ffi_world) contract" where
  "bitchat_load_identity_contract S =
     \<lparr>requires = \<lambda>(identity_data, len, g, w). ffi_ok S g w \<and> len \<le> length identity_data,
      ensures = \<lambda>(identity_data, len, g, w) (err, g', w').
        ffi_kept S g w g' w' \<and> w_live w' - owned g' w' = w_live w - owned g w \<and>
        (if err = BC_OK
         then 64 \<le> len \<and> f_router g' \<noteq> None \<and> identity_wf (g_identity (ext w')) \<and>
           id_pubkey (g_identity (ext w')) @ id_secret_key (g_identity (ext w')) = take 64 identity_data
         else err < BC_OK)\<rparr>"

text \<open>
  The plaintext is encrypted for the recipient and the message broadcast into the mesh: given memory
  and a working key, always; and whenever 0 is returned.
\<close>

definition bitchat_send_message_contract ::
  "sodium \<Rightarrow> (bytes \<times> bytes \<times> nat \<times> 'b inbox_state_scheme ffi \<times> 'b ffi_world,
      bc_err \<times> 'b inbox_state_scheme ffi \<times> 'b ffi_world) contract" where
  "bitchat_send_message_contract S =
     \<lparr>requires = \<lambda>(recipient, plaintext, len, g, w). sodium_ok S \<and> ffi_ok S g w \<and> f_router g \<noteq> None \<and>
        length recipient = 32 \<and> len = length plaintext \<and> len < 2 ^ 30,
      ensures = \<lambda>(recipient, plaintext, len, g, w) (err, g', w').
        ffi_kept S g w g' w' \<and> w_live w' = w_live w \<and>
        (heap_ok w \<and> can_seal S (g_identity (ext w)) recipient plaintext \<longrightarrow> err = BC_OK) \<and>
        (if err = BC_OK
         then \<exists>m rcs rc. sealed_for S (g_identity (ext w)) recipient plaintext m \<and>
           gossiped (the (f_router g)) (wire m) rcs \<and>
           w_trace w' = w_trace w @ sends (wire m) (known_peers (the (f_router g))) rcs @ [Stored m rc]
         else err < BC_OK \<and> w_trace w' = w_trace w)\<rparr>"

text \<open>
  Without a message the length is 0. A message that opens and fits is written to the buffer with its
  length and sender and leaves the inbox.
\<close>

definition bitchat_poll_messages_contract ::
  "sodium \<Rightarrow> (bytes \<times> nat \<times> nat \<times> bytes option \<times> 'b inbox_state_scheme ffi \<times> 'b ffi_world,
      bc_err \<times> bytes option \<times> nat option \<times> bytes option \<times> 'b inbox_state_scheme ffi \<times> 'b ffi_world) contract" where
  "bitchat_poll_messages_contract S =
     \<lparr>requires = \<lambda>(buf, buf_len, msg_len, sender_out, g, w). sodium_ok S \<and> ffi_ok S g w \<and>
        buf_len \<le> length buf \<and> pred_option (\<lambda>d. length d = 32) sender_out \<and>
        (\<forall>m\<in>set (take 1 (ring_items (g_inbox (ext w)))).
           \<exists>pt. open_message S (id_secret_key (g_identity (ext w))) m = Some pt \<and> length pt \<le> buf_len),
      ensures = \<lambda>(buf, buf_len, msg_len, sender_out, g, w) (err, buf', msg_len', sender', g', w').
        ffi_kept S g w g' w' \<and> err = BC_OK \<and>
        (case ring_items (g_inbox (ext w)) of
           [] \<Rightarrow> msg_len' = Some 0 \<and> ring_items (g_inbox (ext w')) = []
         | m # ms \<Rightarrow>
             ring_items (g_inbox (ext w')) = ms \<and> w_live w' = w_live w - msg_blocks m \<and>
             sender' = map_option (\<lambda>_. msg_sender_pubkey m) sender_out \<and>
             (\<exists>pt. open_message S (id_secret_key (g_identity (ext w))) m = Some pt \<and>
                msg_len' = Some (length pt) \<and> buf' = Some (pt @ drop (length pt) buf)))\<rparr>"

text \<open>A scan returns 0 or an error.\<close>

definition bitchat_start_discovery_contract ::
  "sodium \<Rightarrow> ('b inbox_state_scheme ffi \<times> 'b ffi_world, bc_err \<times> 'b inbox_state_scheme ffi \<times> 'b ffi_world) contract" where
  "bitchat_start_discovery_contract S =
     \<lparr>requires = \<lambda>(g, w). ffi_ok S g w,
      ensures = \<lambda>(g, w) (err, g', w'). ffi_kept S g w g' w' \<and> err \<le> BC_OK\<rparr>"

text \<open>One maintenance cycle, which returns.\<close>

definition bitchat_tick_contract ::
  "sodium \<Rightarrow> ('b inbox_state_scheme ffi \<times> 'b ffi_world, 'b inbox_state_scheme ffi \<times> 'b ffi_world) contract" where
  "bitchat_tick_contract S =
     \<lparr>requires = \<lambda>(g, w). sodium_ok S \<and> ffi_ok S g w,
      ensures = \<lambda>(g, w) (g', w'). ffi_kept S g w g' w' \<and> (\<exists>es. w_trace w' = w_trace w @ es)\<rparr>"

text \<open>The database is closed, all memory freed and the secret key wiped.\<close>

definition bitchat_shutdown_contract ::
  "sodium \<Rightarrow> ('b inbox_state_scheme ffi \<times> 'b ffi_world, 'b inbox_state_scheme ffi \<times> 'b ffi_world) contract" where
  "bitchat_shutdown_contract S =
     \<lparr>requires = \<lambda>(g, w). ffi_ok S g w,
      ensures = \<lambda>(g, w) (g', w'). w_live w' = w_live w - owned g w \<and> owned g' w' = 0 \<and>
        q_handles (ext w') = q_handles (ext w) - 6 \<and>
        id_secret_key (g_identity (ext w')) = replicate 32 0 \<and> g_user_callback (ext w') = None \<and>
        g' = ffi_zero\<lparr>f_lock_depth := f_lock_depth g\<rparr>\<rparr>"

text \<open>The callback is registered, or unregistered by \<open>NULL\<close>.\<close>

definition bitchat_set_on_message_callback_contract ::
  "sodium \<Rightarrow> (nat option \<times> 'b inbox_state_scheme ffi \<times> 'b ffi_world,
      bc_err \<times> 'b inbox_state_scheme ffi \<times> 'b ffi_world) contract" where
  "bitchat_set_on_message_callback_contract S =
     \<lparr>requires = \<lambda>(callback, g, w). ffi_ok S g w,
      ensures = \<lambda>(callback, g, w) (err, g', w').
        ffi_kept S g w g' w' \<and> err = BC_OK \<and> g_user_callback (ext w') = callback\<rparr>"

section \<open>The functions meet them\<close>

lemma err_cases: "rc = BC_OK \<or> rc < BC_OK"
  using err_le_OK [of rc] by auto

lemma init_meets: "meets (\<lambda>(path, w). bitchat_init S mutex_rc (Some path) ffi_zero w) (bitchat_init_contract S)"
proof
  fix x :: "string \<times> 'b ffi_world"
  assume req: "requires (bitchat_init_contract S) x"
  obtain path w where x: "x = (path, w)" by (cases x)
  have q: "ffi_inv (ext w)" "ring_items (g_inbox (ext w)) = []" using req by (simp_all add: x bitchat_init_contract_def)
  obtain rc g' w' where i: "bitchat_init S mutex_rc (Some path) ffi_zero w = Some (rc, g', w')" "f_lock_depth g' = 0"
      "if rc = BC_OK then ffi_ok S g' w' \<and> w_live w' = w_live w + owned g' w'
       else \<not> f_initialized g' \<and> w_live w' = w_live w"
    using init_spec [OF q, of S mutex_rc "Some path"] by (auto split: if_splits)
  have "bc_crypto_init S = BC_OK" if "rc = BC_OK"
    using i(1) that
    by (cases "bc_crypto_init S = BC_OK")
      (auto simp: bitchat_init_def ensure_mutex_def ffi_zero_def ffi_lock_def Let_def split: if_splits)
  with i err_cases [of rc]
  show "\<exists>y. (\<lambda>(path, w). bitchat_init S mutex_rc (Some path) ffi_zero w) x = Some y \<and>
      ensures (bitchat_init_contract S) x y"
    by (auto simp: x bitchat_init_contract_def ffi_ok_def)
qed

lemma generate_identity_meets:
  "meets (\<lambda>(po, so, g, w). bitchat_generate_identity S (Some po) so g w) (bitchat_generate_identity_contract S)"
proof
  fix x :: "bytes \<times> bytes option \<times> 'b inbox_state_scheme ffi \<times> 'b ffi_world"
  assume req: "requires (bitchat_generate_identity_contract S) x"
  obtain po so g w where x: "x = (po, so, g, w)" by (cases x)
  have q: "sodium_ok S" "ffi_ok S g w" "pred_option (\<lambda>d. length d = 32) (Some po)" "pred_option (\<lambda>d. length d = 32) so"
    using req by (simp_all add: x bitchat_generate_identity_contract_def)
  from generate_ok [OF q] obtain rc po' so' g' w' where
    "bitchat_generate_identity S (Some po) so g w = Some (rc, po', so', g', w')" "ffi_ok S g' w'"
    "w_live w' - owned g' w' = w_live w - owned g w" "f_lock_depth g' = f_lock_depth g"
    "rc = BC_OK \<longrightarrow> po' = map_option (\<lambda>_. id_pubkey (g_identity (ext w'))) (Some po) \<and>
       so' = map_option (\<lambda>_. id_secret_key (g_identity (ext w'))) so \<and> f_router g' \<noteq> None" by blast
  with err_cases [of rc]
  show "\<exists>y. (\<lambda>(po, so, g, w). bitchat_generate_identity S (Some po) so g w) x = Some y \<and>
      ensures (bitchat_generate_identity_contract S) x y"
    by (auto simp: x bitchat_generate_identity_contract_def ffi_kept_def)
qed

lemma load_identity_meets:
  "meets (\<lambda>(d, n, g, w). bitchat_load_identity S (Some d) n g w) (bitchat_load_identity_contract S)"
proof
  fix x :: "bytes \<times> nat \<times> 'b inbox_state_scheme ffi \<times> 'b ffi_world"
  assume req: "requires (bitchat_load_identity_contract S) x"
  obtain d n g w where x: "x = (d, n, g, w)" by (cases x)
  have q: "ffi_ok S g w" "n \<le> length d" using req by (simp_all add: x bitchat_load_identity_contract_def)
  have t: "take 32 d @ take 32 (drop 32 d) = take 64 d" using take_add [of 32 32 d] by simp
  from load_ok [OF q] obtain rc g' w' where l: "bitchat_load_identity S (Some d) n g w = Some (rc, g', w')"
    "ffi_ok S g' w'" "w_live w' - owned g' w' = w_live w - owned g w" "f_lock_depth g' = f_lock_depth g"
    "rc = BC_OK \<longrightarrow> 64 \<le> n \<and> f_router g' \<noteq> None \<and>
       g_identity (ext w') = \<lparr>id_pubkey = take 32 d, id_secret_key = take 32 (drop 32 d)\<rparr>" by blast
  have "identity_wf (g_identity (ext w'))" using l(2) by (simp add: ffi_ok_def ffi_inv_def inbox_wf_def)
  with l t err_cases [of rc]
  show "\<exists>y. (\<lambda>(d, n, g, w). bitchat_load_identity S (Some d) n g w) x = Some y \<and>
      ensures (bitchat_load_identity_contract S) x y"
    by (auto simp: x bitchat_load_identity_contract_def ffi_kept_def)
qed

lemma send_meets:
  "meets (\<lambda>(rcpt, pt, n, g, w). bitchat_send_message S (Some rcpt) (Some pt) n g w) (bitchat_send_message_contract S)"
proof
  fix x :: "bytes \<times> bytes \<times> nat \<times> 'b inbox_state_scheme ffi \<times> 'b ffi_world"
  assume req: "requires (bitchat_send_message_contract S) x"
  obtain rcpt pt n g w where x: "x = (rcpt, pt, n, g, w)" by (cases x)
  obtain r where q: "sodium_ok S" "ffi_ok S g w" "f_router g = Some r" "length rcpt = 32" "length pt < 2 ^ 30" "n = length pt"
    using req by (auto simp: x bitchat_send_message_contract_def)
  from send_spec [OF q(1-5)] obtain rc g' w' where s: "bitchat_send_message S (Some rcpt) (Some pt) (length pt) g w = Some (rc, g', w')"
    "ffi_ok S g' w'" "f_lock_depth g' = f_lock_depth g" "w_live w' = w_live w"
    "(\<forall>k s. w_heap w k s) \<and> can_seal S (g_identity (ext w)) rcpt pt \<longrightarrow> rc = BC_OK"
    "if rc = BC_OK
     then \<exists>m rcs rc2 r'. sealed_for S (g_identity (ext w)) rcpt pt m \<and> gossiped r (wire m) rcs \<and>
        w_trace w' = w_trace w @ sends (wire m) (known_peers r) rcs @ [Stored m rc2] \<and>
        f_router g' = Some r' \<and> seen r' (msg_uuid m)
     else rc \<in> {BC_ERR_CRYPTO, BC_ERR_NOMEM} \<and> w_trace w' = w_trace w"
    by blast
  show "\<exists>y. (\<lambda>(rcpt, pt, n, g, w). bitchat_send_message S (Some rcpt) (Some pt) n g w) x = Some y \<and>
      ensures (bitchat_send_message_contract S) x y"
  proof (cases "rc = BC_OK")
    case True
    with s q show ?thesis by (auto simp: x bitchat_send_message_contract_def ffi_kept_def)
  next
    case False
    with s q err_cases [of rc] show ?thesis
      by (auto simp: x bitchat_send_message_contract_def ffi_kept_def heap_ok_def)
  qed
qed

lemma poll_empty:
  assumes "ffi_ok S g w" "ring_items (g_inbox (ext w)) = []"
  shows "bitchat_poll_messages S (Some buf) n (Some k) so g w =
    Some (BC_OK, Some buf, Some 0, so, ffi_unlock (g\<lparr>f_lock_depth := f_lock_depth g + 1\<rparr>), w)"
proof -
  have "ring_wf (g_inbox (ext w))" using assms(1) by (simp add: ffi_ok_def ffi_inv_def inbox_wf_def)
  then have "ring_empty (g_inbox (ext w))" using rq.empty_iff assms(2) by blast
  then show ?thesis using ffi_relock(1,2) [OF assms(1)] by (simp add: bitchat_poll_messages_def)
qed

lemma poll_meets:
  "meets (\<lambda>(buf, n, k, so, g, w). bitchat_poll_messages S (Some buf) n (Some k) so g w) (bitchat_poll_messages_contract S)"
proof
  fix x :: "bytes \<times> nat \<times> nat \<times> bytes option \<times> 'b inbox_state_scheme ffi \<times> 'b ffi_world"
  assume req: "requires (bitchat_poll_messages_contract S) x"
  obtain buf n k so g w where x: "x = (buf, n, k, so, g, w)" by (cases x)
  have q: "sodium_ok S" "ffi_ok S g w" "n \<le> length buf" "pred_option (\<lambda>d. length d = 32) so"
    using req by (simp_all add: x bitchat_poll_messages_contract_def)
  let ?g = "ffi_unlock (g\<lparr>f_lock_depth := f_lock_depth g + 1\<rparr>)"
  have d: "f_lock_depth ?g = f_lock_depth g" by (rule ffi_relock(4) [OF q(2)])
  show "\<exists>y. (\<lambda>(buf, n, k, so, g, w). bitchat_poll_messages S (Some buf) n (Some k) so g w) x = Some y \<and>
      ensures (bitchat_poll_messages_contract S) x y"
  proof (cases "ring_items (g_inbox (ext w))")
    case Nil
    with poll_empty [OF q(2) Nil] ffi_relock(3) [OF q(2) refl] d show ?thesis
      by (simp add: x bitchat_poll_messages_contract_def ffi_kept_def)
  next
    case (Cons m ms)
    then obtain pt where pt: "open_message S (id_secret_key (g_identity (ext w))) m = Some pt" "length pt \<le> n"
      using req by (auto simp: x bitchat_poll_messages_contract_def)
    obtain p where p: "msg_payload m = Some p" "40 \<le> length p"
        "sd_box_beforenm S (msg_sender_pubkey m) (id_secret_key (g_identity (ext w))) \<noteq> None"
      using open_payload [OF pt(1)] .
    have l: "length pt = length p - 40" by (rule poll_length [OF q(1,2) Cons p(1) pt(1)])
    obtain q' where q': "ring_wf q'" "ring_items q' = ms" and
      poll: "bitchat_poll_messages S (Some buf) n (Some k) so g w = Some (BC_OK, Some (pt @ drop (length pt) buf),
        Some (length pt), map_option (\<lambda>_. msg_sender_pubkey m) so, ?g,
        bc_message_destroy (Some m) (on_ext (g_inbox_update (\<lambda>_. q')) w))"
      by (rule poll_eq [OF q(1,2) Cons p(1,2) q(3,4)]) (use p(3) l pt in simp)
    from poll_inv [OF q(2) Cons q'] poll q'(2) pt(1) Cons d show ?thesis
      by (simp add: x bitchat_poll_messages_contract_def ffi_kept_def)
  qed
qed

lemma start_discovery_meets:
  "meets (\<lambda>(g, w). bitchat_start_discovery g w) (bitchat_start_discovery_contract S)"
proof
  fix x :: "'b inbox_state_scheme ffi \<times> 'b ffi_world"
  assume req: "requires (bitchat_start_discovery_contract S) x"
  then show "\<exists>y. (\<lambda>(g, w). bitchat_start_discovery g w) x = Some y \<and> ensures (bitchat_start_discovery_contract S) x y"
    using start_discovery_total [of S "fst x" "snd x"]
    by (auto simp: bitchat_start_discovery_contract_def ffi_kept_def case_prod_beta err_le_OK)
qed

lemma tick_meets_ffi: "meets (\<lambda>(g, w). bitchat_tick g w) (bitchat_tick_contract S)"
proof
  fix x :: "'b inbox_state_scheme ffi \<times> 'b ffi_world"
  assume req: "requires (bitchat_tick_contract S) x"
  then show "\<exists>y. (\<lambda>(g, w). bitchat_tick g w) x = Some y \<and> ensures (bitchat_tick_contract S) x y"
    using tick_ok [of S "fst x" "snd x"]
    by (auto simp: bitchat_tick_contract_def ffi_kept_def case_prod_beta grows_def)
qed

lemma shutdown_meets: "meets (\<lambda>(g, w). bitchat_shutdown g w) (bitchat_shutdown_contract S)"
proof
  fix x :: "'b inbox_state_scheme ffi \<times> 'b ffi_world"
  assume req: "requires (bitchat_shutdown_contract S) x"
  then show "\<exists>y. (\<lambda>(g, w). bitchat_shutdown g w) x = Some y \<and> ensures (bitchat_shutdown_contract S) x y"
    using shutdown_spec [of S "fst x" "snd x"]
    by (auto simp: bitchat_shutdown_contract_def case_prod_beta owned_def opt_blocks_def ffi_zero_def)
qed

lemma set_callback_meets:
  "meets (\<lambda>(cb, g, w). bitchat_set_on_message_callback cb g w) (bitchat_set_on_message_callback_contract S)"
proof
  fix x :: "nat option \<times> 'b inbox_state_scheme ffi \<times> 'b ffi_world"
  assume req: "requires (bitchat_set_on_message_callback_contract S) x"
  then show "\<exists>y. (\<lambda>(cb, g, w). bitchat_set_on_message_callback cb g w) x = Some y \<and>
      ensures (bitchat_set_on_message_callback_contract S) x y"
    using set_callback_total [of S "fst (snd x)" "snd (snd x)" "fst x"]
    by (auto simp: bitchat_set_on_message_callback_contract_def ffi_kept_def case_prod_beta)
qed

section \<open>A client of the header\<close>

text \<open>
  From the contracts alone: a session of the interface, from initialisation over setting an identity to
  shutdown, gives back all memory and leaves no secret key, whether or not the identity was accepted.
\<close>

locale ffi_api =
  fixes S :: sodium
    and init :: "string \<times> 'b ffi_world \<Rightarrow> (bc_err \<times> 'b inbox_state_scheme ffi \<times> 'b ffi_world) option"
    and load :: "bytes \<times> nat \<times> 'b inbox_state_scheme ffi \<times> 'b ffi_world \<Rightarrow>
      (bc_err \<times> 'b inbox_state_scheme ffi \<times> 'b ffi_world) option"
    and shutdown :: "'b inbox_state_scheme ffi \<times> 'b ffi_world \<Rightarrow> ('b inbox_state_scheme ffi \<times> 'b ffi_world) option"
  assumes init_law: "meets init (bitchat_init_contract S)"
    and load_law: "meets load (bitchat_load_identity_contract S)"
    and shutdown_law: "meets shutdown (bitchat_shutdown_contract S)"
begin

lemma session_balanced:
  assumes inv: "ffi_inv (ext w)" "ring_items (g_inbox (ext w)) = []"
    and up: "init (path, w) = Some (BC_OK, g1, w1)" and n: "n \<le> length d"
  obtains err g2 w2 g3 w3 where "load (d, n, g1, w1) = Some (err, g2, w2)" "shutdown (g2, w2) = Some (g3, w3)"
    "w_live w3 = w_live w" "id_secret_key (g_identity (ext w3)) = replicate 32 0"
proof -
  have "requires (bitchat_init_contract S) (path, w)" using inv by (simp add: bitchat_init_contract_def)
  from meets_result [OF init_law this up] have 1: "ffi_ok S g1 w1" "w_live w1 = w_live w + owned g1 w1"
    by (simp_all add: bitchat_init_contract_def)
  have "requires (bitchat_load_identity_contract S) (d, n, g1, w1)"
    using 1 n by (simp add: bitchat_load_identity_contract_def)
  then obtain err g2 w2 where 2: "load (d, n, g1, w1) = Some (err, g2, w2)"
      "ensures (bitchat_load_identity_contract S) (d, n, g1, w1) (err, g2, w2)"
    using meetsD [OF load_law] by (metis prod_cases3)
  then have ok: "ffi_ok S g2 w2" "w_live w2 - owned g2 w2 = w_live w"
    using 1(2) by (simp_all add: bitchat_load_identity_contract_def ffi_kept_def)
  then have "requires (bitchat_shutdown_contract S) (g2, w2)" by (simp add: bitchat_shutdown_contract_def)
  then obtain g3 w3 where "shutdown (g2, w2) = Some (g3, w3)"
      "ensures (bitchat_shutdown_contract S) (g2, w2) (g3, w3)"
    using meetsD [OF shutdown_law] by (metis surj_pair)
  with 2(1) ok(2) show thesis by (intro that [of err g2 w2 g3 w3]) (simp_all add: bitchat_shutdown_contract_def)
qed

end

interpretation bitchat: ffi_api S
  "\<lambda>(path, w). bitchat_init S mutex_rc (Some path) ffi_zero w"
  "\<lambda>(d, n, g, w). bitchat_load_identity S (Some d) n g w"
  "\<lambda>(g, w). bitchat_shutdown g w"
  for S :: sodium and mutex_rc :: int
  by unfold_locales (rule init_meets load_identity_meets shutdown_meets)+

section \<open>Property\<close>



end
