(* ===== verification/Spec2Isabelle.thy ===== *)
theory Spec2Isabelle
  imports Mesh_Chat Cli_Poll Jni_Correct Ffi_Threads Api_Domain Api_Crypto Api_Store Api_Discovery Api_Router Api_Ffi
begin

text \<open>
  \<^bold>\<open>BitChat: a verification library for the C core.\<close>

  \<^bold>\<open>The program.\<close> BitChat is an off-grid messenger. A node has an X25519 key pair; a message is sealed for the
  receiver's key, wrapped in a packet with a unique identifier and a hop count, and gossiped through
  a mesh of neighbours. The C core is layered: entities (\<^verbatim>\<open>src/domain\<close>), use cases (\<^verbatim>\<open>src/usecase\<close>: crypto,
  deduplication and gossip router, message store, discovery), ports (\<^verbatim>\<open>include/bitchat/port\<close>: tables of
  function pointers), adapters (\<^verbatim>\<open>src/infra\<close>: SQLite storage, UDP simulator, Bluetooth and Wi-Fi stubs), and
  front ends: the C interface \<^verbatim>\<open>src/bridge/bitchat_ffi.c\<close>, the Android bridge \<^verbatim>\<open>src/bridge/bitchat_jni.c\<close> on top
  of it, and the command-line simulator \<^verbatim>\<open>src/cli/main.c\<close>. Each of these files is modelled function by
  function; the names of the definitions are those of the code.

  \<^bold>\<open>How code becomes definitions.\<close> A C function is a function on explicit state. Its outer \<open>option\<close> is the
  fault: \<open>None\<close> means that the C code reads or writes outside an object, dereferences a null pointer,
  divides by zero or locks a mutex that does not exist (or, in the bridge, never returns), so that
  \<open>f x = Some y\<close> says that the call is safe and returns. Error codes are values of \<open>bc_err\<close>. Pointers that may be null are
  \<open>option\<close> values, buffers are lists of bytes with bounds-checked access (\<open>mem_get\<close>, \<open>mem_set\<close>, \<open>memcpy\<close> in
  \<open>Prelude\<close>), machine integers are words. What the program asks its environment for (clock, heap,
  random bytes, SQLite, sockets, the Java virtual machine, files) is answered by arbitrary functions
  of a call counter in the state, so every theorem holds for every sequence of answers. The record
  \<open>world\<close> carries these oracles together with two ghost fields: the number of live heap blocks and the trace of calls
  that leave the core (sends, stores, deliveries); adapters and front ends extend it with their
  own state. libsodium is a parameter \<open>S\<close>, a record of functions, whose documented laws are \<open>sodium_ok S\<close>: sizes,
  decryption inverts encryption, key agreement is symmetric; \<open>toy_sodium\<close> is an instance.

  \<^bold>\<open>Theories.\<close>
  \<^item> \<open>Prelude\<close>, \<open>Entities\<close>, \<open>World\<close>: error codes, bounds-checked memory, generic lemmas, records of the
    entities, environment.
  \<^item> \<open>Message\<close>, \<open>Peer\<close>, \<open>Identity\<close>: \<^verbatim>\<open>src/domain\<close>. The codec round-trips, decodes only what is in the buffer, and
    faults exactly when its 32-bit length check overflows.
  \<^item> \<open>Sodium\<close>, \<open>Crypto\<close>, \<open>Sealing\<close>: the library's laws, \<^verbatim>\<open>crypto_manager.c\<close>, and sealed messages as both front ends
    build and open them.
  \<^item> \<open>Dedup\<close>: the open-addressing table of \<^verbatim>\<open>mesh_router.c\<close>. It refines a set between two evictions (locale
    \<open>exact_cache\<close>, an extension of \<open>seen_cache\<close>), keeps fresh identifiers while a slot is free, and, as the code stands, can lose them by
    an eviction.
  \<^item> \<open>Ports\<close>: the contracts \<open>transport_port\<close>, \<open>draining_transport\<close>, \<open>storage_port\<close> as locales over the function tables.
  \<^item> \<open>Router\<close>, \<open>Router_Correct\<close>, \<open>Router_Props\<close>: \<^verbatim>\<open>mesh_router.c\<close>. Proved once for all adapters that keep the
    contracts (locales \<open>router_ports\<close>, \<open>draining_ports\<close>, \<open>callback_port\<close>): a packet is delivered, relayed or
    dropped according to receiver, identifier and hop count, forwarding respects the fanout,
    store-and-forward sends what is pending at a limited rate, and a tick returns.
  \<^item> \<open>Store\<close>, \<open>Discovery\<close>: \<^verbatim>\<open>message_store.c\<close>, \<^verbatim>\<open>node_discovery.c\<close>; the peer tables refine bounded maps
    (locale \<open>peer_table\<close>, interpreted for the router and for discovery).
  \<^item> \<open>Sqlite\<close>, \<open>Transport_Stubs\<close>, \<open>Transport_Udp\<close>: \<^verbatim>\<open>src/infra\<close>. Each adapter is shown to keep its port's contract by
    an interpretation; the database refines a map from identifiers to rows.
  \<^item> \<open>Inbox\<close>, \<open>Ffi\<close>, \<open>Ffi_Correct\<close>, \<open>Ffi_Total\<close>: \<^verbatim>\<open>bitchat_ffi.c\<close>. The ring buffer is a bounded queue (locale
    \<open>bounded_queue\<close>), messages go end to end, every call keeps the invariant \<open>ffi_ok\<close>, and shutdown frees exactly what the interface owns.
  \<^item> \<open>Ffi_Threads\<close>: calls of the interface from any number of threads, a step relation \<open>pool_step\<close> over the mutex. On a
    running node every interleaving has the effect and the results of the completed calls in a row, and all calls
    can be completed; the first initialisation and the shutdown are outside this protection.
  \<^item> \<open>Jni\<close>, \<open>Jni_Correct\<close>: \<^verbatim>\<open>bitchat_jni.c\<close>. Every sequence of calls keeps the listener, the references and the
    lock in order; the listener gets each message at most once and unchanged.
  \<^item> \<open>Cli\<close>, \<open>Cli_Correct\<close>, \<open>Cli_Run\<close>, \<open>Cli_Poll\<close>, \<open>Cli_Chat\<close>: \<^verbatim>\<open>main.c\<close>. The program is a step relation \<open>cli_step\<close> of input loop, tick thread
    and signals; its invariant holds in every reachable state, it exits once it is told to,
    start-up and shutdown are balanced, the tick handles the queued datagrams in order, and what one
    user types the other node prints.
  \<^item> \<open>Mesh\<close>, \<open>Mesh_Chat\<close>: many nodes, each running the router with its own adapters, under the step relations \<open>hop\<close> and
    \<open>fade\<close> of packets in the air. Gossip dies out (a multiset of hop counts decreases), every node
    reacts to a message at most once, and without losses a broadcast reaches every connected node;
    the last section of this theory carries that from console to console for simulator nodes.

  \<^item> \<open>Contract\<close>, \<open>Api_Domain\<close>, \<open>Api_Crypto\<close>, \<open>Api_Store\<close>, \<open>Api_Discovery\<close>, \<open>Api_Router\<close>, \<open>Api_Ffi\<close>: the public headers
    under \<^verbatim>\<open>include/bitchat\<close> as specifications. The comment above each prototype is a contract (what it requires and
    ensures, ownership of memory included); \<open>meets\<close> is total correctness, and every function is shown to meet its
    contract. Small clients (locales \<open>message_api\<close>, \<open>identity_api\<close>, \<open>crypto_api\<close>, \<open>store_api\<close>, \<open>ffi_api\<close>) are verified
    from the contracts alone: wire round trips, wiped identities, an encrypted channel, deletion, a
    session that gives everything back. Sentences of the headers that the code does not keep are left out of the
    contracts and named where they would stand.

  \<^bold>\<open>Loops and bounds.\<close> Loops over arrays are recursive functions with measures. The polling loop of the tick and
  the drain loop of the shutdown are partial functions in \<open>option\<close>, where not returning is \<open>None\<close>; both are
  proved to return, the first from the transport's contract that it runs out of datagrams
  (\<open>draining_transport\<close>), the second from the ring's length. No fuel is used. Hypotheses that bound sizes: packets are
  shorter than \<open>2 ^ 31\<close> bytes, since the code converts lengths to \<open>int\<close>, plaintexts shorter than \<open>2 ^ 30\<close>, and stored payloads at most
  SQLite's default limit of \<open>10 ^ 9\<close> bytes.

  \<^bold>\<open>Not modelled.\<close> libsodium and SQLite themselves (third-party code; their laws are hypotheses or the meaning of the
  SQL text), the Kotlin application, tests and build files. The medium between the nodes of a mesh is not code: it is an
  arbitrary parameter \<open>link\<close>. The mesh theorems are about one round of gossip; the tick's store-and-forward,
  which repeats stored messages every few seconds, and its eviction are stated for one node only. Secrecy is not stated: wiping keys is
  modelled for the identity that outlives a call, not for local buffers that go out of scope. Elsewhere than in
  \<open>Ffi_Threads\<close>, threads are interleaved at the granularity of whole calls: the interface's mutex enforces this, the
  command-line simulator does not. A user callback that calls the interface again is not modelled.
\<close>

section \<open>A conversation through the mesh\<close>



end
